(* ===== verification/Prelude.thy ===== *)
theory Prelude
  imports
    Main
    "HOL-Library.Word"
    "HOL-Library.Finite_Map"
    "HOL-Library.List_Lexorder"
    "HOL-Library.Product_Lexorder"
begin

text \<open>
  Shared vocabulary of the development: the machine integers and identifier types of the
  runtime, results of fallible operations, and the ordered containers of the Rust standard
  library. A \<open>BTreeMap\<close> is a finite map (\<open>fmap\<close>) whose iteration order is the sorted list
  \<open>items\<close>, a \<open>BTreeSet\<close> or \<open>HashSet\<close> is a finite set (\<open>fset\<close>), a \<open>Vec\<close> is a list. The
  lemmas below relate iteration to lookup; the components only use these.
\<close>

unbundle bit_operations_syntax

named_theorems iter_simps \<open>iteration over ordered maps, in terms of lookups\<close>
named_theorems view_simps \<open>lookups in views and overlays\<close>
named_theorems op_simps \<open>classification of plan operations\<close>

subsection \<open>Machine integers\<close>

type_synonym u8 = "8 word"
type_synonym u16 = "16 word"
type_synonym u32 = "32 word"
type_synonym u64 = "64 word"
type_synonym i32 = "32 word"

definition checked_add :: "'w::len word \<Rightarrow> 'w word \<Rightarrow> 'w word option" where
  "checked_add a b = (if unat a + unat b < 2 ^ LENGTH('w) then Some (a + b) else None)"

definition saturating_add :: "'w::len word \<Rightarrow> 'w word \<Rightarrow> 'w word" where
  "saturating_add a b = (if unat a + unat b < 2 ^ LENGTH('w) then a + b else - 1)"

definition saturating_sub :: "'w::len word \<Rightarrow> 'w word \<Rightarrow> 'w word" where
  "saturating_sub a b = (if b \<le> a then a - b else 0)"

lemma unat_minus_one_word: "unat (- 1 :: 'w::len word) = 2 ^ LENGTH('w) - 1"
  by (simp add: unsigned_minus_1_eq_mask mask_eq_exp_minus_1)

lemma checked_add_Some:
  "checked_add a b = Some c \<Longrightarrow> unat c = unat a + unat b"
  by (auto simp: checked_add_def unat_word_ariths split: if_splits)

lemma checked_add_one_eq_None:
  "checked_add a (1 :: 'w::len word) = None \<longleftrightarrow> a = - 1"
proof -
  have "unat a + 1 < 2 ^ LENGTH('w) \<longleftrightarrow> a \<noteq> - 1"
  proof
    assume h: "unat a + 1 < 2 ^ LENGTH('w)"
    show "a \<noteq> - 1"
    proof
      assume "a = - 1"
      with h show False by (simp add: unat_minus_one_word)
    qed
  next
    assume "a \<noteq> - 1"
    moreover have "unat a < 2 ^ LENGTH('w)" by simp
    moreover have "unat a \<noteq> 2 ^ LENGTH('w) - 1"
      using \<open>a \<noteq> - 1\<close> by (simp add: word_unat_eq_iff unat_minus_one_word)
    ultimately show "unat a + 1 < 2 ^ LENGTH('w)" by linarith
  qed
  then show ?thesis by (simp add: checked_add_def)
qed

lemma unat_saturating_add:
  "unat (saturating_add a (b :: 'w::len word)) = min (unat a + unat b) (2 ^ LENGTH('w) - 1)"
  by (auto simp: saturating_add_def unat_word_ariths unat_minus_one_word)

lemma unat_saturating_sub: "unat (saturating_sub a b) = unat a - unat b"
  by (auto simp: saturating_sub_def unat_sub word_le_nat_alt)

subsection \<open>Results\<close>

type_synonym ('e, 'a) result = "'e + 'a"

definition is_ok :: "('e, 'a) result \<Rightarrow> bool" where
  "is_ok r = (case r of Inl _ \<Rightarrow> False | Inr _ \<Rightarrow> True)"

lemma is_ok_simps [simp]: "is_ok (Inr x)" "\<not> is_ok (Inl e)"
  by (simp_all add: is_ok_def)

text \<open>A loop whose body may return early with an error: the first error ends it.\<close>

fun for_all_ok :: "('a \<Rightarrow> ('e, unit) result) \<Rightarrow> 'a list \<Rightarrow> ('e, unit) result" where
  "for_all_ok f [] = Inr ()"
| "for_all_ok f (x # xs) = (case f x of Inl e \<Rightarrow> Inl e | Inr _ \<Rightarrow> for_all_ok f xs)"

lemma for_all_ok_iff: "for_all_ok f xs = Inr () \<longleftrightarrow> (\<forall>x \<in> set xs. f x = Inr ())"
  by (induction xs) (auto split: sum.splits)

lemma for_all_ok_errorE:
  assumes "for_all_ok f xs = Inl e"
  obtains x where "x \<in> set xs" and "f x = Inl e"
  using assms by (induction xs) (auto split: sum.splits)

subsection \<open>Iterator adaptors\<close>

text \<open>\<open>iter().flatten()\<close> over options, \<open>filter_map\<close> and \<open>position\<close>.\<close>

fun flatten :: "'a option list \<Rightarrow> 'a list" where
  "flatten [] = []"
| "flatten (None # xs) = flatten xs"
| "flatten (Some x # xs) = x # flatten xs"

definition filter_map :: "('a \<Rightarrow> 'b option) \<Rightarrow> 'a list \<Rightarrow> 'b list" where
  "filter_map f xs = flatten (map f xs)"

lemma set_flatten [simp]: "x \<in> set (flatten xs) \<longleftrightarrow> Some x \<in> set xs"
  by (induction xs rule: flatten.induct) auto

lemma flatten_append [simp]: "flatten (xs @ ys) = flatten xs @ flatten ys"
  by (induction xs rule: flatten.induct) auto

lemma flatten_map_Some [simp]: "flatten (map Some xs) = xs"
  by (induction xs) auto

lemma flatten_replicate_None [simp]: "flatten (replicate n None) = []"
  by (induction n) auto

lemma flatten_eq_Nil_iff: "flatten xs = [] \<longleftrightarrow> (\<forall>x \<in> set xs. x = None)"
  by (induction xs rule: flatten.induct) auto

lemma in_set_filter_map: "y \<in> set (filter_map f xs) \<longleftrightarrow> (\<exists>x \<in> set xs. f x = Some y)"
  by (auto simp: filter_map_def image_iff) metis

lemma filter_map_simps [simp]:
  "filter_map f [] = []"
  "filter_map f (x # xs) = (case f x of None \<Rightarrow> filter_map f xs | Some y \<Rightarrow> y # filter_map f xs)"
  "filter_map f (xs @ ys) = filter_map f xs @ filter_map f ys"
  by (simp_all add: filter_map_def split: option.splits)

text \<open>One iteration of a loop that pushes at most one element.\<close>

lemma filter_map_Cons_append: "filter_map f (x # xs) = (case f x of None \<Rightarrow> [] | Some y \<Rightarrow> [y]) @ filter_map f xs"
  by (simp split: option.splits)

lemma filter_filter_map:
  assumes "\<And>x. x \<in> set xs \<Longrightarrow>
     (case f x of None \<Rightarrow> None | Some y \<Rightarrow> if P y then Some y else None) = (if Q x then g x else None)"
  shows "filter P (filter_map f xs) = filter_map g (filter Q xs)"
  using assms
proof (induction xs)
  case (Cons x xs)
  then have "filter P (filter_map f xs) = filter_map g (filter Q xs)" by simp
  then show ?case using Cons.prems [of x] by (cases "f x"; cases "g x") (auto split: if_splits)
qed simp

lemma distinct_filter_map:
  assumes "\<And>x y. x \<in> set xs \<Longrightarrow> f x = Some y \<Longrightarrow> g y = h x" and "distinct (map h xs)"
  shows "distinct (map g (filter_map f xs))"
  using assms
proof (induction xs)
  case (Cons x xs)
  have "g ` set (filter_map f xs) \<subseteq> h ` set xs"
    using Cons.prems(1) by (fastforce simp: in_set_filter_map)
  moreover have "f x = Some y \<Longrightarrow> g y = h x" for y using Cons.prems(1) by simp
  moreover have "distinct (map g (filter_map f xs))" using Cons by simp
  ultimately show ?case using Cons.prems(2) by (cases "f x") auto
qed simp

subsection \<open>Sorted association lists\<close>

lemma sorted_fst_unique:
  fixes xs ys :: "('k::linorder \<times> 'v) list"
  assumes "sorted_wrt (<) (map fst xs)" and "sorted_wrt (<) (map fst ys)" and "set xs = set ys"
  shows "xs = ys"
proof -
  have "map fst xs = map fst ys"
    using assms by (metis strict_sorted_equal set_map)
  moreover have "inj_on fst (set xs)"
    using assms(1) by (metis distinct_map strict_sorted_iff)
  ultimately show ?thesis
    using assms(3) by (metis Un_absorb inj_on_map_eq_map)
qed

text \<open>\<open>sort_unstable\<close> followed by \<open>dedup\<close>.\<close>

lemma strict_sorted_remdups_adj: "sorted xs \<Longrightarrow> sorted_wrt (<) (remdups_adj (xs :: 'a::linorder list))"
  by (induction xs rule: remdups_adj.induct) auto

lemma remdups_adj_sort: "remdups_adj (sort xs) = sorted_list_of_set (set (xs :: 'a::linorder list))"
proof -
  have "sorted_wrt (<) (remdups_adj (sort xs))" by (rule strict_sorted_remdups_adj) simp
  moreover have "set (remdups_adj (sort xs)) = set xs" by simp
  ultimately show ?thesis
    by (metis sorted_list_of_set.idem_if_sorted_distinct strict_sorted_iff)
qed

definition items :: "('k::linorder, 'v) fmap \<Rightarrow> ('k \<times> 'v) list" where
  "items m = sorted_list_of_fmap m"

abbreviation fkeys :: "('k::linorder, 'v) fmap \<Rightarrow> 'k list" where
  "fkeys m \<equiv> map fst (items m)"

abbreviation fvals :: "('k::linorder, 'v) fmap \<Rightarrow> 'v list" where
  "fvals m \<equiv> map snd (items m)"

lemma fkeys_eq: "fkeys m = sorted_list_of_fset (fmdom m)"
  by (simp add: items_def sorted_list_of_fmap_def comp_def)

lemma sorted_fkeys: "sorted_wrt (<) (fkeys m)"
  unfolding fkeys_eq sorted_list_of_fset.rep_eq
  by (simp add: strict_sorted_iff)

lemma distinct_fkeys [simp]: "distinct (fkeys m)"
  using sorted_fkeys strict_sorted_iff by blast

lemma distinct_items [simp]: "distinct (items m)"
  using distinct_fkeys distinct_map by blast

lemma in_set_items [iter_simps]: "(k, v) \<in> set (items m) \<longleftrightarrow> fmlookup m k = Some v"
  by (auto simp: items_def sorted_list_of_fmap_def image_iff fmlookup_dom_iff)

lemma in_set_items_eq [iter_simps]: "p \<in> set (items m) \<longleftrightarrow> fmlookup m (fst p) = Some (snd p)"
  by (cases p) (simp add: in_set_items)

lemma in_set_fkeys [iter_simps]: "k \<in> set (fkeys m) \<longleftrightarrow> k |\<in>| fmdom m"
  by (simp only: fkeys_eq sorted_list_of_fset_simps)

lemma in_set_fvals [iter_simps]: "v \<in> set (fvals m) \<longleftrightarrow> (\<exists>k. fmlookup m k = Some v)"
proof
  assume "v \<in> set (fvals m)"
  then obtain p where "p \<in> set (items m)" and "v = snd p" by auto
  then show "\<exists>k. fmlookup m k = Some v" by (auto simp: in_set_items_eq)
next
  assume "\<exists>k. fmlookup m k = Some v"
  then obtain k where "(k, v) \<in> set (items m)" by (auto simp: in_set_items)
  then show "v \<in> set (fvals m)" by (simp add: rev_image_eqI)
qed

lemma bex_fvals: "(\<exists>v \<in> set (fvals m). P v) \<longleftrightarrow> (\<exists>k v. fmlookup m k = Some v \<and> P v)"
  unfolding Bex_def in_set_fvals by blast

lemma in_filter_map_items:
  "y \<in> set (filter_map f (items m)) \<longleftrightarrow> (\<exists>k v. fmlookup m k = Some v \<and> f (k, v) = Some y)"
  by (auto simp: in_set_filter_map in_set_items Bex_def)

lemma distinct_filter_map_items:
  "(\<And>k v y. fmlookup m k = Some v \<Longrightarrow> f (k, v) = Some y \<Longrightarrow> g y = k) \<Longrightarrow> distinct (map g (filter_map f (items m)))"
  by (rule distinct_filter_map [of _ _ _ fst]) (auto simp: in_set_items)

lemma fst_image_items: "fst ` set (items m) = fset (fmdom m)"
  using in_set_fkeys [of _ m] by auto

lemma items_unique:
  assumes "sorted_wrt (<) (map fst xs)" and "\<And>k v. (k, v) \<in> set xs \<longleftrightarrow> fmlookup m k = Some v"
  shows "items m = xs"
  by (rule sorted_fst_unique) (use assms sorted_fkeys in \<open>auto simp: in_set_items\<close>)

lemma items_empty [simp]: "items fmempty = []"
  by (rule items_unique) auto

lemma items_eq_Nil_iff [simp]: "items m = [] \<longleftrightarrow> m = fmempty"
proof
  assume "items m = []"
  then have "\<And>k. fmlookup m k = None"
    using in_set_items [of _ _ m] by (metis empty_iff empty_set not_None_eq)
  then show "m = fmempty" by (intro fmap_ext) simp
qed simp

lemma sorted_insort_fst:
  assumes "sorted_wrt (<) (map fst xs)" and "k \<notin> fst ` set xs"
  shows "sorted_wrt (<) (map fst (insort_key fst (k, v) xs))"
  using assms by (auto simp: strict_sorted_iff sorted_insort_key distinct_map distinct_insort
      insort_key_left_comm set_insort_key inj_on_def image_iff)

lemma items_upd: "items (fmupd k v m) = insort_key fst (k, v) (items (fmdrop k m))"
proof (rule items_unique)
  show "sorted_wrt (<) (map fst (insort_key fst (k, v) (items (fmdrop k m))))"
    by (rule sorted_insort_fst) (auto simp: sorted_fkeys fst_image_items)
qed (auto simp: set_insort_key in_set_items)

text \<open>\<open>BTreeMap::retain\<close>, and \<open>iter().filter(..).collect()\<close>.\<close>

definition fm_retain :: "('k \<Rightarrow> 'v \<Rightarrow> bool) \<Rightarrow> ('k, 'v) fmap \<Rightarrow> ('k, 'v) fmap" where
  "fm_retain P m = fmfilter (\<lambda>k. case fmlookup m k of None \<Rightarrow> False | Some v \<Rightarrow> P k v) m"

lemma fmlookup_retain [simp]:
  "fmlookup (fm_retain P m) k = (case fmlookup m k of None \<Rightarrow> None
     | Some v \<Rightarrow> if P k v then Some v else None)"
  by (auto simp: fm_retain_def split: option.splits)

lemma items_retain: "items (fm_retain P m) = filter (\<lambda>(k, v). P k v) (items m)"
proof (rule items_unique)
  show "sorted_wrt (<) (map fst (filter (\<lambda>(k, v). P k v) (items m)))"
    using sorted_fkeys [of m] by (simp add: sorted_wrt_map sorted_wrt_filter)
qed (auto simp: in_set_items split: option.splits)

lemma fmdom_retain: "fmdom (fm_retain P m) |\<subseteq>| fmdom m"
  by (auto simp: fmlookup_dom_iff split: option.splits if_splits)

declare fmlookup_add [simp del]

lemma fm_lookup_add [simp]:
  "fmlookup (m ++\<^sub>f n) k = (case fmlookup n k of None \<Rightarrow> fmlookup m k | Some v \<Rightarrow> Some v)"
  by (auto simp: map_add_def fmadd.rep_eq split: option.splits)

text \<open>\<open>contains_key\<close> and \<open>get_mut(..).map(f)\<close>.\<close>

definition fm_has :: "('k, 'v) fmap \<Rightarrow> 'k \<Rightarrow> bool" where
  "fm_has m k = (case fmlookup m k of None \<Rightarrow> False | Some _ \<Rightarrow> True)"

lemma fm_has_iff [simp]: "fm_has m k \<longleftrightarrow> k |\<in>| fmdom m"
  by (auto simp: fm_has_def fmlookup_dom_iff split: option.splits)

definition fm_adjust :: "'k \<Rightarrow> ('v \<Rightarrow> 'v) \<Rightarrow> ('k, 'v) fmap \<Rightarrow> ('k, 'v) fmap" where
  "fm_adjust k f m = (case fmlookup m k of None \<Rightarrow> m | Some v \<Rightarrow> fmupd k (f v) m)"

lemma fmlookup_adjust [simp]:
  "fmlookup (fm_adjust k f m) x = (if x = k then map_option f (fmlookup m k) else fmlookup m x)"
  by (auto simp: fm_adjust_def split: option.splits)

lemma fmdom_adjust [simp]: "fmdom (fm_adjust k f m) = fmdom m"
  by (auto simp: fm_adjust_def fmlookup_dom_iff split: option.splits)

definition fm_get_or :: "'v \<Rightarrow> ('k, 'v) fmap \<Rightarrow> 'k \<Rightarrow> 'v" where
  "fm_get_or d m k = (case fmlookup m k of None \<Rightarrow> d | Some v \<Rightarrow> v)"

lemma notin_fmdom_iff: "k |\<notin>| fmdom m \<longleftrightarrow> fmlookup m k = None"
  by (simp add: fmdom_notD fmdom_notI iff_conv_conj_imp)

text \<open>A walk over the keys of a map that remembers where it has been gets shorter.\<close>

lemma guard_shrinks:
  assumes "fmlookup m k = Some v" and "k |\<notin>| g"
  shows "fcard (fmdom m |-| finsert k g) < fcard (fmdom m |-| g)"
proof (rule pfsubset_fcard_mono)
  have "k |\<in>| fmdom m" using assms(1) by (rule fmdomI)
  then show "fmdom m |-| finsert k g |\<subset>| fmdom m |-| g" using assms(2) by auto
qed

end
