(* ===== verification/Ids.thy ===== *)
theory Ids
  imports Prelude
begin

text \<open>
  Identifiers and the runtime-wide allocator of \<open>runtime/crates/shard/src/ids.rs\<close>: the wire
  numbers of channels and sessions, handed out once and never recycled. The interface the
  render builder and the shard rely on is the locale \<open>id_supply\<close>; it is interpreted for both
  number spaces of the allocator.
\<close>

subsection \<open>Identifiers\<close>

type_synonym shard_id = u64
type_synonym connection_id = u64
type_synonym synthetic_id = u64
type_synonym session_id = u32
type_synonym channel_id = u32
type_synonym channel_key = u64
type_synonym action_key = u64

definition ROOT_ID :: channel_id where
  "ROOT_ID = 0"

definition ROOT_KEY :: channel_key where
  "ROOT_KEY = 0"

datatype occupant =
    Connection connection_id
  | Synthetic synthetic_id

fun occupant_connection :: "occupant \<Rightarrow> connection_id option" where
  "occupant_connection (Connection c) = Some c"
| "occupant_connection (Synthetic _) = None"

datatype exhausted = ExhaustedChannels | ExhaustedSessions

lemma occupant_connection_Some [simp]: "occupant_connection w = Some c \<longleftrightarrow> w = Connection c"
  by (cases w) auto

subsection \<open>The allocator\<close>

record id_allocator =
  al_channels :: "(shard_id \<times> channel_key, channel_id) fmap"
  al_sessions :: "(occupant, session_id) fmap"
  next_channel :: "u32 option"
  next_session :: "u32 option"

definition allocator_new :: id_allocator where
  "allocator_new = \<lparr>al_channels = fmempty, al_sessions = fmempty,
     next_channel = Some 1, next_session = Some 1\<rparr>"

definition alloc_channel ::
    "shard_id \<Rightarrow> channel_key \<Rightarrow> id_allocator \<Rightarrow> (exhausted, channel_id) result \<times> id_allocator" where
  "alloc_channel shard key a =
     (case fmlookup (al_channels a) (shard, key) of
        Some existing \<Rightarrow> (Inr existing, a)
      | None \<Rightarrow>
          (case next_channel a of
             None \<Rightarrow> (Inl ExhaustedChannels, a)
           | Some raw \<Rightarrow>
               (Inr raw,
                a\<lparr>next_channel := checked_add raw 1,
                  al_channels := fmupd (shard, key) raw (al_channels a)\<rparr>)))"

definition alloc_session ::
    "occupant \<Rightarrow> id_allocator \<Rightarrow> (exhausted, session_id) result \<times> id_allocator" where
  "alloc_session who a =
     (case fmlookup (al_sessions a) who of
        Some existing \<Rightarrow> (Inr existing, a)
      | None \<Rightarrow>
          (case next_session a of
             None \<Rightarrow> (Inl ExhaustedSessions, a)
           | Some raw \<Rightarrow>
               (Inr raw,
                a\<lparr>next_session := checked_add raw 1,
                  al_sessions := fmupd who raw (al_sessions a)\<rparr>)))"

definition allocated_session :: "id_allocator \<Rightarrow> occupant \<Rightarrow> session_id option" where
  "allocated_session a who = fmlookup (al_sessions a) who"

definition allocated_channel :: "id_allocator \<Rightarrow> shard_id \<Rightarrow> channel_key \<Rightarrow> channel_id option" where
  "allocated_channel a shard key = fmlookup (al_channels a) (shard, key)"

definition retain_channels :: "shard_id \<Rightarrow> channel_key fset \<Rightarrow> id_allocator \<Rightarrow> id_allocator" where
  "retain_channels shard retained a =
     a\<lparr>al_channels := fm_retain (\<lambda>(owner, key) _. owner \<noteq> shard \<or> key |\<in>| retained) (al_channels a)\<rparr>"

definition retire_channel_ids :: "shard_id \<Rightarrow> channel_id fset \<Rightarrow> id_allocator \<Rightarrow> id_allocator" where
  "retire_channel_ids shard retired a =
     a\<lparr>al_channels := fm_retain (\<lambda>(owner, _) id. owner \<noteq> shard \<or> id |\<notin>| retired) (al_channels a)\<rparr>"

subsection \<open>The allocator invariant\<close>

text \<open>
  Live identifiers are pairwise distinct, non-zero, and below the allocation cursor of their
  space; an exhausted cursor bounds nothing.
\<close>

definition below :: "u32 \<Rightarrow> u32 option \<Rightarrow> bool" where
  "below i cursor = (case cursor of None \<Rightarrow> True | Some n \<Rightarrow> i < n)"

definition supply_ok :: "('k, u32) fmap \<Rightarrow> u32 option \<Rightarrow> bool" where
  "supply_ok m cursor \<longleftrightarrow>
     (\<forall>k i. fmlookup m k = Some i \<longrightarrow> i \<noteq> 0 \<and> below i cursor) \<and>
     (\<forall>k k' i. fmlookup m k = Some i \<longrightarrow> fmlookup m k' = Some i \<longrightarrow> k = k') \<and>
     (\<forall>n. cursor = Some n \<longrightarrow> n \<noteq> 0)"

definition alloc_inv :: "id_allocator \<Rightarrow> bool" where
  "alloc_inv a \<longleftrightarrow>
     supply_ok (al_channels a) (next_channel a) \<and> supply_ok (al_sessions a) (next_session a)"

lemma alloc_inv_new: "alloc_inv allocator_new"
  by (simp add: alloc_inv_def supply_ok_def allocator_new_def)

lemma checked_succ:
  fixes n :: u32
  assumes "checked_add n 1 = Some m"
  shows "n < m" and "m \<noteq> 0"
proof -
  have "unat m = unat n + 1" using assms checked_add_Some by fastforce
  then show "n < m" and "m \<noteq> 0" by (auto simp: word_less_nat_alt)
qed

lemma below_succ: "below i (Some n) \<Longrightarrow> below i (checked_add n 1)"
  by (auto simp: below_def dest: checked_succ split: option.splits)

lemma below_self_succ: "below n (checked_add n 1)"
  by (auto simp: below_def dest: checked_succ split: option.splits)

lemma supply_ok_upd:
  assumes "supply_ok m (Some n)" and "fmlookup m k = None"
  shows "supply_ok (fmupd k n m) (checked_add n 1)"
proof -
  have fresh: "fmlookup m k' \<noteq> Some n" for k'
    using assms(1) by (auto simp: supply_ok_def below_def)
  then show ?thesis
    using assms
    by (auto simp: supply_ok_def below_self_succ below_succ dest: checked_succ split: if_splits)
qed

lemma supply_ok_retain: "supply_ok m cursor \<Longrightarrow> supply_ok (fm_retain P m) cursor"
  by (auto simp: supply_ok_def split: option.splits if_splits)

lemma alloc_inv_channel: "alloc_inv a \<Longrightarrow> alloc_inv (snd (alloc_channel s k a))"
  by (auto simp: alloc_inv_def alloc_channel_def supply_ok_upd split: option.splits)

lemma alloc_inv_session: "alloc_inv a \<Longrightarrow> alloc_inv (snd (alloc_session w a))"
  by (auto simp: alloc_inv_def alloc_session_def supply_ok_upd split: option.splits)

lemma alloc_inv_retain: "alloc_inv a \<Longrightarrow> alloc_inv (retain_channels s ks a)"
  by (simp add: alloc_inv_def retain_channels_def supply_ok_retain)

lemma alloc_inv_retire: "alloc_inv a \<Longrightarrow> alloc_inv (retire_channel_ids s is a)"
  by (simp add: alloc_inv_def retire_channel_ids_def supply_ok_retain)

lemmas alloc_inv_ops = alloc_inv_new alloc_inv_channel alloc_inv_session alloc_inv_retain
  alloc_inv_retire

subsection \<open>The supply interface\<close>

text \<open>
  What a client of the allocator relies on: an identity keeps the number it was given, a new
  identity gets a number no live identity holds, a refusal changes nothing.
\<close>

locale id_supply =
  fixes look :: "'a \<Rightarrow> 'k \<Rightarrow> 'i option"
    and alloc :: "'k \<Rightarrow> 'a \<Rightarrow> ('e, 'i) result \<times> 'a"
    and inv :: "'a \<Rightarrow> bool"
  assumes alloc_hit: "look a k = Some i \<Longrightarrow> alloc k a = (Inr i, a)"
    and alloc_miss: "inv a \<Longrightarrow> look a k = None \<Longrightarrow> alloc k a = (Inr i, a') \<Longrightarrow>
          look a' = (look a)(k \<mapsto> i) \<and> (\<forall>k'. look a k' \<noteq> Some i)"
    and alloc_error: "alloc k a = (Inl e, a') \<Longrightarrow> a' = a"
    and look_inj: "inv a \<Longrightarrow> look a k = Some i \<Longrightarrow> look a k' = Some i \<Longrightarrow> k = k'"
    and alloc_keeps: "inv a \<Longrightarrow> inv (snd (alloc k a))"
begin

lemma look_after:
  assumes "inv a" and "alloc k a = (Inr i, a')"
  shows "look a' k = Some i"
proof (cases "look a k")
  case None
  then show ?thesis using alloc_miss [OF assms(1) None assms(2)] by simp
next
  case (Some j)
  then show ?thesis using alloc_hit [OF Some] assms(2) by simp
qed

lemma look_stable:
  assumes "inv a" and "look a k = Some i"
  shows "look (snd (alloc k' a)) k = Some i"
proof (cases "look a k'")
  case (Some j)
  then show ?thesis using alloc_hit [OF Some] assms(2) by simp
next
  case None
  obtain r a' where al: "alloc k' a = (r, a')" by fastforce
  show ?thesis
  proof (cases r)
    case (Inl e)
    then show ?thesis using al alloc_error [of k' a e a'] assms(2) by simp
  next
    case (Inr j)
    then show ?thesis using al alloc_miss [OF assms(1) None, of j a'] assms(2) None by auto
  qed
qed

lemma alloc_again: "inv a \<Longrightarrow> alloc k a = (Inr i, a') \<Longrightarrow> alloc k a' = (Inr i, a')"
  using look_after alloc_hit by blast

lemma distinct_keys_distinct_ids:
  assumes "inv a" and "alloc k a = (Inr i, a')" and "alloc k' a' = (Inr j, a'')" and "k \<noteq> k'"
  shows "i \<noteq> j"
proof -
  have inv': "inv a'" using assms(1,2) alloc_keeps by (metis snd_conv)
  have "look a'' k = Some i"
    using look_stable [OF inv' look_after [OF assms(1,2)], of k'] assms(3) by simp
  moreover have "look a'' k' = Some j" using look_after inv' assms(3) by blast
  moreover have "inv a''" using inv' assms(3) alloc_keeps by (metis snd_conv)
  ultimately show ?thesis using look_inj assms(4) by blast
qed

end

lemma supply_ok_fresh: "supply_ok m (Some n) \<Longrightarrow> fmlookup m k \<noteq> Some n"
  by (auto simp: supply_ok_def below_def)

lemma supply_ok_inj:
  "supply_ok m c \<Longrightarrow> fmlookup m k = Some i \<Longrightarrow> fmlookup m k' = Some i \<Longrightarrow> k = k'"
  by (auto simp: supply_ok_def)

interpretation channels: id_supply
  "\<lambda>a (s, k). allocated_channel a s k" "\<lambda>(s, k). alloc_channel s k" alloc_inv
proof (unfold_locales, goal_cases)
  case (1 a k i)
  then show ?case by (auto simp: allocated_channel_def alloc_channel_def split: prod.splits)
next
  case (2 a k i a')
  then show ?case
    by (auto simp: allocated_channel_def alloc_channel_def alloc_inv_def fun_eq_iff supply_ok_fresh
        split: prod.splits option.splits)
next
  case (3 k a e a')
  then show ?case by (auto simp: alloc_channel_def split: prod.splits option.splits)
next
  case (4 a k i k')
  then show ?case
    using supply_ok_inj [of "al_channels a" "next_channel a" k i k']
    by (auto simp: allocated_channel_def alloc_inv_def split: prod.splits)
next
  case (5 a k)
  then show ?case by (auto simp: alloc_inv_channel split: prod.splits)
qed

interpretation sessions: id_supply allocated_session alloc_session alloc_inv
proof (unfold_locales, goal_cases)
  case (1 a k i)
  then show ?case by (auto simp: allocated_session_def alloc_session_def)
next
  case (2 a k i a')
  then show ?case
    by (auto simp: allocated_session_def alloc_session_def alloc_inv_def fun_eq_iff supply_ok_fresh
        split: option.splits)
next
  case (3 k a e a')
  then show ?case by (auto simp: alloc_session_def split: option.splits)
next
  case (4 a k i k')
  then show ?case
    using supply_ok_inj [of "al_sessions a" "next_session a" k i k']
    by (auto simp: allocated_session_def alloc_inv_def)
next
  case (5 a k)
  then show ?case by (rule alloc_inv_session)
qed

subsection \<open>Histories of the allocator\<close>

text \<open>
  Everything a runtime may ask of the shared allocator, in any order and from any shard; the
  lock of \<open>SharedIds\<close> makes each request one step. \<open>issued\<close> lists the channel numbers that
  were handed out for the first time along a history.
\<close>

datatype alloc_request =
    AskChannel shard_id channel_key
  | AskSession occupant
  | RetainChannels shard_id "channel_key fset"
  | RetireIds shard_id "channel_id fset"

fun alloc_step :: "alloc_request \<Rightarrow> id_allocator \<Rightarrow> id_allocator" where
  "alloc_step (AskChannel s k) a = snd (alloc_channel s k a)"
| "alloc_step (AskSession w) a = snd (alloc_session w a)"
| "alloc_step (RetainChannels s ks) a = retain_channels s ks a"
| "alloc_step (RetireIds s is) a = retire_channel_ids s is a"

fun issued :: "alloc_request list \<Rightarrow> id_allocator \<Rightarrow> channel_id list" where
  "issued [] a = []"
| "issued (r # rs) a =
     (case r of
        AskChannel s k \<Rightarrow>
          (case (allocated_channel a s k, fst (alloc_channel s k a)) of
             (None, Inr i) \<Rightarrow> [i]
           | _ \<Rightarrow> [])
      | _ \<Rightarrow> [])
     @ issued rs (alloc_step r a)"

lemma alloc_inv_step: "alloc_inv a \<Longrightarrow> alloc_inv (alloc_step r a)"
  by (cases r) (auto intro: alloc_inv_ops)

lemma alloc_inv_run: "alloc_inv a \<Longrightarrow> alloc_inv (fold alloc_step rs a)"
  by (induction rs arbitrary: a) (auto intro: alloc_inv_step)

lemma next_channel_step:
  "next_channel (alloc_step r a) = next_channel a \<or>
   (\<exists>n. next_channel a = Some n \<and> next_channel (alloc_step r a) = checked_add n 1)"
  by (cases r) (auto simp: alloc_channel_def alloc_session_def retain_channels_def
      retire_channel_ids_def split: option.splits)

lemma issued_from_cursor:
  "i \<in> set (issued rs a) \<Longrightarrow> \<exists>n. next_channel a = Some n \<and> n \<le> i"
proof (induction rs arbitrary: a)
  case (Cons r rs)
  show ?case
  proof (cases "i \<in> set (issued rs (alloc_step r a))")
    case True
    then obtain n where n: "next_channel (alloc_step r a) = Some n" "n \<le> i"
      using Cons.IH by blast
    from next_channel_step [of r a] show ?thesis
    proof
      assume "next_channel (alloc_step r a) = next_channel a"
      with n show ?thesis by auto
    next
      assume "\<exists>m. next_channel a = Some m \<and> next_channel (alloc_step r a) = checked_add m 1"
      then obtain m where m: "next_channel a = Some m" "checked_add m 1 = Some n"
        using n(1) by auto
      with n(2) show ?thesis using checked_succ(1) [OF m(2)] by auto
    qed
  next
    case False
    with Cons.prems show ?thesis
      by (auto simp: allocated_channel_def alloc_channel_def split: alloc_request.splits option.splits
          sum.splits)
  qed
qed simp

lemma issued_sorted: "sorted_wrt (<) (issued rs a)"
proof (induction rs arbitrary: a)
  case (Cons r rs)
  show ?case
  proof (cases "\<exists>s k n. r = AskChannel s k \<and> allocated_channel a s k = None \<and> next_channel a = Some n")
    case True
    then obtain s k n where r: "r = AskChannel s k" "allocated_channel a s k = None"
      "next_channel a = Some n" by blast
    then have iss: "issued (r # rs) a = n # issued rs (alloc_step r a)"
      and nx: "next_channel (alloc_step r a) = checked_add n 1"
      by (simp_all add: alloc_channel_def allocated_channel_def)
    have "n < i" if "i \<in> set (issued rs (alloc_step r a))" for i
    proof -
      from issued_from_cursor [OF that] nx obtain m where m: "checked_add n 1 = Some m" "m \<le> i"
        by auto
      show ?thesis using checked_succ(1) [OF m(1)] m(2) by simp
    qed
    with Cons.IH show ?thesis unfolding iss by simp
  next
    case False
    then have "issued (r # rs) a = issued rs (alloc_step r a)"
      by (auto simp: alloc_channel_def allocated_channel_def split: alloc_request.splits option.splits)
    with Cons.IH show ?thesis by simp
  qed
qed simp

lemma session_stable_step:
  "alloc_inv a \<Longrightarrow> allocated_session a w = Some s \<Longrightarrow> allocated_session (alloc_step r a) w = Some s"
  by (cases r) (auto simp: sessions.look_stable allocated_session_def alloc_channel_def
      retain_channels_def retire_channel_ids_def split: option.splits
      dest: sessions.look_stable [unfolded allocated_session_def])

lemma session_stable_run:
  "alloc_inv a \<Longrightarrow> allocated_session a w = Some s \<Longrightarrow>
     allocated_session (fold alloc_step rs a) w = Some s"
  by (induction rs arbitrary: a) (auto intro: alloc_inv_step session_stable_step)

end
