(* ===== verification/Scope.thy ===== *)
theory Scope
  imports Prelude "HOL-Library.Sublist"
begin

text \<open>
  Visibility scopes, \<open>runtime/crates/shard/src/scope.rs\<close>: a bounded path in a tree, the
  comparability relation and the canonical set of scopes one connection observes. The closure
  property every other component relies on is the locale \<open>visibility\<close>.
\<close>

subsection \<open>Scopes\<close>

definition MAX_DEPTH :: nat where "MAX_DEPTH = 4"
definition MAX_OBSERVED :: nat where "MAX_OBSERVED = 4"

datatype scope = Scope (segments: "u32 list") (depth: u8)

definition ROOT_SCOPE :: scope where
  "ROOT_SCOPE = Scope (replicate MAX_DEPTH 0) 0"

definition child :: "scope \<Rightarrow> u32 \<Rightarrow> scope option" where
  "child s segment =
     (let d = unat (depth s) in
      if MAX_DEPTH \<le> d then None
      else Some (Scope ((segments s)[d := segment]) (saturating_add (depth s) 1)))"

definition scope_depth :: "scope \<Rightarrow> nat" where
  "scope_depth s = unat (depth s)"

definition is_prefix_of :: "scope \<Rightarrow> scope \<Rightarrow> bool" where
  "is_prefix_of s other =
     (let d = unat (depth s) in
      d \<le> unat (depth other) \<and> take d (segments s) = take d (segments other))"

definition comparable :: "scope \<Rightarrow> scope \<Rightarrow> bool" where
  "comparable s other = (is_prefix_of s other \<or> is_prefix_of other s)"

text \<open>The derived \<open>Ord\<close>: the segment array first, then the depth.\<close>

instantiation scope :: linorder
begin

definition less_eq_scope :: "scope \<Rightarrow> scope \<Rightarrow> bool" where
  "less_eq_scope a b = ((segments a, depth a) \<le> (segments b, depth b))"

definition less_scope :: "scope \<Rightarrow> scope \<Rightarrow> bool" where
  "less_scope a b = ((segments a, depth a) < (segments b, depth b))"

instance
proof
  fix x y z :: scope
  show "(x < y) = (x \<le> y \<and> \<not> y \<le> x)"
    by (auto simp: less_eq_scope_def less_scope_def)
  show "x \<le> x" by (simp add: less_eq_scope_def)
  show "x \<le> y \<Longrightarrow> y \<le> z \<Longrightarrow> x \<le> z" unfolding less_eq_scope_def by (rule order_trans)
  show "x \<le> y \<Longrightarrow> y \<le> x \<Longrightarrow> x = y"
    unfolding less_eq_scope_def by (cases x; cases y) (auto dest: antisym)
  show "x \<le> y \<or> y \<le> x" unfolding less_eq_scope_def by (rule linear)
qed

end

subsection \<open>Well-formed scopes and their paths\<close>

text \<open>
  Every scope made by \<open>ROOT_SCOPE\<close> and \<open>child\<close> has a full segment array whose unused tail is
  zero, so that the derived equality is equality of paths.
\<close>

definition scope_ok :: "scope \<Rightarrow> bool" where
  "scope_ok s \<longleftrightarrow>
     length (segments s) = MAX_DEPTH \<and> unat (depth s) \<le> MAX_DEPTH \<and>
     (\<forall>i < MAX_DEPTH. unat (depth s) \<le> i \<longrightarrow> segments s ! i = 0)"

definition path :: "scope \<Rightarrow> u32 list" where
  "path s = take (unat (depth s)) (segments s)"

lemma scope_ok_root [simp]: "scope_ok ROOT_SCOPE"
  by (simp add: scope_ok_def ROOT_SCOPE_def MAX_DEPTH_def)

lemma path_root [simp]: "path ROOT_SCOPE = []"
  by (simp add: path_def ROOT_SCOPE_def)

lemma length_path: "scope_ok s \<Longrightarrow> length (path s) = unat (depth s)"
  by (simp add: path_def scope_ok_def)

lemma depth_succ: "unat (depth s) < MAX_DEPTH \<Longrightarrow> unat (saturating_add (depth s) 1) = Suc (unat (depth s))"
  by (simp add: unat_saturating_add MAX_DEPTH_def)

lemma child_Some_iff: "(\<exists>s'. child s g = Some s') \<longleftrightarrow> unat (depth s) < MAX_DEPTH"
  by (simp add: child_def Let_def)

lemma child_ok: "scope_ok s \<Longrightarrow> child s g = Some s' \<Longrightarrow> scope_ok s'"
  by (auto simp: scope_ok_def child_def Let_def depth_succ nth_list_update split: if_splits)

lemma path_child:
  assumes "scope_ok s" and "child s g = Some s'"
  shows "path s' = path s @ [g]"
proof -
  have d: "unat (depth s) < MAX_DEPTH"
    and s': "s' = Scope ((segments s)[unat (depth s) := g]) (saturating_add (depth s) 1)"
    using assms(2) by (auto simp: child_def Let_def split: if_splits)
  have len: "unat (depth s) < length (segments s)" using assms(1) d by (simp add: scope_ok_def)
  then have "take (Suc (unat (depth s))) ((segments s)[unat (depth s) := g])
      = take (unat (depth s)) (segments s) @ [g]"
    by (simp add: take_Suc_conv_app_nth)
  then show ?thesis by (simp add: path_def s' depth_succ [OF d])
qed

lemma path_inject:
  assumes "scope_ok s" and "scope_ok t" and "path s = path t"
  shows "s = t"
proof -
  have d: "unat (depth s) = unat (depth t)"
    using assms length_path by metis
  have "segments s ! i = segments t ! i" if "i < MAX_DEPTH" for i
  proof (cases "i < unat (depth s)")
    case True
    then show ?thesis using assms(3) d by (metis nth_take path_def)
  next
    case False
    then show ?thesis using assms(1,2) d that by (simp add: scope_ok_def)
  qed
  then have "segments s = segments t"
    using assms(1,2) by (auto simp: scope_ok_def intro: nth_equalityI)
  moreover have "depth s = depth t" using d by (simp add: word_unat_eq_iff)
  ultimately show ?thesis by (cases s; cases t) simp
qed

lemma is_prefix_of_path:
  assumes "scope_ok s" and "scope_ok t"
  shows "is_prefix_of s t \<longleftrightarrow> prefix (path s) (path t)"
proof -
  have "is_prefix_of s t \<longleftrightarrow> length (path s) \<le> length (path t) \<and> path s = take (length (path s)) (path t)"
    using assms by (auto simp: is_prefix_of_def Let_def length_path) (auto simp: path_def min_def)
  also have "\<dots> \<longleftrightarrow> prefix (path s) (path t)"
    by (metis append_eq_conv_conj append_take_drop_id prefix_def prefix_length_le)
  finally show ?thesis .
qed

text \<open>The prefix test needs no well-formedness to be a preorder, nor for the closure argument.\<close>

lemma is_prefix_of_refl [simp]: "is_prefix_of s s"
  by (simp add: is_prefix_of_def Let_def)

lemma take_le_cong: "take m xs = take m ys \<Longrightarrow> n \<le> m \<Longrightarrow> take n xs = take n ys"
  by (metis min.absorb1 take_take)

lemma is_prefix_of_trans: "is_prefix_of r s \<Longrightarrow> is_prefix_of s t \<Longrightarrow> is_prefix_of r t"
  unfolding is_prefix_of_def Let_def by (auto dest: take_le_cong)

lemma prefixes_ordered:
  "is_prefix_of a u \<Longrightarrow> is_prefix_of b u \<Longrightarrow> unat (depth a) \<le> unat (depth b) \<Longrightarrow> is_prefix_of a b"
  unfolding is_prefix_of_def Let_def
  using take_le_cong [of "unat (depth b)" "segments b" "segments u" "unat (depth a)"] by simp

lemma prefixes_comparable: "is_prefix_of a u \<Longrightarrow> is_prefix_of b u \<Longrightarrow> comparable a b"
  using prefixes_ordered [of a u b] prefixes_ordered [of b u a]
    linear [of "unat (depth a)" "unat (depth b)"] by (auto simp: comparable_def)

lemma is_prefix_of_root [simp]: "is_prefix_of ROOT_SCOPE s"
  by (simp add: is_prefix_of_def ROOT_SCOPE_def)

lemma comparable_refl [simp]: "comparable s s"
  by (simp add: comparable_def)

lemma comparable_sym: "comparable s t = comparable t s"
  by (auto simp: comparable_def)

lemma child_extends: "scope_ok s \<Longrightarrow> child s g = Some s' \<Longrightarrow> is_prefix_of s s'"
  by (simp add: is_prefix_of_path child_ok path_child)

lemma comparable_closed: "is_prefix_of c u \<Longrightarrow> comparable u s \<Longrightarrow> comparable c s"
  using is_prefix_of_trans [of c u s] prefixes_comparable [of c u s] by (auto simp: comparable_def)

subsection \<open>Observations\<close>

datatype scope_set = ScopeSet (scopes: "scope option list")

datatype too_many_scopes = TooManyScopes (requested: nat)

definition NONE_SET :: scope_set where
  "NONE_SET = ScopeSet (replicate MAX_OBSERVED None)"

definition scope_set_new :: "scope list \<Rightarrow> (too_many_scopes, scope_set) result" where
  "scope_set_new given =
     (let sorted = remdups_adj (sort given) in
      if MAX_OBSERVED < length sorted then Inl (TooManyScopes (length sorted))
      else Inr (ScopeSet (map Some sorted @ drop (length sorted) (scopes NONE_SET))))"

definition set_iter :: "scope_set \<Rightarrow> scope list" where
  "set_iter see = flatten (scopes see)"

definition sees :: "scope_set \<Rightarrow> scope \<Rightarrow> bool" where
  "sees see element = list_ex (\<lambda>observed. comparable element observed) (set_iter see)"

definition set_is_empty :: "scope_set \<Rightarrow> bool" where
  "set_is_empty see = list_all Option.is_none (scopes see)"

lemma set_iter_empty [simp]: "set_iter NONE_SET = []"
  by (simp add: set_iter_def NONE_SET_def)

lemma sees_none [simp]: "\<not> sees NONE_SET s"
  by (simp add: sees_def)

lemma set_is_empty_iter: "set_is_empty see \<longleftrightarrow> set_iter see = []"
  by (auto simp: set_is_empty_def set_iter_def list_all_iff flatten_eq_Nil_iff Option.is_none_def)

lemma set_iter_new: "scope_set_new given = Inr see \<Longrightarrow> set_iter see = sorted_list_of_set (set given)"
proof -
  assume new: "scope_set_new given = Inr see"
  let ?s = "remdups_adj (sort given)"
  from new have see: "see = ScopeSet (map Some ?s @ drop (length ?s) (scopes NONE_SET))"
    by (auto simp: scope_set_new_def Let_def split: if_splits)
  then have "set_iter see = ?s"
    by (simp add: set_iter_def NONE_SET_def)
  then show ?thesis by (simp add: remdups_adj_sort)
qed

lemma sees_new: "scope_set_new given = Inr see \<Longrightarrow> sees see s \<longleftrightarrow> (\<exists>g \<in> set given. comparable s g)"
  by (simp add: sees_def set_iter_new list_ex_iff)

lemma scopes_new:
  "scope_set_new given = Inr see \<Longrightarrow>
     scopes see = map Some (sorted_list_of_set (set given)) @
       replicate (MAX_OBSERVED - card (set given)) None"
  by (auto simp: scope_set_new_def Let_def remdups_adj_sort NONE_SET_def split: if_splits)

lemma sees_root: "sees see ROOT_SCOPE \<longleftrightarrow> \<not> set_is_empty see"
  by (cases "set_iter see") (auto simp: sees_def set_is_empty_iter comparable_def)

subsection \<open>The closure contract\<close>

text \<open>
  What the view relies on: observers see everything an element they see extends. Filtering a
  map of elements by visibility then never separates an element from what it refers to.
\<close>

locale visibility =
  fixes vis :: "'o \<Rightarrow> 's \<Rightarrow> bool"
    and extends :: "'s \<Rightarrow> 's \<Rightarrow> bool"
  assumes vis_closed: "extends c u \<Longrightarrow> vis w u \<Longrightarrow> vis w c"
    and extends_refl: "extends c c"
    and extends_trans: "extends c d \<Longrightarrow> extends d e \<Longrightarrow> extends c e"
begin

text \<open>
  \<open>refs_closed\<close>: every element of \<open>m\<close> refers, through \<open>r\<close>, to an element of \<open>n\<close> whose scope
  it extends.
\<close>

definition refs_closed ::
    "('a \<Rightarrow> 'k) \<Rightarrow> ('a \<Rightarrow> 's) \<Rightarrow> ('b \<Rightarrow> 's) \<Rightarrow> ('j, 'a) fmap \<Rightarrow> ('k, 'b) fmap \<Rightarrow> bool" where
  "refs_closed r sc sc' m n \<longleftrightarrow>
     (\<forall>k e. fmlookup m k = Some e \<longrightarrow>
        (\<exists>p. fmlookup n (r e) = Some p \<and> extends (sc' p) (sc e)))"

lemma refs_closed_retain:
  assumes "refs_closed r sc sc' m n"
  shows "refs_closed r sc sc' (fm_retain (\<lambda>_ e. vis w (sc e)) m) (fm_retain (\<lambda>_ p. vis w (sc' p)) n)"
  unfolding refs_closed_def
proof (intro allI impI)
  fix k e
  assume "fmlookup (fm_retain (\<lambda>_ e. vis w (sc e)) m) k = Some e"
  then have "fmlookup m k = Some e" and v: "vis w (sc e)"
    by (auto split: option.splits if_splits)
  then obtain p where p: "fmlookup n (r e) = Some p" "extends (sc' p) (sc e)"
    using assms unfolding refs_closed_def by blast
  then show "\<exists>p. fmlookup (fm_retain (\<lambda>_ p. vis w (sc' p)) n) (r e) = Some p \<and> extends (sc' p) (sc e)"
    using vis_closed v by auto
qed

end

lemma sees_closed: "is_prefix_of c u \<Longrightarrow> sees see u \<Longrightarrow> sees see c"
  by (auto simp: sees_def list_ex_iff intro: comparable_closed)

interpretation sc: visibility sees is_prefix_of
  by unfold_locales (auto intro: sees_closed is_prefix_of_trans)

end
