(* ===== verification/View.thy ===== *)
theory View
  imports Ids Scope
begin

text \<open>
  The rendered view of a shard and the private overlays laid over it,
  \<open>runtime/crates/shard/src/view.rs\<close>: channels, users, the view itself, its restriction to an
  observation, its union with an overlay, and the context actions offered to a connection. The
  well-formedness invariant \<open>view_ok\<close> is what the builder establishes and the planner relies on.
\<close>

subsection \<open>Elements\<close>

record channel =
  ch_key :: channel_key
  ch_id :: channel_id
  ch_parent :: channel_id
  ch_scope :: scope
  ch_name :: string
  ch_position :: i32
  ch_can_enter :: bool
  ch_can_text :: bool
  ch_links :: "channel_id fset"

record user_flags =
  fl_mute :: bool
  fl_deaf :: bool
  fl_suppress :: bool
  fl_self_mute :: bool
  fl_self_deaf :: bool
  fl_priority_speaker :: bool
  fl_recording :: bool

definition default_flags :: user_flags where
  "default_flags = \<lparr>fl_mute = False, fl_deaf = False, fl_suppress = False, fl_self_mute = False,
     fl_self_deaf = False, fl_priority_speaker = False, fl_recording = False\<rparr>"

record user =
  us_occupant :: occupant
  us_session :: session_id
  us_channel :: channel_id
  us_scope :: scope
  us_name :: string
  us_flags :: user_flags

type_synonym channel_map = "(channel_id, channel) fmap"
type_synonym user_map = "(session_id, user) fmap"

subsection \<open>Views and overlays\<close>

record shard_view =
  sv_channels :: channel_map
  sv_users :: user_map

definition empty_view :: shard_view where
  "empty_view = \<lparr>sv_channels = fmempty, sv_users = fmempty\<rparr>"

definition restrict :: "shard_view \<Rightarrow> scope_set \<Rightarrow> shard_view" where
  "restrict v see =
     \<lparr>sv_channels = fm_retain (\<lambda>_ c. sees see (ch_scope c)) (sv_channels v),
      sv_users = fm_retain (\<lambda>_ u. sees see (us_scope u)) (sv_users v)\<rparr>"

record overlay =
  ov_channels :: channel_map
  ov_users :: user_map

definition empty_overlay :: overlay where
  "empty_overlay = \<lparr>ov_channels = fmempty, ov_users = fmempty\<rparr>"

definition overlay_is_empty :: "overlay \<Rightarrow> bool" where
  "overlay_is_empty ov = (items (ov_channels ov) = [] \<and> items (ov_users ov) = [])"

definition compose :: "shard_view \<Rightarrow> overlay \<Rightarrow> shard_view" where
  "compose v ov =
     \<lparr>sv_channels = sv_channels v ++\<^sub>f ov_channels ov,
      sv_users = sv_users v ++\<^sub>f ov_users ov\<rparr>"

subsection \<open>Context actions\<close>

type_synonym on_places = u32

definition ON_SERVER :: on_places where "ON_SERVER = 0x01"
definition ON_CHANNEL :: on_places where "ON_CHANNEL = 0x02"
definition ON_USER :: on_places where "ON_USER = 0x04"

definition on_and :: "on_places \<Rightarrow> on_places \<Rightarrow> on_places" where
  "on_and a b = a OR b"

definition covers :: "on_places \<Rightarrow> on_places \<Rightarrow> bool" where
  "covers a place = (a AND place = place)"

record action =
  ac_key :: action_key
  ac_text :: string
  ac_on :: on_places

type_synonym actions = "(action_key, action) fmap"

subsection \<open>Well-formed views\<close>

text \<open>
  Elements sit at their own id; the parent of a channel and the channel of a user are in the
  view, in a scope the element extends; the root is its own parent and every other channel is
  deeper than its parent, so that the parent relation is a tree.
\<close>

definition view_keyed :: "shard_view \<Rightarrow> bool" where
  "view_keyed v \<longleftrightarrow>
     (\<forall>id c. fmlookup (sv_channels v) id = Some c \<longrightarrow> ch_id c = id) \<and>
     (\<forall>s u. fmlookup (sv_users v) s = Some u \<longrightarrow> us_session u = s)"

definition view_closed :: "shard_view \<Rightarrow> bool" where
  "view_closed v \<longleftrightarrow>
     sc.refs_closed ch_parent ch_scope ch_scope (sv_channels v) (sv_channels v) \<and>
     sc.refs_closed us_channel us_scope ch_scope (sv_users v) (sv_channels v)"

definition ranked :: "(channel_id \<Rightarrow> nat) \<Rightarrow> channel_map \<Rightarrow> bool" where
  "ranked r m \<longleftrightarrow>
     (\<forall>id c. fmlookup m id = Some c \<longrightarrow>
        (if id = ROOT_ID then ch_parent c = ROOT_ID else r (ch_parent c) < r id))"

definition view_ok :: "shard_view \<Rightarrow> bool" where
  "view_ok v \<longleftrightarrow> view_keyed v \<and> view_closed v \<and> (\<exists>r. ranked r (sv_channels v))"

text \<open>Nothing is both shared and private.\<close>

definition apart :: "shard_view \<Rightarrow> overlay \<Rightarrow> bool" where
  "apart v ov \<longleftrightarrow> fmdom (sv_channels v) |\<inter>| fmdom (ov_channels ov) = {||} \<and>
     fmdom (sv_users v) |\<inter>| fmdom (ov_users ov) = {||}"

lemma restrict_lookup [view_simps]:
  "fmlookup (sv_channels (restrict v see)) i = (case fmlookup (sv_channels v) i of None \<Rightarrow> None
     | Some c \<Rightarrow> if sees see (ch_scope c) then Some c else None)"
  "fmlookup (sv_users (restrict v see)) s = (case fmlookup (sv_users v) s of None \<Rightarrow> None
     | Some u \<Rightarrow> if sees see (us_scope u) then Some u else None)"
  by (simp_all add: restrict_def)

lemma restrict_Some:
  "fmlookup (sv_channels (restrict v see)) i = Some c \<longleftrightarrow>
     fmlookup (sv_channels v) i = Some c \<and> sees see (ch_scope c)"
  "fmlookup (sv_users (restrict v see)) s = Some u \<longleftrightarrow>
     fmlookup (sv_users v) s = Some u \<and> sees see (us_scope u)"
  by (auto simp: restrict_lookup split: option.splits)

lemma compose_lookup [view_simps]:
  "fmlookup (sv_channels (compose v ov)) i = (case fmlookup (ov_channels ov) i of
     None \<Rightarrow> fmlookup (sv_channels v) i | Some c \<Rightarrow> Some c)"
  "fmlookup (sv_users (compose v ov)) s = (case fmlookup (ov_users ov) s of
     None \<Rightarrow> fmlookup (sv_users v) s | Some u \<Rightarrow> Some u)"
  by (simp_all add: compose_def)

lemma compose_empty [simp]: "compose v empty_overlay = v"
  by (cases v) (auto simp: compose_def empty_overlay_def intro: fmap_ext)

lemma restrict_items [iter_simps]:
  "items (sv_channels (restrict v see)) = filter (\<lambda>(_, c). sees see (ch_scope c)) (items (sv_channels v))"
  "items (sv_users (restrict v see)) = filter (\<lambda>(_, u). sees see (us_scope u)) (items (sv_users v))"
  by (simp_all add: restrict_def items_retain)

lemma view_okD:
  assumes "view_ok v"
  shows "fmlookup (sv_channels v) i = Some c \<Longrightarrow> ch_id c = i"
    and "fmlookup (sv_users v) s = Some u \<Longrightarrow> us_session u = s"
    and "fmlookup (sv_channels v) i = Some c \<Longrightarrow>
           \<exists>p. fmlookup (sv_channels v) (ch_parent c) = Some p \<and> is_prefix_of (ch_scope p) (ch_scope c)"
    and "fmlookup (sv_users v) s = Some u \<Longrightarrow>
           \<exists>p. fmlookup (sv_channels v) (us_channel u) = Some p \<and> is_prefix_of (ch_scope p) (us_scope u)"
  using assms by (auto simp: view_ok_def view_keyed_def view_closed_def sc.refs_closed_def)

lemma view_ok_rank: "view_ok v \<Longrightarrow> \<exists>r. ranked r (sv_channels v)"
  by (simp add: view_ok_def)

lemma view_ok_empty [simp]: "view_ok empty_view"
  by (simp add: view_ok_def view_keyed_def view_closed_def sc.refs_closed_def ranked_def empty_view_def)

lemma ranked_parent: "ranked r m \<Longrightarrow> fmlookup m i = Some c \<Longrightarrow> i \<noteq> ROOT_ID \<Longrightarrow> r (ch_parent c) < r i"
  by (auto simp: ranked_def)

lemma ranked_root: "ranked r m \<Longrightarrow> fmlookup m ROOT_ID = Some c \<Longrightarrow> ch_parent c = ROOT_ID"
  by (simp add: ranked_def)

lemma ranked_retain: "ranked r m \<Longrightarrow> ranked r (fm_retain P m)"
  by (auto simp: ranked_def split: option.splits if_splits)

text \<open>The closure theorem: what an observer sees of a well-formed view is well formed.\<close>

lemma view_ok_restrict:
  assumes "view_ok v"
  shows "view_ok (restrict v see)"
proof -
  have "view_keyed (restrict v see)"
    using view_okD(1,2) [OF assms]
    by (auto simp: view_keyed_def view_simps split: option.splits if_splits)
  moreover have "view_closed (restrict v see)"
    using assms unfolding view_ok_def view_closed_def restrict_def
    by (auto intro: sc.refs_closed_retain)
  moreover have "\<exists>r. ranked r (sv_channels (restrict v see))"
    using view_ok_rank [OF assms] ranked_retain by (fastforce simp: restrict_def)
  ultimately show ?thesis by (simp add: view_ok_def)
qed

text \<open>Every non-empty well-formed view holds the root: a chain of parents ends only there.\<close>

lemma ranked_reaches_root:
  assumes "ranked r m" and "\<And>j c. fmlookup m j = Some c \<Longrightarrow> ch_parent c |\<in>| fmdom m"
    and "i |\<in>| fmdom m"
  shows "ROOT_ID |\<in>| fmdom m"
  using assms(3)
proof (induction "r i" arbitrary: i rule: less_induct)
  case less
  then obtain c where c: "fmlookup m i = Some c" by (auto simp: fmlookup_dom_iff)
  show ?case
  proof (cases "i = ROOT_ID")
    case True
    then show ?thesis using less.prems by simp
  next
    case False
    then have "r (ch_parent c) < r i" using assms(1) c by (auto simp: ranked_def)
    then show ?thesis using less.hyps assms(2) c by blast
  qed
qed

lemma view_ok_root:
  assumes "view_ok v" and "i |\<in>| fmdom (sv_channels v)"
  shows "ROOT_ID |\<in>| fmdom (sv_channels v)"
proof -
  obtain r where r: "ranked r (sv_channels v)" using view_ok_rank [OF assms(1)] ..
  have "ch_parent c |\<in>| fmdom (sv_channels v)" if "fmlookup (sv_channels v) j = Some c" for j c
    using view_okD(3) [OF assms(1) that] by (auto simp: fmlookup_dom_iff)
  then show ?thesis using ranked_reaches_root [OF r _ assms(2)] by blast
qed

end
