(* ===== verification/Plan.thy ===== *)
theory Plan
  imports View "HOL-Library.Multiset"
begin

text \<open>
  The planner, \<open>runtime/crates/shard/src/plan.rs\<close>: the diff of two views, keyed by element and
  scope, as an ordered sequence of view mutations, and the same diff for a private overlay. The
  loops that fill the phase vectors are folds over an accumulator record; the lemmas give each
  vector as one pass over the iterated map, the parent-first order of the creations and the
  child-first order of the removals.
\<close>

subsection \<open>Operations\<close>

record channel_patch =
  cp_id :: channel_id
  cp_parent :: "channel_id option"
  cp_name :: "string option"
  cp_position :: "i32 option"
  cp_can_enter :: "bool option"
  cp_links_added :: "channel_id fset"
  cp_links_removed :: "channel_id fset"

definition empty_patch :: "channel_id \<Rightarrow> channel_patch" where
  "empty_patch i = \<lparr>cp_id = i, cp_parent = None, cp_name = None, cp_position = None,
     cp_can_enter = None, cp_links_added = {||}, cp_links_removed = {||}\<rparr>"

definition channel_patch_is_noop :: "channel_patch \<Rightarrow> bool" where
  "channel_patch_is_noop p =
     (cp_parent p = None \<and> cp_name p = None \<and> cp_position p = None \<and> cp_can_enter p = None \<and>
      cp_links_added p = {||} \<and> cp_links_removed p = {||})"

record user_patch =
  up_session :: session_id
  up_name :: "string option"
  up_flags :: "user_flags option"

definition user_patch_is_noop :: "user_patch \<Rightarrow> bool" where
  "user_patch_is_noop p = (up_name p = None \<and> up_flags p = None)"

datatype plan_op =
    CreateChannel channel
  | UpdateChannel channel_patch
  | AddUser user
  | MoveUser session_id channel_id
  | UpdateUser user_patch
  | RemoveUser session_id
  | RemoveChannel channel_id

datatype element_id = ChannelEl channel_id | UserEl session_id

fun added :: "plan_op \<Rightarrow> element_id option" where
  "added (CreateChannel c) = Some (ChannelEl (ch_id c))"
| "added (AddUser u) = Some (UserEl (us_session u))"
| "added _ = None"

fun removed :: "plan_op \<Rightarrow> element_id option" where
  "removed (RemoveChannel c) = Some (ChannelEl c)"
| "removed (RemoveUser s) = Some (UserEl s)"
| "removed _ = None"

fun is_removal :: "plan_op \<Rightarrow> bool" where
  "is_removal (RemoveUser _) = True"
| "is_removal (RemoveChannel _) = True"
| "is_removal _ = False"

record planned_op =
  po_op :: plan_op
  po_scope :: scope

definition planned :: "plan_op \<Rightarrow> scope \<Rightarrow> planned_op" where
  "planned op s = \<lparr>po_op = op, po_scope = s\<rparr>"

subsection \<open>Patches\<close>

definition channel_patch_of :: "channel \<Rightarrow> channel \<Rightarrow> channel_patch" where
  "channel_patch_of old new =
     (let p = empty_patch (ch_id new);
          p = (if ch_parent old \<noteq> ch_parent new then p\<lparr>cp_parent := Some (ch_parent new)\<rparr> else p);
          p = (if ch_name old \<noteq> ch_name new then p\<lparr>cp_name := Some (ch_name new)\<rparr> else p);
          p = (if ch_position old \<noteq> ch_position new then p\<lparr>cp_position := Some (ch_position new)\<rparr> else p);
          p = (if ch_can_enter old \<noteq> ch_can_enter new then p\<lparr>cp_can_enter := Some (ch_can_enter new)\<rparr> else p);
          p = p\<lparr>cp_links_added := ch_links new |-| ch_links old\<rparr>
      in p\<lparr>cp_links_removed := ch_links old |-| ch_links new\<rparr>)"

definition user_patch_of :: "user \<Rightarrow> user \<Rightarrow> user_patch" where
  "user_patch_of old new =
     \<lparr>up_session = us_session new,
      up_name = (if us_name old \<noteq> us_name new then Some (us_name new) else None),
      up_flags = (if us_flags old \<noteq> us_flags new then Some (us_flags new) else None)\<rparr>"

subsection \<open>Ordering\<close>

text \<open>One pass of the creation loop: the channels present, those it orders, those it leaves waiting.\<close>

fun creation_pass ::
    "channel_id fset \<Rightarrow> channel list \<Rightarrow> channel_id fset \<times> channel list \<times> channel list" where
  "creation_pass present [] = (present, [], [])"
| "creation_pass present (c # cs) =
     (if ch_parent c = ch_id c \<or> ch_parent c |\<in>| present
      then let (p, ordered, waiting) = creation_pass (finsert (ch_id c) present) cs in (p, c # ordered, waiting)
      else let (p, ordered, waiting) = creation_pass present cs in (p, ordered, c # waiting))"

lemma creation_pass_length:
  "creation_pass present cs = (p, ordered, waiting) \<Longrightarrow> length ordered + length waiting = length cs"
  by (induction cs arbitrary: present p ordered waiting) (auto split: if_splits prod.splits)

function order_loop :: "channel_id fset \<Rightarrow> channel list \<Rightarrow> channel list" where
  "order_loop present remaining =
     (if remaining = [] then []
      else case creation_pass present remaining of (p, ordered, waiting) \<Rightarrow>
        if ordered = [] then waiting else ordered @ order_loop p waiting)"
  by pat_completeness auto
termination
  by (relation "measure (length \<circ> snd)") (auto dest!: creation_pass_length [OF sym] simp flip: length_greater_0_conv)

declare order_loop.simps [simp del]

definition order_creations :: "channel list \<Rightarrow> shard_view \<Rightarrow> channel list" where
  "order_creations created before = order_loop (fmdom (sv_channels before)) created"

text \<open>The walk to the root, with the set of visited channels as its guard.\<close>

function depth_loop :: "channel_map \<Rightarrow> channel_id \<Rightarrow> channel_id fset \<Rightarrow> u32 \<Rightarrow> u32" where
  "depth_loop m current guard d =
     (if current \<noteq> ROOT_ID \<and> current |\<notin>| guard
      then case fmlookup m current of
             Some entry \<Rightarrow> depth_loop m (ch_parent entry) (finsert current guard) (saturating_add d 1)
           | None \<Rightarrow> d
      else d)"
  by pat_completeness auto
termination
  by (relation "measure (\<lambda>(m, _, guard, _). fcard (fmdom m |-| guard))")
    (simp, simp only: in_measure case_prod_conv, blast intro: guard_shrinks)

declare depth_loop.simps [simp del]

definition depth_in :: "shard_view \<Rightarrow> channel_id \<Rightarrow> u32" where
  "depth_in v i = depth_loop (sv_channels v) i {||} 0"

function overlay_depth_loop :: "channel_map \<Rightarrow> channel_id \<Rightarrow> channel_id fset \<Rightarrow> u32 \<Rightarrow> u32" where
  "overlay_depth_loop m current guard d =
     (if current |\<notin>| guard
      then case fmlookup m current of
             Some entry \<Rightarrow>
               if ch_parent entry \<noteq> current
               then overlay_depth_loop m (ch_parent entry) (finsert current guard) (saturating_add d 1)
               else d
           | None \<Rightarrow> d
      else d)"
  by pat_completeness auto
termination
  by (relation "measure (\<lambda>(m, _, guard, _). fcard (fmdom m |-| guard))")
    (simp, simp only: in_measure case_prod_conv, blast intro: guard_shrinks)

declare overlay_depth_loop.simps [simp del]

definition overlay_depth :: "channel_map \<Rightarrow> channel_id \<Rightarrow> u32" where
  "overlay_depth m i = overlay_depth_loop m i {||} 0"

text \<open>\<open>sort_by\<close> on decreasing depth, then increasing id.\<close>

definition order_removals :: "(channel_id \<times> scope) list \<Rightarrow> shard_view \<Rightarrow> (channel_id \<times> scope) list" where
  "order_removals gone before = sort_key (\<lambda>(i, _). (- uint (depth_in before i), i)) gone"

subsection \<open>The shared plan\<close>

record plan_acc =
  pa_creates :: "channel list"
  pa_updates :: "planned_op list"
  pa_adds :: "planned_op list"
  pa_moves :: "planned_op list"
  pa_user_updates :: "planned_op list"
  pa_user_removals :: "planned_op list"
  pa_channel_removals :: "(channel_id \<times> scope) list"

definition empty_acc :: plan_acc where
  "empty_acc = \<lparr>pa_creates = [], pa_updates = [], pa_adds = [], pa_moves = [],
     pa_user_updates = [], pa_user_removals = [], pa_channel_removals = []\<rparr>"

text \<open>The bodies of the four loops, in the order the planner runs them.\<close>

definition plan_channel :: "shard_view \<Rightarrow> channel_id \<times> channel \<Rightarrow> plan_acc \<Rightarrow> plan_acc" where
  "plan_channel before e acc = (case e of (i, new) \<Rightarrow>
     (case fmlookup (sv_channels before) i of
        Some old \<Rightarrow>
          if ch_scope old = ch_scope new then
            let patch = channel_patch_of old new in
            if \<not> channel_patch_is_noop patch
            then acc\<lparr>pa_updates := pa_updates acc @ [planned (UpdateChannel patch) (ch_scope new)]\<rparr>
            else acc
          else acc\<lparr>pa_creates := pa_creates acc @ [new],
                   pa_channel_removals := pa_channel_removals acc @ [(i, ch_scope old)]\<rparr>
      | None \<Rightarrow> acc\<lparr>pa_creates := pa_creates acc @ [new]\<rparr>))"

definition plan_channel_gone :: "shard_view \<Rightarrow> channel_id \<times> channel \<Rightarrow> plan_acc \<Rightarrow> plan_acc" where
  "plan_channel_gone after e acc = (case e of (i, old) \<Rightarrow>
     if \<not> fm_has (sv_channels after) i
     then acc\<lparr>pa_channel_removals := pa_channel_removals acc @ [(i, ch_scope old)]\<rparr>
     else acc)"

definition plan_user :: "shard_view \<Rightarrow> session_id \<times> user \<Rightarrow> plan_acc \<Rightarrow> plan_acc" where
  "plan_user before e acc = (case e of (s, new) \<Rightarrow>
     (case fmlookup (sv_users before) s of
        Some old \<Rightarrow>
          if us_scope old = us_scope new then
            let acc = (if us_channel old \<noteq> us_channel new
                       then acc\<lparr>pa_moves := pa_moves acc @ [planned (MoveUser s (us_channel new)) (us_scope new)]\<rparr>
                       else acc);
                patch = user_patch_of old new in
            if \<not> user_patch_is_noop patch
            then acc\<lparr>pa_user_updates := pa_user_updates acc @ [planned (UpdateUser patch) (us_scope new)]\<rparr>
            else acc
          else acc\<lparr>pa_adds := pa_adds acc @ [planned (AddUser new) (us_scope new)],
                   pa_user_removals := pa_user_removals acc @ [planned (RemoveUser s) (us_scope old)]\<rparr>
      | None \<Rightarrow> acc\<lparr>pa_adds := pa_adds acc @ [planned (AddUser new) (us_scope new)]\<rparr>))"

definition plan_user_gone :: "shard_view \<Rightarrow> session_id \<times> user \<Rightarrow> plan_acc \<Rightarrow> plan_acc" where
  "plan_user_gone after e acc = (case e of (s, old) \<Rightarrow>
     if \<not> fm_has (sv_users after) s
     then acc\<lparr>pa_user_removals := pa_user_removals acc @ [planned (RemoveUser s) (us_scope old)]\<rparr>
     else acc)"

definition plan :: "shard_view \<Rightarrow> shard_view \<Rightarrow> planned_op list" where
  "plan before after =
     (let acc = fold (plan_channel before) (items (sv_channels after)) empty_acc;
          acc = fold (plan_channel_gone after) (items (sv_channels before)) acc;
          acc = fold (plan_user before) (items (sv_users after)) acc;
          acc = fold (plan_user_gone after) (items (sv_users before)) acc
      in map (\<lambda>c. planned (CreateChannel c) (ch_scope c)) (order_creations (pa_creates acc) before)
         @ pa_updates acc @ pa_adds acc @ pa_moves acc @ pa_user_updates acc @ pa_user_removals acc
         @ map (\<lambda>(i, s). planned (RemoveChannel i) s) (order_removals (pa_channel_removals acc) before))"

subsection \<open>The overlay plan\<close>

record overlay_ops =
  oo_additions :: "plan_op list"
  oo_removals :: "plan_op list"

definition overlay_ops_is_empty :: "overlay_ops \<Rightarrow> bool" where
  "overlay_ops_is_empty ops = (oo_additions ops = [] \<and> oo_removals ops = [])"

record elem_acc =
  ea_creates :: "channel list"
  ea_additions :: "plan_op list"
  ea_trailing :: "plan_op list"

definition elem_channel :: "overlay \<Rightarrow> channel_id \<times> channel \<Rightarrow> elem_acc \<Rightarrow> elem_acc" where
  "elem_channel before e acc = (case e of (i, new) \<Rightarrow>
     (case fmlookup (ov_channels before) i of
        Some old \<Rightarrow>
          let patch = channel_patch_of old new in
          if \<not> channel_patch_is_noop patch
          then acc\<lparr>ea_additions := ea_additions acc @ [UpdateChannel patch]\<rparr>
          else acc
      | None \<Rightarrow> acc\<lparr>ea_creates := ea_creates acc @ [new]\<rparr>))"

definition elem_user :: "overlay \<Rightarrow> session_id \<times> user \<Rightarrow> elem_acc \<Rightarrow> elem_acc" where
  "elem_user before e acc = (case e of (s, new) \<Rightarrow>
     (case fmlookup (ov_users before) s of
        Some old \<Rightarrow>
          let acc = (if us_channel old \<noteq> us_channel new
                     then acc\<lparr>ea_trailing := ea_trailing acc @ [MoveUser s (us_channel new)]\<rparr>
                     else acc);
              patch = user_patch_of old new in
          if \<not> user_patch_is_noop patch
          then acc\<lparr>ea_trailing := ea_trailing acc @ [UpdateUser patch]\<rparr>
          else acc
      | None \<Rightarrow> acc\<lparr>ea_trailing := ea_trailing acc @ [AddUser new]\<rparr>))"

definition plan_elements :: "overlay \<Rightarrow> overlay \<Rightarrow> overlay_ops" where
  "plan_elements before after =
     (let acc = fold (elem_channel before) (items (ov_channels after))
                  \<lparr>ea_creates = [], ea_additions = [], ea_trailing = []\<rparr>;
          channel_removals = filter (\<lambda>i. \<not> fm_has (ov_channels after) i) (fkeys (ov_channels before));
          acc = fold (elem_user before) (items (ov_users after)) acc;
          removals = map RemoveUser (filter (\<lambda>s. \<not> fm_has (ov_users after) s) (fkeys (ov_users before)));
          ordered_additions = map CreateChannel (order_creations (ea_creates acc) empty_view);
          with_depth = map (\<lambda>i. (i, overlay_depth (ov_channels before) i)) channel_removals;
          with_depth = sort_key (\<lambda>(i, d). (- uint d, i)) with_depth
      in \<lparr>oo_additions = ordered_additions @ ea_additions acc @ ea_trailing acc,
          oo_removals = removals @ map (RemoveChannel \<circ> fst) with_depth\<rparr>)"

subsection \<open>The phase vectors\<close>

text \<open>What each loop contributes to each vector, and the vectors as passes over the iterated map.\<close>

definition chan_create :: "shard_view \<Rightarrow> channel_id \<times> channel \<Rightarrow> channel option" where
  "chan_create b e = (case fmlookup (sv_channels b) (fst e) of
     Some old \<Rightarrow> if ch_scope old = ch_scope (snd e) then None else Some (snd e)
   | None \<Rightarrow> Some (snd e))"

definition chan_update :: "shard_view \<Rightarrow> channel_id \<times> channel \<Rightarrow> planned_op option" where
  "chan_update b e = (case fmlookup (sv_channels b) (fst e) of
     Some old \<Rightarrow>
       if ch_scope old = ch_scope (snd e) \<and> \<not> channel_patch_is_noop (channel_patch_of old (snd e))
       then Some (planned (UpdateChannel (channel_patch_of old (snd e))) (ch_scope (snd e))) else None
   | None \<Rightarrow> None)"

definition chan_rescoped :: "shard_view \<Rightarrow> channel_id \<times> channel \<Rightarrow> (channel_id \<times> scope) option" where
  "chan_rescoped b e = (case fmlookup (sv_channels b) (fst e) of
     Some old \<Rightarrow> if ch_scope old = ch_scope (snd e) then None else Some (fst e, ch_scope old)
   | None \<Rightarrow> None)"

definition chan_gone :: "shard_view \<Rightarrow> channel_id \<times> channel \<Rightarrow> (channel_id \<times> scope) option" where
  "chan_gone a e = (if fm_has (sv_channels a) (fst e) then None else Some (fst e, ch_scope (snd e)))"

definition user_add :: "shard_view \<Rightarrow> session_id \<times> user \<Rightarrow> planned_op option" where
  "user_add b e = (case fmlookup (sv_users b) (fst e) of
     Some old \<Rightarrow> if us_scope old = us_scope (snd e) then None else Some (planned (AddUser (snd e)) (us_scope (snd e)))
   | None \<Rightarrow> Some (planned (AddUser (snd e)) (us_scope (snd e))))"

definition user_move :: "shard_view \<Rightarrow> session_id \<times> user \<Rightarrow> planned_op option" where
  "user_move b e = (case fmlookup (sv_users b) (fst e) of
     Some old \<Rightarrow>
       if us_scope old = us_scope (snd e) \<and> us_channel old \<noteq> us_channel (snd e)
       then Some (planned (MoveUser (fst e) (us_channel (snd e))) (us_scope (snd e))) else None
   | None \<Rightarrow> None)"

definition user_update :: "shard_view \<Rightarrow> session_id \<times> user \<Rightarrow> planned_op option" where
  "user_update b e = (case fmlookup (sv_users b) (fst e) of
     Some old \<Rightarrow>
       if us_scope old = us_scope (snd e) \<and> \<not> user_patch_is_noop (user_patch_of old (snd e))
       then Some (planned (UpdateUser (user_patch_of old (snd e))) (us_scope (snd e))) else None
   | None \<Rightarrow> None)"

definition user_rescoped :: "shard_view \<Rightarrow> session_id \<times> user \<Rightarrow> planned_op option" where
  "user_rescoped b e = (case fmlookup (sv_users b) (fst e) of
     Some old \<Rightarrow> if us_scope old = us_scope (snd e) then None else Some (planned (RemoveUser (fst e)) (us_scope old))
   | None \<Rightarrow> None)"

definition user_gone :: "shard_view \<Rightarrow> session_id \<times> user \<Rightarrow> planned_op option" where
  "user_gone a e = (if fm_has (sv_users a) (fst e) then None else Some (planned (RemoveUser (fst e)) (us_scope (snd e))))"

lemma plan_step_iffs:
  "chan_create b (i, new) = Some c \<longleftrightarrow>
     c = new \<and> (\<forall>old. fmlookup (sv_channels b) i = Some old \<longrightarrow> ch_scope old \<noteq> ch_scope new)"
  "chan_update b (i, new) = Some p \<longleftrightarrow>
     (\<exists>old. fmlookup (sv_channels b) i = Some old \<and> ch_scope old = ch_scope new \<and>
        \<not> channel_patch_is_noop (channel_patch_of old new) \<and>
        p = planned (UpdateChannel (channel_patch_of old new)) (ch_scope new))"
  "chan_rescoped b (i, new) = Some q \<longleftrightarrow>
     (\<exists>old. fmlookup (sv_channels b) i = Some old \<and> ch_scope old \<noteq> ch_scope new \<and> q = (i, ch_scope old))"
  "chan_gone a (i, old) = Some q \<longleftrightarrow> fmlookup (sv_channels a) i = None \<and> q = (i, ch_scope old)"
  "user_add b (s, newu) = Some p \<longleftrightarrow>
     p = planned (AddUser newu) (us_scope newu) \<and>
     (\<forall>old. fmlookup (sv_users b) s = Some old \<longrightarrow> us_scope old \<noteq> us_scope newu)"
  "user_move b (s, newu) = Some p \<longleftrightarrow>
     (\<exists>old. fmlookup (sv_users b) s = Some old \<and> us_scope old = us_scope newu \<and>
        us_channel old \<noteq> us_channel newu \<and> p = planned (MoveUser s (us_channel newu)) (us_scope newu))"
  "user_update b (s, newu) = Some p \<longleftrightarrow>
     (\<exists>old. fmlookup (sv_users b) s = Some old \<and> us_scope old = us_scope newu \<and>
        \<not> user_patch_is_noop (user_patch_of old newu) \<and>
        p = planned (UpdateUser (user_patch_of old newu)) (us_scope newu))"
  "user_rescoped b (s, newu) = Some p \<longleftrightarrow>
     (\<exists>old. fmlookup (sv_users b) s = Some old \<and> us_scope old \<noteq> us_scope newu \<and>
        p = planned (RemoveUser s) (us_scope old))"
  "user_gone a (s, oldu) = Some p \<longleftrightarrow>
     fmlookup (sv_users a) s = None \<and> p = planned (RemoveUser s) (us_scope oldu)"
  by (auto simp: chan_create_def chan_update_def chan_rescoped_def chan_gone_def user_add_def
      user_move_def user_update_def user_rescoped_def user_gone_def fmlookup_dom_iff split: option.splits)

abbreviation creates_of :: "shard_view \<Rightarrow> shard_view \<Rightarrow> channel list" where
  "creates_of b a \<equiv> filter_map (chan_create b) (items (sv_channels a))"

definition withdrawn_channels :: "shard_view \<Rightarrow> shard_view \<Rightarrow> (channel_id \<times> scope) list" where
  "withdrawn_channels b a =
     filter_map (chan_rescoped b) (items (sv_channels a)) @ filter_map (chan_gone a) (items (sv_channels b))"

definition withdrawn_users :: "shard_view \<Rightarrow> shard_view \<Rightarrow> planned_op list" where
  "withdrawn_users b a =
     filter_map (user_rescoped b) (items (sv_users a)) @ filter_map (user_gone a) (items (sv_users b))"

lemma plan_channel_step:
  "plan_channel b e acc = acc\<lparr>
     pa_creates := pa_creates acc @ filter_map (chan_create b) [e],
     pa_updates := pa_updates acc @ filter_map (chan_update b) [e],
     pa_channel_removals := pa_channel_removals acc @ filter_map (chan_rescoped b) [e]\<rparr>"
  by (cases e; cases "fmlookup (sv_channels b) (fst e)")
    (simp_all add: plan_channel_def chan_create_def chan_update_def chan_rescoped_def Let_def)

lemma plan_channel_gone_step:
  "plan_channel_gone a e acc = acc\<lparr>
     pa_channel_removals := pa_channel_removals acc @ filter_map (chan_gone a) [e]\<rparr>"
  by (cases e) (simp add: plan_channel_gone_def chan_gone_def)

lemma plan_user_step:
  "plan_user b e acc = acc\<lparr>
     pa_adds := pa_adds acc @ filter_map (user_add b) [e],
     pa_moves := pa_moves acc @ filter_map (user_move b) [e],
     pa_user_updates := pa_user_updates acc @ filter_map (user_update b) [e],
     pa_user_removals := pa_user_removals acc @ filter_map (user_rescoped b) [e]\<rparr>"
  by (cases e; cases "fmlookup (sv_users b) (fst e)")
    (simp_all add: plan_user_def user_add_def user_move_def user_update_def user_rescoped_def Let_def)

lemma plan_user_gone_step:
  "plan_user_gone a e acc = acc\<lparr>
     pa_user_removals := pa_user_removals acc @ filter_map (user_gone a) [e]\<rparr>"
  by (cases e) (simp add: plan_user_gone_def user_gone_def)

lemma fold_plan_channel:
  "fold (plan_channel b) es acc = acc\<lparr>
     pa_creates := pa_creates acc @ filter_map (chan_create b) es,
     pa_updates := pa_updates acc @ filter_map (chan_update b) es,
     pa_channel_removals := pa_channel_removals acc @ filter_map (chan_rescoped b) es\<rparr>"
  by (induction es arbitrary: acc) (simp_all add: plan_channel_step filter_map_Cons_append del: filter_map_simps(2))

lemma fold_plan_channel_gone:
  "fold (plan_channel_gone a) es acc = acc\<lparr>
     pa_channel_removals := pa_channel_removals acc @ filter_map (chan_gone a) es\<rparr>"
  by (induction es arbitrary: acc) (simp_all add: plan_channel_gone_step filter_map_Cons_append del: filter_map_simps(2))

lemma fold_plan_user:
  "fold (plan_user b) es acc = acc\<lparr>
     pa_adds := pa_adds acc @ filter_map (user_add b) es,
     pa_moves := pa_moves acc @ filter_map (user_move b) es,
     pa_user_updates := pa_user_updates acc @ filter_map (user_update b) es,
     pa_user_removals := pa_user_removals acc @ filter_map (user_rescoped b) es\<rparr>"
  by (induction es arbitrary: acc) (simp_all add: plan_user_step filter_map_Cons_append del: filter_map_simps(2))

lemma fold_plan_user_gone:
  "fold (plan_user_gone a) es acc = acc\<lparr>
     pa_user_removals := pa_user_removals acc @ filter_map (user_gone a) es\<rparr>"
  by (induction es arbitrary: acc) (simp_all add: plan_user_gone_step filter_map_Cons_append del: filter_map_simps(2))

lemma plan_phases:
  "plan b a =
     map (\<lambda>c. planned (CreateChannel c) (ch_scope c)) (order_creations (creates_of b a) b)
     @ filter_map (chan_update b) (items (sv_channels a))
     @ filter_map (user_add b) (items (sv_users a))
     @ filter_map (user_move b) (items (sv_users a))
     @ filter_map (user_update b) (items (sv_users a))
     @ withdrawn_users b a
     @ map (\<lambda>(i, s). planned (RemoveChannel i) s) (order_removals (withdrawn_channels b a) b)"
  by (simp add: plan_def fold_plan_channel fold_plan_channel_gone fold_plan_user fold_plan_user_gone
      empty_acc_def withdrawn_users_def withdrawn_channels_def)

end
