(* ===== verification/Plan_Order.thy ===== *)
theory Plan_Order
  imports Plan
begin

text \<open>
  The two orders of the planner (\<open>order_creations\<close>, \<open>order_removals\<close>, \<open>depth_in\<close> and
  \<open>overlay_depth\<close> of \<open>runtime/crates/shard/src/plan.rs\<close>): parents are created before their
  children, children are withdrawn before their parents, and both orders commute with keeping
  the visible part of the plan only.
\<close>

subsection \<open>Creations\<close>

fun parents_first :: "channel_id fset \<Rightarrow> channel list \<Rightarrow> bool" where
  "parents_first known [] = True"
| "parents_first known (c # cs) =
     ((ch_parent c = ch_id c \<or> ch_parent c |\<in>| known) \<and> parents_first (finsert (ch_id c) known) cs)"

lemma parents_first_append:
  "parents_first known (xs @ ys) \<longleftrightarrow>
     parents_first known xs \<and> parents_first (known |\<union>| fset_of_list (map ch_id xs)) ys"
  by (induction xs arbitrary: known) (auto simp: funion_finsert_left)

lemma parents_first_mono: "parents_first known cs \<Longrightarrow> known |\<subseteq>| known' \<Longrightarrow> parents_first known' cs"
proof (induction cs arbitrary: known known')
  case (Cons c cs)
  have "parents_first (finsert (ch_id c) known') cs"
    using Cons.prems by (auto intro!: Cons.IH [of "finsert (ch_id c) known" "finsert (ch_id c) known'"])
  then show ?case using Cons.prems by auto
qed simp

lemma creation_pass_spec:
  "creation_pass present cs = (p, ordered, waiting) \<Longrightarrow>
     p = present |\<union>| fset_of_list (map ch_id ordered) \<and> parents_first present ordered \<and>
     mset cs = mset ordered + mset waiting \<and>
     (\<forall>c \<in> set waiting. ch_parent c \<noteq> ch_id c \<and> ch_parent c |\<notin>| present)"
proof (induction cs arbitrary: present p ordered waiting)
  case (Cons c cs)
  show ?case
  proof (cases "ch_parent c = ch_id c \<or> ch_parent c |\<in>| present")
    case True
    obtain o' where o': "creation_pass (finsert (ch_id c) present) cs = (p, o', waiting)" "ordered = c # o'"
      using Cons.prems True by (auto split: prod.splits)
    show ?thesis using Cons.IH [OF o'(1)] True o'(2) by auto
  next
    case False
    obtain w' where w': "creation_pass present cs = (p, ordered, w')" "waiting = c # w'"
      using Cons.prems False by (auto split: prod.splits)
    show ?thesis using Cons.IH [OF w'(1)] False w'(2) by auto
  qed
qed simp

lemma creation_pass_none: "creation_pass present cs = (p, [], waiting) \<Longrightarrow> waiting = cs \<and> p = present"
  by (induction cs arbitrary: p waiting) (auto split: if_splits prod.splits)

lemma mset_order_loop: "mset (order_loop present cs) = mset cs"
proof (induction present cs rule: order_loop.induct)
  case (1 present remaining)
  obtain p ordered waiting where pass: "creation_pass present remaining = (p, ordered, waiting)"
    by (cases "creation_pass present remaining") auto
  have "mset remaining = mset ordered + mset waiting"
    using creation_pass_spec [OF pass] by simp
  then show ?case
    using "1.IH" [OF _ pass [symmetric] refl] by (auto simp: order_loop.simps [of present remaining] pass)
qed

text \<open>
  When every channel hangs from itself, from a present channel or from another channel of the
  list, and the list has no parent cycle, each pass makes progress and the result has parents
  first.
\<close>

lemma order_loop_parents_first:
  assumes "\<forall>c \<in> set cs. ch_parent c = ch_id c \<or> ch_parent c |\<in>| present \<or> ch_parent c \<in> ch_id ` set cs"
    and "\<forall>c \<in> set cs. ch_parent c \<noteq> ch_id c \<longrightarrow> r (ch_parent c) < (r (ch_id c) :: nat)"
  shows "parents_first present (order_loop present cs)"
  using assms
proof (induction present cs rule: order_loop.induct)
  case (1 present remaining)
  obtain p ordered waiting where pass: "creation_pass present remaining = (p, ordered, waiting)"
    by (cases "creation_pass present remaining") auto
  note spec = creation_pass_spec [OF pass]
  have sets: "set remaining = set ordered \<union> set waiting"
    using spec by (metis set_mset_mset set_mset_union)
  show ?case
  proof (cases "remaining = []")
    case False
    then obtain c where c: "c \<in> set remaining" "\<forall>d \<in> set remaining. r (ch_id c) \<le> r (ch_id d)"
      using ex_has_least_nat [of "\<lambda>c. c \<in> set remaining" "hd remaining" "\<lambda>c. r (ch_id c)"] by auto
    have "ch_parent c \<notin> ch_id ` set remaining \<or> ch_parent c = ch_id c"
      using c "1.prems"(2) by fastforce
    then have "c \<notin> set waiting" using spec "1.prems"(1) c(1) by blast
    then have progress: "ordered \<noteq> []" using c(1) sets by auto
    have "parents_first p (order_loop p waiting)"
    proof (rule "1.IH" [OF False pass [symmetric] refl progress])
      show "\<forall>c \<in> set waiting. ch_parent c = ch_id c \<or> ch_parent c |\<in>| p \<or> ch_parent c \<in> ch_id ` set waiting"
        using "1.prems"(1) spec sets by (auto simp: fset_of_list_elem)
      show "\<forall>c \<in> set waiting. ch_parent c \<noteq> ch_id c \<longrightarrow> r (ch_parent c) < r (ch_id c)"
        using "1.prems"(2) sets by blast
    qed
    then show ?thesis
      using False progress spec by (simp add: order_loop.simps [of present remaining] pass parents_first_append)
  qed (simp add: order_loop.simps)
qed

text \<open>Keeping the visible channels only commutes with ordering.\<close>

definition agrees :: "(channel \<Rightarrow> bool) \<Rightarrow> channel list \<Rightarrow> channel_id fset \<Rightarrow> channel_id fset \<Rightarrow> bool" where
  "agrees V cs p p' \<longleftrightarrow> (\<forall>c \<in> set cs. V c \<longrightarrow> (ch_parent c |\<in>| p \<longleftrightarrow> ch_parent c |\<in>| p'))"

definition upward :: "(channel \<Rightarrow> bool) \<Rightarrow> channel list \<Rightarrow> bool" where
  "upward V cs \<longleftrightarrow> (\<forall>c \<in> set cs. \<forall>d \<in> set cs. V c \<longrightarrow> ch_parent c = ch_id d \<longrightarrow> V d)"

lemma creation_pass_filter:
  assumes "creation_pass present cs = (p, ordered, waiting)"
    and "agrees V all present present'" and "upward V all" and "set cs \<subseteq> set all"
  shows "\<exists>p'. creation_pass present' (filter V cs) = (p', filter V ordered, filter V waiting) \<and> agrees V all p p'"
  using assms
proof (induction cs arbitrary: present present' p ordered waiting)
  case (Cons c cs)
  let ?take = "ch_parent c = ch_id c \<or> ch_parent c |\<in>| present"
  have vis: "V c \<Longrightarrow> (ch_parent c |\<in>| present \<longleftrightarrow> ch_parent c |\<in>| present')"
    using Cons.prems(2,4) by (auto simp: agrees_def)
  have grow: "agrees V all (finsert (ch_id c) present) (if V c then finsert (ch_id c) present' else present')"
    using Cons.prems(2-4) by (auto simp: agrees_def upward_def)
  show ?case
  proof (cases ?take)
    case True
    obtain o' where o': "creation_pass (finsert (ch_id c) present) cs = (p, o', waiting)" "ordered = c # o'"
      using Cons.prems(1) True by (auto split: prod.splits)
    from Cons.IH [OF o'(1) grow Cons.prems(3)] Cons.prems(4) show ?thesis
      using True vis o'(2) by (auto split: if_splits)
  next
    case False
    obtain w' where w': "creation_pass present cs = (p, ordered, w')" "waiting = c # w'"
      using Cons.prems(1) False by (auto split: prod.splits)
    from Cons.IH [OF w'(1) Cons.prems(2,3)] Cons.prems(4) show ?thesis
      using False vis w'(2) by auto
  qed
qed auto

lemma order_loop_filter:
  assumes "agrees V cs present present'" and "upward V cs"
  shows "filter V (order_loop present cs) = order_loop present' (filter V cs)"
  using assms
proof (induction present cs arbitrary: present' rule: order_loop.induct)
  case (1 present remaining)
  obtain p ordered waiting where pass: "creation_pass present remaining = (p, ordered, waiting)"
    by (cases "creation_pass present remaining") auto
  note spec = creation_pass_spec [OF pass]
  have sets: "set remaining = set ordered \<union> set waiting"
    using spec by (metis set_mset_mset set_mset_union)
  obtain p' where pass': "creation_pass present' (filter V remaining) = (p', filter V ordered, filter V waiting)"
    and agr: "agrees V remaining p p'"
    using creation_pass_filter [OF pass "1.prems" subset_refl] by blast
  show ?case
  proof (cases "remaining = [] \<or> ordered = []")
    case True
    then show ?thesis using pass pass'
      by (auto simp: order_loop.simps [of present remaining] order_loop.simps [of present' "filter V remaining"])
  next
    case False
    have "filter V (order_loop p waiting) = order_loop p' (filter V waiting)"
      using False agr "1.prems"(2) sets
      by (intro "1.IH" [OF _ pass [symmetric] refl]) (auto simp: agrees_def upward_def)
    then have lhs: "filter V (order_loop present remaining) = filter V ordered @ order_loop p' (filter V waiting)"
      using False using pass by (simp add: order_loop.simps [of present remaining])
    show ?thesis
    proof (cases "filter V ordered = []")
      case True
      then have "p' = present'" and same: "filter V waiting = filter V remaining"
        using creation_pass_spec [OF pass'] pass' True creation_pass_none [of present' "filter V remaining"] by auto
      then have "order_loop p' (filter V waiting) = filter V remaining"
        using pass' True by (simp add: order_loop.simps [of present' "filter V remaining"])
      then show ?thesis using lhs True pass' same by (simp add: order_loop.simps [of present' "filter V remaining"])
    next
      case False
      then show ?thesis using lhs pass' by (auto simp: order_loop.simps [of present' "filter V remaining"])
    qed
  qed
qed

subsection \<open>Depths\<close>

text \<open>\<open>climb stop m n i\<close>: following parents from \<open>i\<close>, the walk stops after exactly \<open>n\<close> steps.\<close>

fun climb :: "(channel_id \<Rightarrow> bool) \<Rightarrow> channel_map \<Rightarrow> nat \<Rightarrow> channel_id \<Rightarrow> bool" where
  "climb stop m 0 i = stop i"
| "climb stop m (Suc n) i =
     (\<not> stop i \<and> (case fmlookup m i of None \<Rightarrow> False | Some c \<Rightarrow> climb stop m n (ch_parent c)))"

definition at_root :: "channel_map \<Rightarrow> channel_id \<Rightarrow> bool" where
  "at_root m i = (i = ROOT_ID \<or> fmlookup m i = None)"

definition leaves_map :: "channel_map \<Rightarrow> channel_id \<Rightarrow> bool" where
  "leaves_map m i = (case fmlookup m i of None \<Rightarrow> True | Some c \<Rightarrow> ch_parent c = i)"

lemma climb_SucE:
  assumes "climb stop m (Suc n) i"
  obtains c where "fmlookup m i = Some c" and "climb stop m n (ch_parent c)" and "\<not> stop i"
  using assms by (auto split: option.splits)

lemma climb_SucI: "fmlookup m i = Some c \<Longrightarrow> climb stop m n (ch_parent c) \<Longrightarrow> \<not> stop i \<Longrightarrow> climb stop m (Suc n) i"
  by simp

lemma climb_unique: "climb stop m n i \<Longrightarrow> climb stop m k i \<Longrightarrow> n = k"
proof (induction n arbitrary: k i)
  case 0
  then show ?case by (cases k) auto
next
  case (Suc n)
  then show ?case by (cases k) (auto split: option.splits)
qed

lemma climb_exists:
  assumes "\<And>j. \<not> stop j \<Longrightarrow> \<exists>c. fmlookup m j = Some c \<and> r (ch_parent c) < (r j :: nat)"
  shows "\<exists>n. climb stop m n i"
proof (induction "r i" arbitrary: i rule: less_induct)
  case less
  show ?case
  proof (cases "stop i")
    case True
    then show ?thesis by (intro exI [of _ 0]) simp
  next
    case False
    then obtain c where c: "fmlookup m i = Some c" "r (ch_parent c) < r i" using assms by blast
    then obtain n where "climb stop m n (ch_parent c)" using less by blast
    then show ?thesis using False c by (intro exI [of _ "Suc n"]) simp
  qed
qed

lemma climb_visits: "climb stop m n i \<Longrightarrow> \<exists>f. \<forall>k \<le> n. climb stop m k (f k)"
proof (induction n arbitrary: i)
  case (Suc n)
  from Suc.prems obtain c where "fmlookup m i = Some c" and c: "climb stop m n (ch_parent c)" and "\<not> stop i"
    by (rule climb_SucE)
  from c obtain f where "\<forall>k \<le> n. climb stop m k (f k)" using Suc.IH by blast
  then show ?case using Suc.prems by (intro exI [of _ "f(Suc n := i)"]) (auto simp: le_Suc_eq)
qed auto

text \<open>A walk visits each id at most once, so it is shorter than the id space and never saturates.\<close>

lemma climb_bound:
  assumes "climb stop m n i"
  shows "n < 2 ^ 32"
proof -
  obtain f where f: "\<forall>k \<le> n. climb stop m k (f k)" using climb_visits [OF assms] by blast
  have "inj_on f {..n}"
    by (rule inj_onI) (metis f atMost_iff climb_unique)
  then have "card {..n} \<le> card (UNIV :: channel_id set)"
    by (intro card_inj_on_le) auto
  then show ?thesis by (simp add: card_word)
qed

lemma unat_steps:
  "unat (((\<lambda>d. saturating_add d 1) ^^ n) (d :: u32)) = min (unat d + n) (2 ^ 32 - 1)"
proof (induction n)
  case 0
  have "unat d < 2 ^ 32" using unsigned_less [of d] by simp
  then show ?case by simp
qed (auto simp: unat_saturating_add)

lemma steps_shift: "((\<lambda>d. saturating_add d (1 :: u32)) ^^ Suc n) d = ((\<lambda>d. saturating_add d 1) ^^ n) (saturating_add d 1)"
  by (simp add: funpow_Suc_right del: funpow.simps)

lemma depth_loop_climb:
  "climb (at_root m) m n i \<Longrightarrow> (\<And>g. g |\<in>| guard \<Longrightarrow> \<exists>k > n. climb (at_root m) m k g) \<Longrightarrow>
     depth_loop m i guard d = ((\<lambda>d. saturating_add d 1) ^^ n) d"
proof (induction n arbitrary: i guard d)
  case 0
  then show ?case by (auto simp: depth_loop.simps [of m i] at_root_def split: option.splits)
next
  case (Suc n)
  from Suc.prems(1) obtain c where c: "fmlookup m i = Some c" "climb (at_root m) m n (ch_parent c)"
    and "\<not> at_root m i" by (rule climb_SucE)
  then have root: "i \<noteq> ROOT_ID" by (simp add: at_root_def)
  have fresh: "i |\<notin>| guard" using Suc.prems climb_unique by (metis less_irrefl)
  have "\<exists>k > n. climb (at_root m) m k g" if "g |\<in>| finsert i guard" for g
  proof (cases "g = i")
    case True
    then show ?thesis using Suc.prems(1) by (intro exI [of _ "Suc n"]) simp
  next
    case False
    then show ?thesis using that Suc.prems(2) [of g] by (auto dest: Suc_lessD)
  qed
  from Suc.IH [OF c(2), of "finsert i guard" "saturating_add d 1", OF this] show ?case
    using c root fresh by (simp add: depth_loop.simps [of m i] steps_shift del: funpow.simps)
qed

lemma overlay_depth_loop_climb:
  "climb (leaves_map m) m n i \<Longrightarrow> (\<And>g. g |\<in>| guard \<Longrightarrow> \<exists>k > n. climb (leaves_map m) m k g) \<Longrightarrow>
     overlay_depth_loop m i guard d = ((\<lambda>d. saturating_add d 1) ^^ n) d"
proof (induction n arbitrary: i guard d)
  case 0
  then show ?case by (auto simp: overlay_depth_loop.simps [of m i] leaves_map_def split: option.splits)
next
  case (Suc n)
  from Suc.prems(1) obtain c where c: "fmlookup m i = Some c" "climb (leaves_map m) m n (ch_parent c)"
    and "\<not> leaves_map m i" by (rule climb_SucE)
  then have up: "ch_parent c \<noteq> i" by (simp add: leaves_map_def)
  have fresh: "i |\<notin>| guard" using Suc.prems climb_unique by (metis less_irrefl)
  have "\<exists>k > n. climb (leaves_map m) m k g" if "g |\<in>| finsert i guard" for g
  proof (cases "g = i")
    case True
    then show ?thesis using Suc.prems(1) by (intro exI [of _ "Suc n"]) simp
  next
    case False
    then show ?thesis using that Suc.prems(2) [of g] by (auto dest: Suc_lessD)
  qed
  from Suc.IH [OF c(2), of "finsert i guard" "saturating_add d 1", OF this] show ?case
    using c up fresh by (simp add: overlay_depth_loop.simps [of m i] steps_shift del: funpow.simps)
qed

lemma uint_depth_in: "climb (at_root (sv_channels v)) (sv_channels v) n i \<Longrightarrow> uint (depth_in v i) = int n"
  using climb_bound [of "at_root (sv_channels v)" "sv_channels v" n i] depth_loop_climb [of "sv_channels v" n i "{||}" 0]
  by (simp add: depth_in_def unat_steps uint_nat)

lemma uint_overlay_depth: "climb (leaves_map m) m n i \<Longrightarrow> uint (overlay_depth m i) = int n"
  using climb_bound [of "leaves_map m" m n i] overlay_depth_loop_climb [of m n i "{||}" 0]
  by (simp add: overlay_depth_def unat_steps uint_nat)

lemma climb_root_exists: "ranked r m \<Longrightarrow> \<exists>n. climb (at_root m) m n i"
  by (rule climb_exists [of _ _ r]) (auto simp: at_root_def ranked_def)

text \<open>A channel is deeper than its parent.\<close>

lemma depth_in_parent:
  assumes "ranked r (sv_channels v)" and "fmlookup (sv_channels v) i = Some c" and "i \<noteq> ROOT_ID"
  shows "uint (depth_in v (ch_parent c)) < uint (depth_in v i)"
proof -
  obtain n where n: "climb (at_root (sv_channels v)) (sv_channels v) n (ch_parent c)"
    using climb_root_exists [OF assms(1)] by blast
  then have "climb (at_root (sv_channels v)) (sv_channels v) (Suc n) i"
    using assms(2,3) n by (intro climb_SucI) (auto simp: at_root_def)
  then show ?thesis using uint_depth_in [OF n] uint_depth_in [of v "Suc n" i] by simp
qed

lemma overlay_depth_parent:
  assumes "\<And>j d. fmlookup m j = Some d \<Longrightarrow> ch_parent d \<noteq> j \<Longrightarrow> r (ch_parent d) < (r j :: nat)"
    and "fmlookup m i = Some c" and "ch_parent c \<noteq> i"
  shows "uint (overlay_depth m (ch_parent c)) < uint (overlay_depth m i)"
proof -
  have up: "\<exists>d. fmlookup m j = Some d \<and> r (ch_parent d) < r j" if "\<not> leaves_map m j" for j
    using that assms(1) [of j] by (cases "fmlookup m j") (auto simp: leaves_map_def)
  from climb_exists [of "leaves_map m" m r "ch_parent c", OF up]
  obtain n where n: "climb (leaves_map m) m n (ch_parent c)" by blast
  then have "climb (leaves_map m) m (Suc n) i"
    using assms(2,3) by (intro climb_SucI) (auto simp: leaves_map_def)
  then show ?thesis using uint_overlay_depth [OF n] uint_overlay_depth [of m "Suc n" i] by simp
qed

text \<open>What is visible is as deep in the visible part as in the whole view.\<close>

lemma climb_restrict:
  assumes "view_ok v"
  shows "climb (at_root (sv_channels v)) (sv_channels v) n i \<Longrightarrow>
     fmlookup (sv_channels (restrict v see)) i = Some c \<Longrightarrow>
     climb (at_root (sv_channels (restrict v see))) (sv_channels (restrict v see)) n i"
proof (induction n arbitrary: i c)
  case 0
  then show ?case by (auto simp: at_root_def view_simps split: option.splits if_splits)
next
  case (Suc n)
  from Suc.prems(1) have up: "\<not> at_root (sv_channels v) i" by simp
  have i: "i \<noteq> ROOT_ID" "fmlookup (sv_channels v) i = Some c"
    using up Suc.prems(2) by (auto simp: at_root_def view_simps split: option.splits if_splits)
  obtain p where p: "fmlookup (sv_channels (restrict v see)) (ch_parent c) = Some p"
    using view_okD(3) [OF view_ok_restrict [OF assms] Suc.prems(2)] by blast
  have "climb (at_root (sv_channels v)) (sv_channels v) n (ch_parent c)"
    using Suc.prems(1) i by simp
  from Suc.IH [OF this p] show ?case
    using i Suc.prems(2) by (intro climb_SucI) (auto simp: at_root_def)
qed

lemma depth_in_restrict:
  assumes "view_ok v" and "fmlookup (sv_channels (restrict v see)) i = Some c"
  shows "depth_in (restrict v see) i = depth_in v i"
proof -
  obtain r where "ranked r (sv_channels v)" using view_ok_rank [OF assms(1)] ..
  then obtain n where n: "climb (at_root (sv_channels v)) (sv_channels v) n i"
    using climb_root_exists by blast
  have "uint (depth_in (restrict v see) i) = uint (depth_in v i)"
    using uint_depth_in [OF n] uint_depth_in [OF climb_restrict [OF assms(1) n assms(2)]] by simp
  then show ?thesis by (simp add: word_uint_eq_iff)
qed

subsection \<open>The orders of a plan\<close>

lemma in_creates_of:
  "c \<in> set (creates_of b a) \<longleftrightarrow>
     (\<exists>i. fmlookup (sv_channels a) i = Some c \<and>
        (\<forall>old. fmlookup (sv_channels b) i = Some old \<longrightarrow> ch_scope old \<noteq> ch_scope c))"
  unfolding in_set_filter_map chan_create_def
  by (auto simp: in_set_items Bex_def split: option.splits)

lemma set_order_creations: "set (order_creations cs v) = set cs"
  unfolding order_creations_def by (metis mset_order_loop set_mset_mset)

lemma order_creations_parents_first:
  assumes "view_ok a"
  shows "parents_first (fmdom (sv_channels b)) (order_creations (creates_of b a) b)"
proof -
  obtain r where r: "ranked r (sv_channels a)" using view_ok_rank [OF assms] ..
  show ?thesis unfolding order_creations_def
  proof (rule order_loop_parents_first [of _ _ r]; intro ballI impI)
    fix c assume "c \<in> set (creates_of b a)"
    then obtain i where i: "fmlookup (sv_channels a) i = Some c" by (auto simp: in_creates_of)
    obtain p where p: "fmlookup (sv_channels a) (ch_parent c) = Some p" and id: "ch_id p = ch_parent c"
      using view_okD(1,3) [OF assms] i by meson
    show "ch_parent c = ch_id c \<or> ch_parent c |\<in>| fmdom (sv_channels b) \<or> ch_parent c \<in> ch_id ` set (creates_of b a)"
    proof (cases "ch_parent c |\<in>| fmdom (sv_channels b)")
      case False
      then have "p \<in> set (creates_of b a)" using p by (auto simp: in_creates_of notin_fmdom_iff)
      then show ?thesis using id by (metis image_eqI)
    qed simp
    show "ch_parent c \<noteq> ch_id c \<Longrightarrow> r (ch_parent c) < r (ch_id c)"
      using ranked_parent [OF r i] ranked_root [OF r, of c] i view_okD(1) [OF assms i] by (cases "i = ROOT_ID") auto
  qed
qed

definition child_before :: "channel_map \<Rightarrow> channel_id \<Rightarrow> channel_id \<Rightarrow> bool" where
  "child_before m i j \<longleftrightarrow> (\<forall>c. fmlookup m j = Some c \<longrightarrow> j \<noteq> ROOT_ID \<longrightarrow> ch_parent c \<noteq> j \<longrightarrow> ch_parent c \<noteq> i)"

lemma sorted_wrt_sort_key: "sorted_wrt (\<lambda>x y. f x \<le> f y) (sort_key f xs)"
  using sorted_sort_key [of f xs] by (simp add: sorted_wrt_map)

lemma order_removals_children_first:
  assumes "ranked r (sv_channels v)"
  shows "sorted_wrt (child_before (sv_channels v)) (map fst (order_removals gone v))"
  unfolding order_removals_def sorted_wrt_map
proof (rule sorted_wrt_mono_rel [OF _ sorted_wrt_sort_key])
  fix x y :: "channel_id \<times> scope"
  assume le: "(case x of (i, _) \<Rightarrow> (- uint (depth_in v i), i)) \<le> (case y of (i, _) \<Rightarrow> (- uint (depth_in v i), i))"
  show "child_before (sv_channels v) (fst x) (fst y)"
    unfolding child_before_def
    using depth_in_parent [OF assms] le by (fastforce simp: less_eq_prod_def split: prod.splits)
qed

lemma mset_order_removals: "mset (order_removals gone v) = mset gone"
  by (simp add: order_removals_def)

lemma set_order_removals: "set (order_removals gone v) = set gone"
  by (simp add: order_removals_def)

text \<open>The order depends on the withdrawn channels only, not on the order the loops met them in.\<close>

lemma order_removals_cong:
  assumes "mset xs = mset ys" and "distinct (map fst xs)"
    and "\<And>i s. (i, s) \<in> set xs \<Longrightarrow> depth_in v i = depth_in w i"
  shows "order_removals xs v = order_removals ys w"
proof -
  let ?f = "\<lambda>v (i, s :: scope). (- uint (depth_in v i), i)"
  have inj: "inj_on (?f v) (set xs)"
    using assms(2) by (fastforce simp: inj_on_def distinct_map)
  have sets: "set xs = set ys" using assms(1) by (metis set_mset_mset)
  have "map (?f v) (sort_key (?f w) ys) = map (?f w) (sort_key (?f w) ys)"
    using assms(3) sets by (auto split: prod.splits)
  then have "sorted (map (?f v) (sort_key (?f w) ys))"
    using sorted_sort_key [of "?f w" ys] by (simp only:)
  then have "sort_key (?f v) xs = sort_key (?f w) ys"
    using assms(1) inj by (intro sort_key_inj_key_eq) (simp_all add: mset_sort)
  then show ?thesis by (simp add: order_removals_def)
qed

end
