(* ===== verification/Compose.thy ===== *)
theory Compose
  imports Plan_Order
begin

text \<open>
  Composition of one connection's transition, \<open>runtime/crates/shard/src/compose.rs\<close>: the
  visible part of the shared delta, the overlay operations spliced between its additions and
  its removals, and the removal of withdrawals the same transition undoes. The main lemma is
  that filtering the shared plan is planning between the filtered views.
\<close>

subsection \<open>Filter, splice, collapse\<close>

definition filter_ops :: "planned_op list \<Rightarrow> scope_set \<Rightarrow> plan_op list" where
  "filter_ops ops see = map po_op (filter (\<lambda>p. sees see (po_scope p)) ops)"

text \<open>The first removal, where \<open>split_off\<close> cuts the shared delta.\<close>

definition boundary :: "plan_op list \<Rightarrow> nat" where
  "boundary shared = length (takeWhile (\<lambda>op. \<not> is_removal op) shared)"

definition splice_ops :: "plan_op list \<Rightarrow> overlay_ops \<Rightarrow> plan_op list" where
  "splice_ops shared private =
     take (boundary shared) shared @ oo_removals private @ oo_additions private
       @ drop (boundary shared) shared"

definition collapse :: "plan_op list \<Rightarrow> plan_op list" where
  "collapse ops =
     (let added_ids = fset_of_list (filter_map added ops) in
      filter (\<lambda>op. \<not> (case removed op of Some e \<Rightarrow> e |\<in>| added_ids | None \<Rightarrow> False)) ops)"

subsection \<open>Filtering is planning between restricted views\<close>

text \<open>
  The parent of every channel that is created for this observer was visible to it, if it
  existed at all: no created channel hangs from a channel that only now enters the observation
  by changing its scope.
\<close>

definition known_parents :: "shard_view \<Rightarrow> shard_view \<Rightarrow> scope_set \<Rightarrow> bool" where
  "known_parents b a see \<longleftrightarrow>
     list_all (\<lambda>c. sees see (ch_scope c) \<longrightarrow>
       (case fmlookup (sv_channels b) (ch_parent c) of None \<Rightarrow> True | Some p \<Rightarrow> sees see (ch_scope p)))
       (creates_of b a)"

text \<open>The plan with its user withdrawals in an order of their own.\<close>

definition plan_with :: "planned_op list \<Rightarrow> shard_view \<Rightarrow> shard_view \<Rightarrow> planned_op list" where
  "plan_with withdrawals b a =
     map (\<lambda>c. planned (CreateChannel c) (ch_scope c)) (order_creations (creates_of b a) b)
     @ filter_map (chan_update b) (items (sv_channels a))
     @ filter_map (user_add b) (items (sv_users a))
     @ filter_map (user_move b) (items (sv_users a))
     @ filter_map (user_update b) (items (sv_users a))
     @ withdrawals
     @ map (\<lambda>(i, s). planned (RemoveChannel i) s) (order_removals (withdrawn_channels b a) b)"

lemma plan_plan_with: "plan b a = plan_with (withdrawn_users b a) b a"
  by (simp add: plan_phases plan_with_def)

abbreviation seen_op :: "scope_set \<Rightarrow> planned_op \<Rightarrow> bool" where
  "seen_op see p \<equiv> sees see (po_scope p)"

lemma filter_creates:
  "filter (\<lambda>c. sees see (ch_scope c)) (creates_of b a) = creates_of (restrict b see) (restrict a see)"
  unfolding restrict_items
  by (rule filter_filter_map)
    (auto simp: chan_create_def restrict_lookup split: option.splits)

lemma filter_updates:
  "filter (seen_op see) (filter_map (chan_update b) (items (sv_channels a)))
     = filter_map (chan_update (restrict b see)) (items (sv_channels (restrict a see)))"
  unfolding restrict_items
  by (rule filter_filter_map)
    (auto simp: chan_update_def restrict_lookup planned_def split: option.splits)

lemma filter_adds:
  "filter (seen_op see) (filter_map (user_add b) (items (sv_users a)))
     = filter_map (user_add (restrict b see)) (items (sv_users (restrict a see)))"
  unfolding restrict_items
  by (rule filter_filter_map)
    (auto simp: user_add_def restrict_lookup planned_def split: option.splits)

lemma filter_moves:
  "filter (seen_op see) (filter_map (user_move b) (items (sv_users a)))
     = filter_map (user_move (restrict b see)) (items (sv_users (restrict a see)))"
  unfolding restrict_items
  by (rule filter_filter_map)
    (auto simp: user_move_def restrict_lookup planned_def split: option.splits)

lemma filter_user_updates:
  "filter (seen_op see) (filter_map (user_update b) (items (sv_users a)))
     = filter_map (user_update (restrict b see)) (items (sv_users (restrict a see)))"
  unfolding restrict_items
  by (rule filter_filter_map)
    (auto simp: user_update_def restrict_lookup planned_def split: option.splits)

text \<open>Withdrawals: the same ones, since an element that leaves the observation is withdrawn either way.\<close>

lemma rescoped_or_gone:
  "(\<exists>k v. fmlookup n k = Some v \<and> (\<exists>old. fmlookup m k = Some old \<and> D old v \<and> p = F k old)) \<or>
   (\<exists>k v. fmlookup m k = Some v \<and> fmlookup n k = None \<and> p = F k v) \<longleftrightarrow>
   (\<exists>k old. p = F k old \<and> fmlookup m k = Some old \<and> (\<forall>v. fmlookup n k = Some v \<longrightarrow> D old v))"
  (is "?r \<or> ?g \<longleftrightarrow> ?w")
proof
  assume "?r \<or> ?g" then show ?w
  proof (elim disjE exE conjE, goal_cases)
    case (1 k v old) then show ?case by (intro exI [of _ k] exI [of _ old]) auto
  next
    case (2 k v) then show ?case by (intro exI [of _ k] exI [of _ v]) auto
  qed
next
  assume ?w
  then obtain k old where k: "p = F k old" "fmlookup m k = Some old" "\<forall>v. fmlookup n k = Some v \<longrightarrow> D old v"
    by blast
  then show "?r \<or> ?g" by (cases "fmlookup n k") auto
qed

lemma in_withdrawn_users:
  "p \<in> set (withdrawn_users b a) \<longleftrightarrow>
     (\<exists>s old. p = planned (RemoveUser s) (us_scope old) \<and> fmlookup (sv_users b) s = Some old \<and>
        (\<forall>new. fmlookup (sv_users a) s = Some new \<longrightarrow> us_scope old \<noteq> us_scope new))"
  unfolding withdrawn_users_def set_append Un_iff in_filter_map_items plan_step_iffs
  by (rule rescoped_or_gone)

lemma in_withdrawn_channels:
  "p \<in> set (withdrawn_channels b a) \<longleftrightarrow>
     (\<exists>i old. p = (i, ch_scope old) \<and> fmlookup (sv_channels b) i = Some old \<and>
        (\<forall>new. fmlookup (sv_channels a) i = Some new \<longrightarrow> ch_scope old \<noteq> ch_scope new))"
  unfolding withdrawn_channels_def set_append Un_iff in_filter_map_items plan_step_iffs
  by (rule rescoped_or_gone)

lemma distinct_withdrawn_channels: "distinct (map fst (withdrawn_channels b a))"
proof -
  have "distinct (map fst (filter_map (chan_rescoped b) (items (sv_channels a))))"
    "distinct (map fst (filter_map (chan_gone a) (items (sv_channels b))))"
    by (rule distinct_filter_map_items; auto simp: plan_step_iffs)+
  moreover have "fst ` set (filter_map (chan_rescoped b) (items (sv_channels a)))
      \<inter> fst ` set (filter_map (chan_gone a) (items (sv_channels b))) = {}"
    unfolding in_filter_map_items by (auto simp: in_filter_map_items plan_step_iffs)
  ultimately show ?thesis by (simp add: withdrawn_channels_def)
qed

definition removed_session :: "planned_op \<Rightarrow> session_id" where
  "removed_session p = (case po_op p of RemoveUser s \<Rightarrow> s | _ \<Rightarrow> 0)"

lemma distinct_withdrawn_users: "distinct (map removed_session (withdrawn_users b a))"
proof -
  have "distinct (map removed_session (filter_map (user_rescoped b) (items (sv_users a))))"
    "distinct (map removed_session (filter_map (user_gone a) (items (sv_users b))))"
    by (rule distinct_filter_map_items; auto simp: plan_step_iffs removed_session_def planned_def)+
  moreover have "removed_session ` set (filter_map (user_rescoped b) (items (sv_users a)))
      \<inter> removed_session ` set (filter_map (user_gone a) (items (sv_users b))) = {}"
    by (auto simp: in_filter_map_items plan_step_iffs removed_session_def planned_def)
  ultimately show ?thesis by (simp add: withdrawn_users_def)
qed

lemma filter_withdrawn_users:
  "mset (filter (seen_op see) (withdrawn_users b a)) = mset (withdrawn_users (restrict b see) (restrict a see))"
proof -
  have "set (filter (seen_op see) (withdrawn_users b a)) = set (withdrawn_users (restrict b see) (restrict a see))"
    by (rule set_eqI) (auto simp: in_withdrawn_users restrict_Some planned_def)
  then show ?thesis
    using distinct_withdrawn_users by (intro iffD1 [OF set_eq_iff_mset_eq_distinct]) (simp_all add: distinct_map)
qed

lemma filter_withdrawn_channels:
  "mset (filter (\<lambda>(i, s). sees see s) (withdrawn_channels b a))
     = mset (withdrawn_channels (restrict b see) (restrict a see))"
proof -
  have "set (filter (\<lambda>(i, s). sees see s) (withdrawn_channels b a))
      = set (withdrawn_channels (restrict b see) (restrict a see))"
    by (rule set_eqI) (auto simp: in_withdrawn_channels restrict_Some)
  then show ?thesis
    using distinct_withdrawn_channels by (intro iffD1 [OF set_eq_iff_mset_eq_distinct]) (simp_all add: distinct_map)
qed

text \<open>Creation order commutes with filtering, by the closure of views.\<close>

lemma filter_order_creations:
  assumes "view_ok a" and "known_parents b a see"
  shows "filter (\<lambda>c. sees see (ch_scope c)) (order_creations (creates_of b a) b)
     = order_creations (creates_of (restrict b see) (restrict a see)) (restrict b see)"
proof -
  let ?V = "\<lambda>c. sees see (ch_scope c)"
  have agr: "agrees ?V (creates_of b a) (fmdom (sv_channels b)) (fmdom (sv_channels (restrict b see)))"
    unfolding agrees_def
  proof (intro ballI impI)
    fix c assume "c \<in> set (creates_of b a)" and "?V c"
    then have "case fmlookup (sv_channels b) (ch_parent c) of None \<Rightarrow> True | Some p \<Rightarrow> ?V p"
      using assms(2) by (auto simp: known_parents_def list_all_iff)
    then show "ch_parent c |\<in>| fmdom (sv_channels b) \<longleftrightarrow> ch_parent c |\<in>| fmdom (sv_channels (restrict b see))"
      by (auto simp: fmlookup_dom_iff restrict_lookup split: option.splits if_splits)
  qed
  have up: "upward ?V (creates_of b a)"
    unfolding upward_def
  proof (intro ballI impI)
    fix c d assume c: "c \<in> set (creates_of b a)" "?V c" and d: "d \<in> set (creates_of b a)" "ch_parent c = ch_id d"
    obtain i where i: "fmlookup (sv_channels a) i = Some c" using c by (auto simp: in_creates_of)
    obtain j where "fmlookup (sv_channels a) j = Some d" using d by (auto simp: in_creates_of)
    then have "fmlookup (sv_channels a) (ch_parent c) = Some d" using d(2) view_okD(1) [OF assms(1)] by metis
    then have "is_prefix_of (ch_scope d) (ch_scope c)" using view_okD(3) [OF assms(1) i] by auto
    then show "?V d" using c(2) by (rule sees_closed)
  qed
  show ?thesis unfolding order_creations_def order_loop_filter [OF agr up] by (simp add: filter_creates)
qed

lemma filter_order_removals:
  assumes "view_ok b"
  shows "filter (\<lambda>(i, s). sees see s) (order_removals (withdrawn_channels b a) b)
     = order_removals (withdrawn_channels (restrict b see) (restrict a see)) (restrict b see)"
proof -
  have "filter (\<lambda>(i, s). sees see s) (order_removals (withdrawn_channels b a) b)
      = order_removals (filter (\<lambda>(i, s). sees see s) (withdrawn_channels b a)) b"
    by (simp add: order_removals_def filter_sort)
  also have "\<dots> = order_removals (withdrawn_channels (restrict b see) (restrict a see)) (restrict b see)"
  proof (rule order_removals_cong [OF filter_withdrawn_channels])
    show "distinct (map fst (filter (\<lambda>(i, s). sees see s) (withdrawn_channels b a)))"
      using distinct_withdrawn_channels by (simp add: distinct_map_filter)
    fix i s assume "(i, s) \<in> set (filter (\<lambda>(i, s). sees see s) (withdrawn_channels b a))"
    then obtain c where "fmlookup (sv_channels (restrict b see)) i = Some c"
      by (auto simp: in_withdrawn_channels restrict_Some)
    then show "depth_in b i = depth_in (restrict b see) i" using depth_in_restrict [OF assms] by simp
  qed
  finally show ?thesis .
qed

lemma filter_map_planned:
  "filter (seen_op see) (map (\<lambda>c. planned (CreateChannel c) (ch_scope c)) cs)
     = map (\<lambda>c. planned (CreateChannel c) (ch_scope c)) (filter (\<lambda>c. sees see (ch_scope c)) cs)"
  "filter (seen_op see) (map (\<lambda>(i, s). planned (RemoveChannel i) s) rs)
     = map (\<lambda>(i, s). planned (RemoveChannel i) s) (filter (\<lambda>(i, s). sees see s) rs)"
  by (induction cs) (simp_all add: planned_def, induction rs, auto simp: planned_def)

lemma filter_plan:
  assumes "view_ok b" and "view_ok a" and "known_parents b a see"
  shows "\<exists>ws. mset ws = mset (withdrawn_users (restrict b see) (restrict a see)) \<and>
     filter_ops (plan b a) see = map po_op (plan_with ws (restrict b see) (restrict a see))"
proof -
  let ?ws = "filter (seen_op see) (withdrawn_users b a)"
  have "filter (seen_op see) (plan b a) = plan_with ?ws (restrict b see) (restrict a see)"
    by (simp only: plan_phases plan_with_def filter_append filter_map_planned filter_updates filter_adds
        filter_moves filter_user_updates filter_order_creations [OF assms(2,3)] filter_order_removals [OF assms(1)])
  then show ?thesis using filter_withdrawn_users [of see b a] by (intro exI [of _ ?ws]) (simp add: filter_ops_def)
qed

end
