(* ===== verification/Reply.thy ===== *)
theory Reply
  imports Ids
begin

text \<open>
  What a flavor writes back while it observes an event, \<open>runtime/crates/shard/src/reply.rs\<close>:
  words to one connection, text to an audience, effects for the runtime. A reply only
  accumulates; the shard drains it once \<open>observe\<close> has returned.
\<close>

datatype reply_word = Say string | Refuse string

datatype audience =
    AudChannel channel_key
  | AudTree channel_key
  | AudUser occupant

record spoken_text =
  sp_from :: "connection_id option"
  sp_to :: audience
  sp_text :: string

datatype effect = Move connection_id shard_id

record reply =
  rp_words :: "(connection_id, reply_word list) fmap"
  rp_spoken :: "spoken_text list"
  rp_effects :: "effect list"

definition reply_default :: reply where
  "reply_default = \<lparr>rp_words = fmempty, rp_spoken = [], rp_effects = []\<rparr>"

definition push_word :: "connection_id \<Rightarrow> reply_word \<Rightarrow> reply \<Rightarrow> reply" where
  "push_word target w r = r\<lparr>rp_words := fmupd target (fm_get_or [] (rp_words r) target @ [w]) (rp_words r)\<rparr>"

definition say :: "connection_id \<Rightarrow> string \<Rightarrow> reply \<Rightarrow> reply" where
  "say target text r = push_word target (Say text) r"

definition refuse :: "connection_id \<Rightarrow> string \<Rightarrow> reply \<Rightarrow> reply" where
  "refuse target reason r = push_word target (Refuse reason) r"

definition relay :: "connection_id \<Rightarrow> audience \<Rightarrow> string \<Rightarrow> reply \<Rightarrow> reply" where
  "relay from target text r =
     r\<lparr>rp_spoken := rp_spoken r @ [\<lparr>sp_from = Some from, sp_to = target, sp_text = text\<rparr>]\<rparr>"

definition announce :: "audience \<Rightarrow> string \<Rightarrow> reply \<Rightarrow> reply" where
  "announce target text r =
     r\<lparr>rp_spoken := rp_spoken r @ [\<lparr>sp_from = None, sp_to = target, sp_text = text\<rparr>]\<rparr>"

definition switch :: "connection_id \<Rightarrow> shard_id \<Rightarrow> reply \<Rightarrow> reply" where
  "switch connection target r = r\<lparr>rp_effects := rp_effects r @ [Move connection target]\<rparr>"

definition reply_is_empty :: "reply \<Rightarrow> bool" where
  "reply_is_empty r = (items (rp_words r) = [] \<and> rp_spoken r = [] \<and> rp_effects r = [])"

definition drain :: "reply \<Rightarrow> (connection_id, reply_word list) fmap \<times> reply" where
  "drain r = (rp_words r, r\<lparr>rp_words := fmempty\<rparr>)"

definition drain_spoken :: "reply \<Rightarrow> spoken_text list \<times> reply" where
  "drain_spoken r = (rp_spoken r, r\<lparr>rp_spoken := []\<rparr>)"

definition drain_effects :: "reply \<Rightarrow> effect list \<times> reply" where
  "drain_effects r = (rp_effects r, r\<lparr>rp_effects := []\<rparr>)"

text \<open>A word goes to its own connection, after what was already said there, and nowhere else.\<close>

lemma push_word_get:
  "fm_get_or [] (rp_words (push_word c w r)) d =
     (if d = c then fm_get_or [] (rp_words r) c @ [w] else fm_get_or [] (rp_words r) d)"
  by (auto simp: push_word_def fm_get_or_def)

lemma drained_is_empty:
  "reply_is_empty (snd (drain_effects (snd (drain_spoken (snd (drain r))))))"
  by (simp add: reply_is_empty_def drain_def drain_spoken_def drain_effects_def)

end
