(* ===== verification/Emit.thy ===== *)
theory Emit
  imports Compose Reply
begin

text \<open>
  The wire vocabulary, \<open>runtime/crates/shard/src/emit.rs\<close>: control messages for a composed
  transition, permission answers, relayed text and the context actions of a connection. The
  message records carry the fields this code sets; every other field of the protobuf message
  keeps its default, which is absence.
\<close>

unbundle bit_operations_syntax

subsection \<open>Control messages\<close>

record channel_state =
  cs_channel_id :: "u32 option"
  cs_parent :: "u32 option"
  cs_name :: "string option"
  cs_links :: "u32 list"
  cs_links_add :: "u32 list"
  cs_links_remove :: "u32 list"
  cs_temporary :: "bool option"
  cs_position :: "i32 option"
  cs_can_enter :: "bool option"

record user_state =
  ust_session :: "u32 option"
  ust_name :: "string option"
  ust_channel_id :: "u32 option"
  ust_mute :: "bool option"
  ust_deaf :: "bool option"
  ust_suppress :: "bool option"
  ust_self_mute :: "bool option"
  ust_self_deaf :: "bool option"
  ust_priority_speaker :: "bool option"
  ust_recording :: "bool option"

record text_message =
  tm_actor :: "u32 option"
  tm_session :: "u32 list"
  tm_channel_id :: "u32 list"
  tm_tree_id :: "u32 list"
  tm_message :: string

datatype deny_type = DenyText | DenyPermission

record permission_denied =
  pd_permission :: "u32 option"
  pd_channel_id :: "u32 option"
  pd_session :: "u32 option"
  pd_reason :: "string option"
  pd_type :: "deny_type option"

datatype action_operation = OpAdd | OpRemove

record context_action_modify =
  cam_action :: string
  cam_text :: "string option"
  cam_context :: "u32 option"
  cam_operation :: "action_operation option"

record permission_query_msg =
  pq_channel_id :: "u32 option"
  pq_permissions :: "u32 option"
  pq_flush :: "bool option"

datatype control_message =
    ChannelState channel_state
  | ChannelRemove u32
  | UserState user_state
  | UserRemove u32
  | TextMessage text_message
  | PermissionDenied permission_denied
  | ContextActionModify context_action_modify
  | PermissionQuery permission_query_msg
  | UserStats "u32 option"

definition default_channel_state :: channel_state where
  "default_channel_state = \<lparr>cs_channel_id = None, cs_parent = None, cs_name = None, cs_links = [],
     cs_links_add = [], cs_links_remove = [], cs_temporary = None, cs_position = None, cs_can_enter = None\<rparr>"

definition default_user_state :: user_state where
  "default_user_state = \<lparr>ust_session = None, ust_name = None, ust_channel_id = None, ust_mute = None,
     ust_deaf = None, ust_suppress = None, ust_self_mute = None, ust_self_deaf = None,
     ust_priority_speaker = None, ust_recording = None\<rparr>"

definition default_text :: text_message where
  "default_text = \<lparr>tm_actor = None, tm_session = [], tm_channel_id = [], tm_tree_id = [], tm_message = []\<rparr>"

definition default_denied :: permission_denied where
  "default_denied = \<lparr>pd_permission = None, pd_channel_id = None, pd_session = None, pd_reason = None, pd_type = None\<rparr>"

subsection \<open>Permissions\<close>

definition PERM_TRAVERSE :: u32 where "PERM_TRAVERSE = 0x2"
definition PERM_ENTER :: u32 where "PERM_ENTER = 0x4"
definition PERM_SPEAK :: u32 where "PERM_SPEAK = 0x8"
definition PERM_WHISPER :: u32 where "PERM_WHISPER = 0x100"
definition PERM_TEXT_MESSAGE :: u32 where "PERM_TEXT_MESSAGE = 0x200"

definition PERM_DEFAULT :: u32 where
  "PERM_DEFAULT = PERM_TRAVERSE OR PERM_ENTER OR PERM_SPEAK OR PERM_WHISPER OR PERM_TEXT_MESSAGE"

definition permissions_of :: "channel \<Rightarrow> u32" where
  "permissions_of c =
     (let p = PERM_DEFAULT;
          p = (if \<not> ch_can_enter c then p AND NOT PERM_ENTER else p)
      in if \<not> ch_can_text c then p AND NOT PERM_TEXT_MESSAGE else p)"

definition permission_query :: "channel \<Rightarrow> control_message" where
  "permission_query c = PermissionQuery \<lparr>pq_channel_id = Some (ch_id c),
     pq_permissions = Some (permissions_of c), pq_flush = Some False\<rparr>"

definition user_stats :: "session_id \<Rightarrow> control_message" where
  "user_stats session = UserStats (Some session)"

subsection \<open>Text\<close>

fun spoken :: "session_id \<Rightarrow> reply_word \<Rightarrow> control_message" where
  "spoken target (Say text) = TextMessage (default_text\<lparr>tm_session := [target], tm_message := text\<rparr>)"
| "spoken target (Refuse reason) = PermissionDenied (default_denied\<lparr>pd_session := Some target,
     pd_reason := Some reason, pd_type := Some DenyText\<rparr>)"

datatype text_target = TTSession session_id | TTChannel channel_id | TTTree channel_id

definition relayed :: "session_id option \<Rightarrow> text_target \<Rightarrow> string \<Rightarrow> control_message" where
  "relayed actor target text =
     (let m = default_text\<lparr>tm_actor := actor, tm_message := text\<rparr> in
      TextMessage (case target of
        TTSession s \<Rightarrow> m\<lparr>tm_session := [s]\<rparr>
      | TTChannel c \<Rightarrow> m\<lparr>tm_channel_id := [c]\<rparr>
      | TTTree c \<Rightarrow> m\<lparr>tm_tree_id := [c]\<rparr>))"

definition denied_permission :: "session_id \<Rightarrow> channel_id \<Rightarrow> u32 \<Rightarrow> control_message" where
  "denied_permission session c permission =
     PermissionDenied (default_denied\<lparr>pd_permission := Some permission, pd_channel_id := Some c,
       pd_session := Some session, pd_type := Some DenyPermission\<rparr>)"

subsection \<open>Context actions\<close>

definition digit :: "nat \<Rightarrow> char" where
  "digit n = char_of (48 + n)"

definition digit_value :: "char \<Rightarrow> nat option" where
  "digit_value c = (let n = of_char c :: nat in if 48 \<le> n \<and> n \<le> 57 then Some (n - 48) else None)"

fun decimal :: "nat \<Rightarrow> string" where
  "decimal n = (if n < 10 then [digit n] else decimal (n div 10) @ [digit (n mod 10)])"

declare decimal.simps [simp del]

text \<open>\<open>u64::from_str\<close>: an optional plus sign, at least one digit, no overflow.\<close>

fun parse_digits :: "nat \<Rightarrow> string \<Rightarrow> nat option" where
  "parse_digits acc [] = Some acc"
| "parse_digits acc (c # cs) =
     (case digit_value c of
        None \<Rightarrow> None
      | Some d \<Rightarrow> if 10 * acc + d < 2 ^ 64 then parse_digits (10 * acc + d) cs else None)"

definition parse_u64 :: "string \<Rightarrow> u64 option" where
  "parse_u64 s =
     (case s of
        [] \<Rightarrow> None
      | c # cs \<Rightarrow>
          let body = (if c = CHR ''+'' then cs else s) in
          if body = [] then None else map_option of_nat (parse_digits 0 body))"

definition action_name :: "action_key \<Rightarrow> string" where
  "action_name key = decimal (unat key)"

definition action_key :: "string \<Rightarrow> action_key option" where
  "action_key name = parse_u64 name"

definition offer_action :: "action \<Rightarrow> control_message" where
  "offer_action a = ContextActionModify \<lparr>cam_action = action_name (ac_key a),
     cam_text = Some (ac_text a), cam_context = Some (ac_on a), cam_operation = Some OpAdd\<rparr>"

definition withdraw_action :: "action_key \<Rightarrow> control_message" where
  "withdraw_action key = ContextActionModify \<lparr>cam_action = action_name key, cam_text = None,
     cam_context = None, cam_operation = Some OpRemove\<rparr>"

definition emit_actions :: "actions \<Rightarrow> actions \<Rightarrow> control_message list" where
  "emit_actions sent fresh =
     map (\<lambda>(key, _). withdraw_action key) (filter (\<lambda>(key, a). fmlookup fresh key \<noteq> Some a) (items sent))
     @ map (\<lambda>(_, a). offer_action a) (filter (\<lambda>(key, a). fmlookup sent key \<noteq> Some a) (items fresh))"

subsection \<open>The composed transition\<close>

definition created_channel :: "channel \<Rightarrow> channel_state" where
  "created_channel c = default_channel_state\<lparr>
     cs_channel_id := Some (ch_id c),
     cs_parent := (if ch_id c \<noteq> ROOT_ID then Some (ch_parent c) else None),
     cs_name := Some (ch_name c),
     cs_position := Some (ch_position c),
     cs_temporary := Some False,
     cs_can_enter := Some (ch_can_enter c),
     cs_links := sorted_list_of_fset (ch_links c)\<rparr>"

definition patched_channel :: "channel_patch \<Rightarrow> channel_state" where
  "patched_channel p = default_channel_state\<lparr>
     cs_channel_id := Some (cp_id p),
     cs_parent := cp_parent p,
     cs_name := cp_name p,
     cs_position := cp_position p,
     cs_can_enter := cp_can_enter p,
     cs_links_add := sorted_list_of_fset (cp_links_added p),
     cs_links_remove := sorted_list_of_fset (cp_links_removed p)\<rparr>"

definition added_user :: "user \<Rightarrow> user_state" where
  "added_user u = (let flags = us_flags u in
     \<lparr>ust_session = Some (us_session u), ust_name = Some (us_name u), ust_channel_id = Some (us_channel u),
      ust_mute = Some (fl_mute flags), ust_deaf = Some (fl_deaf flags), ust_suppress = Some (fl_suppress flags),
      ust_self_mute = Some (fl_self_mute flags), ust_self_deaf = Some (fl_self_deaf flags),
      ust_priority_speaker = Some (fl_priority_speaker flags), ust_recording = Some (fl_recording flags)\<rparr>)"

definition then_some :: "bool \<Rightarrow> 'a \<Rightarrow> 'a option" where
  "then_some b x = (if b then Some x else None)"

definition patched_user :: "user_patch \<Rightarrow> user_state" where
  "patched_user p =
     (let flags = (case up_flags p of Some f \<Rightarrow> f | None \<Rightarrow> default_flags);
          set = (up_flags p \<noteq> None) in
      \<lparr>ust_session = Some (up_session p), ust_name = up_name p, ust_channel_id = None,
       ust_mute = then_some set (fl_mute flags), ust_deaf = then_some set (fl_deaf flags),
       ust_suppress = then_some set (fl_suppress flags),
       ust_self_mute = then_some set (fl_self_mute flags), ust_self_deaf = then_some set (fl_self_deaf flags),
       ust_priority_speaker = then_some set (fl_priority_speaker flags),
       ust_recording = then_some set (fl_recording flags)\<rparr>)"

fun emit_op :: "plan_op \<Rightarrow> control_message" where
  "emit_op (CreateChannel c) = ChannelState (created_channel c)"
| "emit_op (UpdateChannel p) = ChannelState (patched_channel p)"
| "emit_op (RemoveChannel c) = ChannelRemove c"
| "emit_op (AddUser u) = UserState (added_user u)"
| "emit_op (UpdateUser p) = UserState (patched_user p)"
| "emit_op (MoveUser s c) = UserState (default_user_state\<lparr>ust_session := Some s, ust_channel_id := Some c\<rparr>)"
| "emit_op (RemoveUser s) = UserRemove s"

fun is_add_user :: "plan_op \<Rightarrow> bool" where
  "is_add_user (AddUser _) = True"
| "is_add_user _ = False"

fun is_self_addition :: "session_id \<Rightarrow> plan_op \<Rightarrow> bool" where
  "is_self_addition self (AddUser u) = (us_session u = self)"
| "is_self_addition self _ = False"

function self_first :: "plan_op list \<Rightarrow> session_id \<Rightarrow> plan_op list" where
  "self_first [] self = []"
| "self_first (op # ops) self =
     (if \<not> is_add_user op then op # self_first ops self
      else let run = takeWhile is_add_user (op # ops) in
        filter (is_self_addition self) run @ filter (\<lambda>o'. \<not> is_self_addition self o') run
          @ self_first (dropWhile is_add_user (op # ops)) self)"
  by pat_completeness auto
termination
  by (relation "measure (length \<circ> fst)") (auto simp: le_imp_less_Suc length_dropWhile_le)

definition emit :: "plan_op list \<Rightarrow> session_id \<Rightarrow> control_message list" where
  "emit ops self = map emit_op (self_first ops self)"

end
