(* ===== verification/Client.thy ===== *)
theory Client
  imports Emit
begin

text \<open>
  The strict client of \<open>runtime/crates/shard/tests/support/model.rs\<close>: it applies control
  messages, merges absent fields, and judges the state left by every single message. It is the
  abstract specification the emitted transitions are proved against. The generation counter of a
  channel, which records history and which the source's own equality ignores, is left out.
\<close>

subsection \<open>The client\<close>

record model_channel =
  mc_name :: string
  mc_parent :: "u32 option"
  mc_position :: i32
  mc_can_enter :: bool
  mc_links :: "u32 fset"

record model_user =
  mu_name :: string
  mu_channel :: u32

record client_model =
  cm_channels :: "(u32, model_channel) fmap"
  cm_users :: "(u32, model_user) fmap"

datatype client_error =
    RemovedWhileOccupied u32 u32
  | ActorNotVisible u32
  | SessionNotVisible u32
  | ChannelNotVisible u32
  | UserInMissingChannel u32 u32
  | MissingParent u32 u32
  | ParentCycle u32

definition root_model :: model_channel where
  "root_model = \<lparr>mc_name = ''Root'', mc_parent = None, mc_position = 0, mc_can_enter = True, mc_links = {||}\<rparr>"

definition client_new :: client_model where
  "client_new = \<lparr>cm_channels = fmupd 0 root_model fmempty, cm_users = fmempty\<rparr>"

text \<open>The walk to the root: \<open>False\<close> when it comes back to a channel it has passed.\<close>

function walk_up :: "(u32, model_channel) fmap \<Rightarrow> u32 fset \<Rightarrow> u32 \<Rightarrow> bool" where
  "walk_up m seen current =
     (case fmlookup m current of
        None \<Rightarrow> True
      | Some c \<Rightarrow>
          (case mc_parent c of
             None \<Rightarrow> True
           | Some next \<Rightarrow> if current |\<in>| seen then False else walk_up m (finsert current seen) next))"
  by pat_completeness auto
termination
  by (relation "measure (\<lambda>(m, seen, _). fcard (fmdom m |-| seen))")
    (simp, simp only: in_measure case_prod_conv, blast intro: guard_shrinks)

declare walk_up.simps [simp del]

definition check_user :: "client_model \<Rightarrow> u32 \<times> model_user \<Rightarrow> (client_error, unit) result" where
  "check_user m e = (case e of (session, u) \<Rightarrow>
     if fm_has (cm_channels m) (mu_channel u) then Inr () else Inl (UserInMissingChannel session (mu_channel u)))"

definition check_channel :: "client_model \<Rightarrow> u32 \<times> model_channel \<Rightarrow> (client_error, unit) result" where
  "check_channel m e = (case e of (i, c) \<Rightarrow>
     (case mc_parent c of
        None \<Rightarrow> Inr ()
      | Some parent \<Rightarrow>
          if \<not> fm_has (cm_channels m) parent then Inl (MissingParent i parent)
          else if \<not> walk_up (cm_channels m) {|i|} parent then Inl (ParentCycle i) else Inr ()))"

definition check :: "client_model \<Rightarrow> (client_error, unit) result" where
  "check m =
     (case for_all_ok (check_user m) (items (cm_users m)) of
        Inl e \<Rightarrow> Inl e
      | Inr _ \<Rightarrow> for_all_ok (check_channel m) (items (cm_channels m)))"

definition merge :: "'a option \<Rightarrow> 'a \<Rightarrow> 'a" where
  "merge new old = (case new of Some x \<Rightarrow> x | None \<Rightarrow> old)"

definition merge_channel :: "u32 \<Rightarrow> channel_state \<Rightarrow> model_channel \<Rightarrow> model_channel" where
  "merge_channel i st c =
     (let c = (if cs_parent st \<noteq> None \<and> i \<noteq> 0 then c\<lparr>mc_parent := cs_parent st\<rparr> else c);
          c = c\<lparr>mc_name := merge (cs_name st) (mc_name c)\<rparr>;
          c = c\<lparr>mc_position := merge (cs_position st) (mc_position c)\<rparr>;
          c = c\<lparr>mc_can_enter := merge (cs_can_enter st) (mc_can_enter c)\<rparr>;
          c = (if cs_links st \<noteq> [] then c\<lparr>mc_links := fset_of_list (cs_links st)\<rparr> else c);
          c = c\<lparr>mc_links := mc_links c |-| fset_of_list (cs_links_remove st)\<rparr>
      in c\<lparr>mc_links := mc_links c |\<union>| fset_of_list (cs_links_add st)\<rparr>)"

definition apply_channel :: "channel_state \<Rightarrow> client_model \<Rightarrow> client_model" where
  "apply_channel st m =
     (case cs_channel_id st of
        None \<Rightarrow> m
      | Some i \<Rightarrow>
          let entry =
            (case fmlookup (cm_channels m) i of
               Some c \<Rightarrow> Some c
             | None \<Rightarrow>
                 (case (cs_parent st, cs_name st) of
                    (Some parent, Some name) \<Rightarrow>
                      Some \<lparr>mc_name = name, mc_parent = Some parent, mc_position = merge (cs_position st) 0,
                            mc_can_enter = merge (cs_can_enter st) True, mc_links = {||}\<rparr>
                  | _ \<Rightarrow> None))
          in case entry of
               None \<Rightarrow> m
             | Some c \<Rightarrow> m\<lparr>cm_channels := fmupd i (merge_channel i st c) (cm_channels m)\<rparr>)"

definition apply_user :: "user_state \<Rightarrow> client_model \<Rightarrow> client_model" where
  "apply_user st m =
     (case ust_session st of
        None \<Rightarrow> m
      | Some s \<Rightarrow>
          (case fmlookup (cm_users m) s of
             None \<Rightarrow>
               (case (ust_name st, ust_channel_id st) of
                  (Some name, Some channel) \<Rightarrow>
                    m\<lparr>cm_users := fmupd s \<lparr>mu_name = name, mu_channel = channel\<rparr> (cm_users m)\<rparr>
                | _ \<Rightarrow> m)
           | Some u \<Rightarrow>
               m\<lparr>cm_users := fmupd s \<lparr>mu_name = merge (ust_name st) (mu_name u),
                   mu_channel = merge (ust_channel_id st) (mu_channel u)\<rparr> (cm_users m)\<rparr>))"

definition check_text :: "text_message \<Rightarrow> client_model \<Rightarrow> (client_error, unit) result" where
  "check_text t m =
     (case (case tm_actor t of
              Some actor \<Rightarrow> if fm_has (cm_users m) actor then Inr () else Inl (ActorNotVisible actor)
            | None \<Rightarrow> Inr ()) of
        Inl e \<Rightarrow> Inl e
      | Inr _ \<Rightarrow>
          (case for_all_ok (\<lambda>s. if fm_has (cm_users m) s then Inr () else Inl (SessionNotVisible s)) (tm_session t) of
             Inl e \<Rightarrow> Inl e
           | Inr _ \<Rightarrow> for_all_ok (\<lambda>c. if fm_has (cm_channels m) c then Inr () else Inl (ChannelNotVisible c))
               (tm_channel_id t @ tm_tree_id t)))"

text \<open>The first user found in a channel.\<close>

definition occupant_of :: "client_model \<Rightarrow> u32 \<Rightarrow> u32 option" where
  "occupant_of m i = (case filter (\<lambda>(_, u). mu_channel u = i) (items (cm_users m)) of
     [] \<Rightarrow> None | (s, _) # _ \<Rightarrow> Some s)"

definition judged :: "client_model \<Rightarrow> (client_error, client_model) result" where
  "judged m = (case check m of Inl e \<Rightarrow> Inl e | Inr _ \<Rightarrow> Inr m)"

definition apply_msg :: "control_message \<Rightarrow> client_model \<Rightarrow> (client_error, client_model) result" where
  "apply_msg msg m =
     (case msg of
        ChannelState st \<Rightarrow> judged (apply_channel st m)
      | ChannelRemove i \<Rightarrow>
          if i \<noteq> 0 then
            (case occupant_of m i of
               Some s \<Rightarrow> Inl (RemovedWhileOccupied i s)
             | None \<Rightarrow> judged (m\<lparr>cm_channels := fmdrop i (cm_channels m)\<rparr>))
          else judged m
      | UserState st \<Rightarrow> judged (apply_user st m)
      | UserRemove s \<Rightarrow> judged (m\<lparr>cm_users := fmdrop s (cm_users m)\<rparr>)
      | TextMessage t \<Rightarrow> (case check_text t m of Inl e \<Rightarrow> Inl e | Inr _ \<Rightarrow> judged m)
      | _ \<Rightarrow> judged m)"

fun apply_msgs :: "control_message list \<Rightarrow> client_model \<Rightarrow> (client_error, client_model) result" where
  "apply_msgs [] m = Inr m"
| "apply_msgs (msg # msgs) m =
     (case apply_msg msg m of Inl e \<Rightarrow> Inl e | Inr m' \<Rightarrow> apply_msgs msgs m')"

subsection \<open>What a connection should hold\<close>

definition model_channel_of :: "channel \<Rightarrow> model_channel" where
  "model_channel_of c = \<lparr>mc_name = ch_name c, mc_parent = (if ch_id c \<noteq> 0 then Some (ch_parent c) else None),
     mc_position = ch_position c, mc_can_enter = ch_can_enter c, mc_links = ch_links c\<rparr>"

definition model_user_of :: "user \<Rightarrow> model_user" where
  "model_user_of u = \<lparr>mu_name = us_name u, mu_channel = us_channel u\<rparr>"

definition model_of :: "shard_view \<Rightarrow> client_model" where
  "model_of v =
     \<lparr>cm_channels = fold (\<lambda>c m. fmupd (ch_id c) (model_channel_of c) m) (fvals (sv_channels v)) (cm_channels client_new),
      cm_users = fold (\<lambda>u m. fmupd (us_session u) (model_user_of u) m) (fvals (sv_users v)) (cm_users client_new)\<rparr>"

definition expected :: "shard_view \<Rightarrow> scope_set \<Rightarrow> overlay \<Rightarrow> client_model" where
  "expected v see ov = model_of (compose (restrict v see) ov)"

subsection \<open>Lookups in the expected client\<close>

lemma fold_fmupd_notin:
  "i \<notin> k ` set xs \<Longrightarrow> fmlookup (fold (\<lambda>x m. fmupd (k x) (f x) m) xs m) i = fmlookup m i"
  by (induction xs arbitrary: m) auto

lemma fold_fmupd_in:
  "(\<And>x. x \<in> set xs \<Longrightarrow> k x = i \<Longrightarrow> f x = v) \<Longrightarrow> i \<in> k ` set xs \<Longrightarrow>
     fmlookup (fold (\<lambda>x m. fmupd (k x) (f x) m) xs m) i = Some v"
proof (induction xs rule: rev_induct)
  case (snoc x xs)
  then show ?case by (cases "k x = i") auto
qed simp

lemma in_fvals_keyed:
  assumes "\<And>j x. fmlookup m j = Some x \<Longrightarrow> k x = j"
  shows "x \<in> set (fvals m) \<longleftrightarrow> fmlookup m (k x) = Some x"
  unfolding in_set_fvals using assms by metis

lemma model_of_channel:
  assumes "view_keyed v"
  shows "fmlookup (cm_channels (model_of v)) i = (case fmlookup (sv_channels v) i of
     Some c \<Rightarrow> Some (model_channel_of c) | None \<Rightarrow> if i = 0 then Some root_model else None)"
proof -
  have mem: "c \<in> set (fvals (sv_channels v)) \<longleftrightarrow> fmlookup (sv_channels v) (ch_id c) = Some c" for c
    using assms by (intro in_fvals_keyed) (auto simp: view_keyed_def)
  show ?thesis
  proof (cases "fmlookup (sv_channels v) i")
    case None
    then have "i \<notin> ch_id ` set (fvals (sv_channels v))" unfolding image_iff Bex_def mem by auto
    then show ?thesis unfolding model_of_def using None by (simp add: fold_fmupd_notin client_new_def del: set_map)
  next
    case (Some c)
    then have "i \<in> ch_id ` set (fvals (sv_channels v))"
      unfolding image_iff Bex_def mem using assms Some by (intro exI [of _ c]) (auto simp: view_keyed_def)
    moreover have "\<And>x. x \<in> set (fvals (sv_channels v)) \<Longrightarrow> ch_id x = i \<Longrightarrow> model_channel_of x = model_channel_of c"
      unfolding mem using Some by simp
    ultimately show ?thesis unfolding model_of_def using Some by (simp add: fold_fmupd_in del: set_map)
  qed
qed

lemma model_of_user:
  assumes "view_keyed v"
  shows "fmlookup (cm_users (model_of v)) s = map_option model_user_of (fmlookup (sv_users v) s)"
proof -
  have mem: "u \<in> set (fvals (sv_users v)) \<longleftrightarrow> fmlookup (sv_users v) (us_session u) = Some u" for u
    using assms by (intro in_fvals_keyed) (auto simp: view_keyed_def)
  show ?thesis
  proof (cases "fmlookup (sv_users v) s")
    case None
    then have "s \<notin> us_session ` set (fvals (sv_users v))" unfolding image_iff Bex_def mem by auto
    then show ?thesis unfolding model_of_def using None by (simp add: fold_fmupd_notin client_new_def del: set_map)
  next
    case (Some u)
    then have "s \<in> us_session ` set (fvals (sv_users v))"
      unfolding image_iff Bex_def mem using assms Some by (intro exI [of _ u]) (auto simp: view_keyed_def)
    moreover have "\<And>x. x \<in> set (fvals (sv_users v)) \<Longrightarrow> us_session x = s \<Longrightarrow> model_user_of x = model_user_of u"
      unfolding mem using Some by simp
    ultimately show ?thesis unfolding model_of_def using Some by (simp add: fold_fmupd_in del: set_map)
  qed
qed

end
