(* ===== verification/Client_Run.thy ===== *)
theory Client_Run
  imports Client
begin

text \<open>
  Running plan operations on the strict client: the effect of an operation on the element it
  names, the states that pass the client's judgement, and one lemma per phase of a plan that the
  phase keeps them.
\<close>

subsection \<open>Coherent clients pass the judgement\<close>

definition coherent :: "(u32 \<Rightarrow> nat) \<Rightarrow> client_model \<Rightarrow> bool" where
  "coherent r m \<longleftrightarrow>
     (\<exists>c. fmlookup (cm_channels m) ROOT_ID = Some c \<and> mc_parent c = None) \<and>
     (\<forall>s u. fmlookup (cm_users m) s = Some u \<longrightarrow> mu_channel u |\<in>| fmdom (cm_channels m)) \<and>
     (\<forall>i c p. fmlookup (cm_channels m) i = Some c \<longrightarrow> mc_parent c = Some p \<longrightarrow>
        p |\<in>| fmdom (cm_channels m) \<and> r p < r i)"

lemma coherentD:
  assumes "coherent r m"
  shows "ROOT_ID |\<in>| fmdom (cm_channels m)"
    and "fmlookup (cm_channels m) ROOT_ID = Some c \<Longrightarrow> mc_parent c = None"
    and "fmlookup (cm_users m) s = Some u \<Longrightarrow> mu_channel u |\<in>| fmdom (cm_channels m)"
    and "fmlookup (cm_channels m) i = Some c \<Longrightarrow> mc_parent c = Some p \<Longrightarrow> p |\<in>| fmdom (cm_channels m)"
    and "fmlookup (cm_channels m) i = Some c \<Longrightarrow> mc_parent c = Some p \<Longrightarrow> r p < r i"
  using assms by (auto simp: coherent_def fmlookup_dom_iff)

lemma walk_up_ok:
  "(\<forall>i c p. fmlookup m i = Some c \<longrightarrow> mc_parent c = Some p \<longrightarrow> r p < (r i :: nat)) \<Longrightarrow>
   (\<forall>s. s |\<in>| seen \<longrightarrow> r current < r s) \<Longrightarrow> walk_up m seen current"
proof (induction m seen current rule: walk_up.induct)
  case (1 m seen current)
  show ?case
  proof (cases "fmlookup m current")
    case None
    then show ?thesis by (simp add: walk_up.simps [of m])
  next
    case lookup: (Some c)
    show ?thesis
    proof (cases "mc_parent c")
      case None
      then show ?thesis using lookup by (simp add: walk_up.simps [of m])
    next
      case (Some p)
      have fresh: "current |\<notin>| seen" using "1.prems"(2) by blast
      have "r p < r current" using "1.prems"(1) lookup Some by blast
      then have "\<forall>s. s |\<in>| finsert current seen \<longrightarrow> r p < r s"
        using "1.prems"(2) by (auto intro: less_trans)
      then show ?thesis
        using "1.IH" [OF lookup Some fresh "1.prems"(1)] fresh lookup Some by (simp add: walk_up.simps [of m])
    qed
  qed
qed

lemma coherent_check:
  assumes "coherent r m"
  shows "check m = Inr ()"
proof -
  have users: "for_all_ok (check_user m) (items (cm_users m)) = Inr ()"
    unfolding for_all_ok_iff using coherentD(3) [OF assms]
    by (auto simp: check_user_def in_set_items)
  have "check_channel m (i, c) = Inr ()" if "fmlookup (cm_channels m) i = Some c" for i c
  proof (cases "mc_parent c")
    case (Some p)
    have "walk_up (cm_channels m) {|i|} p"
      using coherentD(5) [OF assms] that Some by (intro walk_up_ok [of _ r]) auto
    then show ?thesis using coherentD(4) [OF assms that Some] Some by (simp add: check_channel_def)
  qed (simp add: check_channel_def)
  then have "for_all_ok (check_channel m) (items (cm_channels m)) = Inr ()"
    unfolding for_all_ok_iff by (auto simp: in_set_items)
  then show ?thesis using users by (simp add: check_def)
qed

lemma coherent_judged: "coherent r m \<Longrightarrow> judged m = Inr m"
  by (simp add: judged_def coherent_check)

subsection \<open>Effects\<close>

text \<open>The element an operation names, and what the operation does to the client's copy of it.\<close>

fun target :: "plan_op \<Rightarrow> element_id" where
  "target (CreateChannel c) = ChannelEl (ch_id c)"
| "target (UpdateChannel p) = ChannelEl (cp_id p)"
| "target (RemoveChannel i) = ChannelEl i"
| "target (AddUser u) = UserEl (us_session u)"
| "target (MoveUser s _) = UserEl s"
| "target (UpdateUser p) = UserEl (up_session p)"
| "target (RemoveUser s) = UserEl s"

definition created_over :: "channel \<Rightarrow> model_channel option \<Rightarrow> model_channel" where
  "created_over c old = (model_channel_of c)\<lparr>mc_links :=
     (if ch_links c = {||} then (case old of None \<Rightarrow> {||} | Some o' \<Rightarrow> mc_links o') else ch_links c)\<rparr>"

definition patched_over :: "channel_patch \<Rightarrow> model_channel \<Rightarrow> model_channel" where
  "patched_over p c = \<lparr>mc_name = merge (cp_name p) (mc_name c),
     mc_parent = (if cp_parent p \<noteq> None \<and> cp_id p \<noteq> ROOT_ID then cp_parent p else mc_parent c),
     mc_position = merge (cp_position p) (mc_position c), mc_can_enter = merge (cp_can_enter p) (mc_can_enter c),
     mc_links = (mc_links c |-| cp_links_removed p) |\<union>| cp_links_added p\<rparr>"

fun chan_eff :: "plan_op \<Rightarrow> model_channel option \<Rightarrow> model_channel option" where
  "chan_eff (CreateChannel c) old = Some (created_over c old)"
| "chan_eff (UpdateChannel p) old = map_option (patched_over p) old"
| "chan_eff (RemoveChannel i) old = (if i = ROOT_ID then old else None)"
| "chan_eff _ old = old"

fun user_eff :: "plan_op \<Rightarrow> model_user option \<Rightarrow> model_user option" where
  "user_eff (AddUser u) old = Some (model_user_of u)"
| "user_eff (MoveUser _ c) old = map_option (\<lambda>u. \<lparr>mu_name = mu_name u, mu_channel = c\<rparr>) old"
| "user_eff (UpdateUser p) old = 
     map_option (\<lambda>u. \<lparr>mu_name = merge (up_name p) (mu_name u), mu_channel = mu_channel u\<rparr>) old"
| "user_eff (RemoveUser _) old = None"
| "user_eff _ old = old"

definition fm_set :: "'k \<Rightarrow> 'v option \<Rightarrow> ('k, 'v) fmap \<Rightarrow> ('k, 'v) fmap" where
  "fm_set k v m = (case v of None \<Rightarrow> fmdrop k m | Some x \<Rightarrow> fmupd k x m)"

lemma fmlookup_set [simp]: "fmlookup (fm_set k v m) i = (if i = k then v else fmlookup m i)"
  by (auto simp: fm_set_def split: option.splits)

definition eff :: "plan_op \<Rightarrow> client_model \<Rightarrow> client_model" where
  "eff op m = (case target op of
     ChannelEl i \<Rightarrow> m\<lparr>cm_channels := fm_set i (chan_eff op (fmlookup (cm_channels m) i)) (cm_channels m)\<rparr>
   | UserEl s \<Rightarrow> m\<lparr>cm_users := fm_set s (user_eff op (fmlookup (cm_users m) s)) (cm_users m)\<rparr>)"

lemma eff_channels:
  "fmlookup (cm_channels (eff op m)) i =
     (if target op = ChannelEl i then chan_eff op (fmlookup (cm_channels m) i) else fmlookup (cm_channels m) i)"
  by (auto simp: eff_def split: element_id.splits)

lemma eff_users:
  "fmlookup (cm_users (eff op m)) s =
     (if target op = UserEl s then user_eff op (fmlookup (cm_users m) s) else fmlookup (cm_users m) s)"
  by (auto simp: eff_def split: element_id.splits)

lemma fold_eff_channels:
  "fmlookup (cm_channels (fold eff ops m)) i =
     fold chan_eff (filter (\<lambda>op. target op = ChannelEl i) ops) (fmlookup (cm_channels m) i)"
  by (induction ops arbitrary: m) (auto simp: eff_channels)

lemma fold_eff_users:
  "fmlookup (cm_users (fold eff ops m)) s =
     fold user_eff (filter (\<lambda>op. target op = UserEl s) ops) (fmlookup (cm_users m) s)"
  by (induction ops arbitrary: m) (auto simp: eff_users)

subsection \<open>Applying a message has the effect of its operation\<close>

definition op_safe :: "plan_op \<Rightarrow> client_model \<Rightarrow> bool" where
  "op_safe op m = (case op of
     UpdateChannel p \<Rightarrow> cp_id p |\<in>| fmdom (cm_channels m)
   | RemoveChannel i \<Rightarrow> i = ROOT_ID \<or> (\<forall>s u. fmlookup (cm_users m) s = Some u \<longrightarrow> mu_channel u \<noteq> i)
   | _ \<Rightarrow> True)"

lemma occupant_of_None:
  "(\<forall>s u. fmlookup (cm_users m) s = Some u \<longrightarrow> mu_channel u \<noteq> i) \<Longrightarrow> occupant_of m i = None"
proof -
  assume "\<forall>s u. fmlookup (cm_users m) s = Some u \<longrightarrow> mu_channel u \<noteq> i"
  then have "filter (\<lambda>(_, u). mu_channel u = i) (items (cm_users m)) = []"
    by (fastforce simp: filter_empty_conv in_set_items)
  then show ?thesis by (simp add: occupant_of_def)
qed

lemma client_model_eqI:
  "(\<And>i. fmlookup (cm_channels m) i = fmlookup (cm_channels n) i) \<Longrightarrow>
   (\<And>s. fmlookup (cm_users m) s = fmlookup (cm_users n) s) \<Longrightarrow> m = (n :: client_model)"
  by (cases m; cases n) (auto intro: fmap_ext)

lemma root_id_zero: "ROOT_ID = 0"
  by (simp add: ROOT_ID_def)

lemma sorted_list_of_fset_Nil: "sorted_list_of_fset S = [] \<longleftrightarrow> S = {||}"
  by (metis bot_fset.rep_eq fset_inject sorted_list_of_fset.rep_eq sorted_list_of_set.sorted_key_list_of_set_eq_Nil_iff finite_fset)

lemma fset_of_sorted_list: "fset_of_list (sorted_list_of_fset S) = S"
  by simp

lemma merge_created_channel:
  assumes "ch_id c = ROOT_ID \<Longrightarrow> mc_parent old = None"
  shows "merge_channel (ch_id c) (created_channel c) old = created_over c (Some old)"
  using assms
  by (auto simp: merge_channel_def created_channel_def default_channel_state_def created_over_def Let_def
      merge_def model_channel_of_def sorted_list_of_fset_Nil root_id_zero)

lemma merge_patched_channel:
  "merge_channel (cp_id p) (patched_channel p) old = patched_over p old"
  by (auto simp: merge_channel_def patched_channel_def default_channel_state_def patched_over_def Let_def root_id_zero)

lemma apply_created:
  assumes "coherent r m"
  shows "apply_channel (created_channel c) m = eff (CreateChannel c) m"
proof (cases "fmlookup (cm_channels m) (ch_id c)")
  case None
  then have nonroot: "ch_id c \<noteq> ROOT_ID" using coherentD(1) [OF assms] by (auto simp: fmlookup_dom_iff)
  then have new: "merge_channel (ch_id c) (created_channel c) \<lparr>mc_name = ch_name c, mc_parent = Some (ch_parent c),
      mc_position = ch_position c, mc_can_enter = ch_can_enter c, mc_links = {||}\<rparr> = created_over c None"
    by (subst merge_created_channel) (auto simp: created_over_def)
  have fields: "cs_channel_id (created_channel c) = Some (ch_id c)" "cs_parent (created_channel c) = Some (ch_parent c)"
    "cs_name (created_channel c) = Some (ch_name c)" "cs_position (created_channel c) = Some (ch_position c)"
    "cs_can_enter (created_channel c) = Some (ch_can_enter c)"
    using nonroot by (simp_all add: created_channel_def)
  show ?thesis
    using None by (simp add: apply_channel_def fields merge_def new eff_def fm_set_def)
next
  case (Some old)
  have "cs_channel_id (created_channel c) = Some (ch_id c)" by (simp add: created_channel_def)
  moreover have "merge_channel (ch_id c) (created_channel c) old = created_over c (Some old)"
    using coherentD(2) [OF assms] Some by (intro merge_created_channel) auto
  ultimately show ?thesis using Some by (simp add: apply_channel_def eff_def fm_set_def)
qed

lemma apply_patched:
  assumes "cp_id p |\<in>| fmdom (cm_channels m)"
  shows "apply_channel (patched_channel p) m = eff (UpdateChannel p) m"
proof -
  obtain old where old: "fmlookup (cm_channels m) (cp_id p) = Some old"
    using assms by (auto simp: fmlookup_dom_iff)
  have "cs_channel_id (patched_channel p) = Some (cp_id p)" by (simp add: patched_channel_def)
  then show ?thesis
    using old by (simp add: apply_channel_def merge_patched_channel eff_def fm_set_def)
qed

lemma apply_added: "apply_user (added_user u) m = eff (AddUser u) m"
  by (cases "fmlookup (cm_users m) (us_session u)")
    (simp_all add: apply_user_def added_user_def Let_def eff_def fm_set_def model_user_of_def merge_def)

lemma fmupd_same: "fmlookup m k = Some v \<Longrightarrow> fmupd k v m = m"
  by (rule fmap_ext) auto

lemma fmdrop_none: "fmlookup m k = None \<Longrightarrow> fmdrop k m = m"
  by (rule fmap_ext) auto

lemma apply_moved:
  "apply_user (default_user_state\<lparr>ust_session := Some s, ust_channel_id := Some c\<rparr>) m = eff (MoveUser s c) m"
  by (cases "fmlookup (cm_users m) s")
    (simp_all add: apply_user_def default_user_state_def eff_def fm_set_def merge_def fmdrop_none)

lemma apply_user_patch: "apply_user (patched_user p) m = eff (UpdateUser p) m"
  by (cases "fmlookup (cm_users m) (up_session p)")
    (simp_all add: apply_user_def patched_user_def eff_def fm_set_def merge_def fmdrop_none Let_def split: option.splits)

lemma apply_emitted:
  assumes "coherent r m" and "op_safe op m"
  shows "apply_msg (emit_op op) m = judged (eff op m)"
proof (cases op)
  case (RemoveChannel i)
  show ?thesis
  proof (cases "i = ROOT_ID")
    case True
    then have "eff op m = m"
      using RemoveChannel by (intro client_model_eqI) (auto simp: eff_channels eff_users)
    then show ?thesis using True RemoveChannel by (simp add: apply_msg_def root_id_zero)
  next
    case False
    then show ?thesis using assms(2) RemoveChannel
      by (simp add: apply_msg_def op_safe_def occupant_of_None eff_def fm_set_def root_id_zero)
  qed
qed (use assms in \<open>simp_all add: apply_msg_def apply_created apply_patched apply_added apply_moved
      apply_user_patch op_safe_def eff_def [of "RemoveUser _"] fm_set_def\<close>)

text \<open>A run of operations that keeps the client coherent is accepted, message by message.\<close>

fun safe :: "(u32 \<Rightarrow> nat) \<Rightarrow> client_model \<Rightarrow> plan_op list \<Rightarrow> bool" where
  "safe r m [] = True"
| "safe r m (op # ops) = (op_safe op m \<and> coherent r (eff op m) \<and> safe r (eff op m) ops)"

lemma safe_append: "safe r m (xs @ ys) \<longleftrightarrow> safe r m xs \<and> safe r (fold eff xs m) ys"
  by (induction xs arbitrary: m) auto

lemma safe_coherent: "coherent r m \<Longrightarrow> safe r m ops \<Longrightarrow> coherent r (fold eff ops m)"
  by (induction ops arbitrary: m) auto

lemma safe_run:
  "coherent r m \<Longrightarrow> safe r m ops \<Longrightarrow> apply_msgs (map emit_op ops) m = Inr (fold eff ops m)"
  by (induction ops arbitrary: m) (auto simp: apply_emitted coherent_judged)

subsection \<open>The phases\<close>

lemma chan_dom_eff:
  "fmdom (cm_channels (eff (CreateChannel c) m)) = finsert (ch_id c) (fmdom (cm_channels m))"
  "fmdom (cm_channels (eff (UpdateChannel p) m)) = fmdom (cm_channels m)"
  by (rule fset_eqI; auto simp: fmlookup_dom_iff eff_channels)+

lemma coherent_create:
  assumes "coherent r m"
    and "ch_id c \<noteq> ROOT_ID \<Longrightarrow> ch_parent c |\<in>| fmdom (cm_channels m) \<and> r (ch_parent c) < r (ch_id c)"
  shows "coherent r (eff (CreateChannel c) m)"
  unfolding coherent_def chan_dom_eff
proof (intro conjI allI impI)
  show "\<exists>d. fmlookup (cm_channels (eff (CreateChannel c) m)) ROOT_ID = Some d \<and> mc_parent d = None"
    using assms(1) unfolding coherent_def
    by (auto simp: eff_channels created_over_def model_channel_of_def root_id_zero)
  show "mu_channel u |\<in>| finsert (ch_id c) (fmdom (cm_channels m))"
    if "fmlookup (cm_users (eff (CreateChannel c) m)) s = Some u" for s u
    using that coherentD(3) [OF assms(1)] by (auto simp: eff_users)
  fix i d p assume "fmlookup (cm_channels (eff (CreateChannel c) m)) i = Some d" and "mc_parent d = Some p"
  then show "p |\<in>| finsert (ch_id c) (fmdom (cm_channels m))" and "r p < r i"
    using assms(2) coherentD(4,5) [OF assms(1)]
    by (auto simp: eff_channels created_over_def model_channel_of_def root_id_zero split: if_splits)
qed

lemma safe_creates:
  "coherent r m \<Longrightarrow> parents_first known cs \<Longrightarrow> known |\<subseteq>| fmdom (cm_channels m) \<Longrightarrow>
   (\<And>c. c \<in> set cs \<Longrightarrow> ch_id c \<noteq> ROOT_ID \<Longrightarrow> r (ch_parent c) < r (ch_id c)) \<Longrightarrow>
   safe r m (map CreateChannel cs)"
proof (induction cs arbitrary: m known)
  case (Cons c cs)
  have ok: "coherent r (eff (CreateChannel c) m)"
    using Cons.prems(2-4) by (intro coherent_create [OF Cons.prems(1)]) fastforce
  moreover have "safe r (eff (CreateChannel c) m) (map CreateChannel cs)"
    using Cons.prems by (intro Cons.IH [OF ok, of "finsert (ch_id c) known"]) (auto simp: chan_dom_eff)
  ultimately show ?case by (simp add: op_safe_def)
qed simp

lemma coherent_update:
  assumes "coherent r m" and "cp_id p |\<in>| fmdom (cm_channels m)"
    and "\<And>q. cp_parent p = Some q \<Longrightarrow> cp_id p \<noteq> ROOT_ID \<Longrightarrow> q |\<in>| fmdom (cm_channels m) \<and> r q < r (cp_id p)"
  shows "coherent r (eff (UpdateChannel p) m)"
  unfolding coherent_def chan_dom_eff
proof (intro conjI allI impI)
  show "\<exists>d. fmlookup (cm_channels (eff (UpdateChannel p) m)) ROOT_ID = Some d \<and> mc_parent d = None"
    using assms(1) unfolding coherent_def by (auto simp: eff_channels patched_over_def)
  show "mu_channel u |\<in>| fmdom (cm_channels m)" if "fmlookup (cm_users (eff (UpdateChannel p) m)) s = Some u" for s u
    using that coherentD(3) [OF assms(1)] by (auto simp: eff_users)
  fix i d q assume "fmlookup (cm_channels (eff (UpdateChannel p) m)) i = Some d" and "mc_parent d = Some q"
  then show "q |\<in>| fmdom (cm_channels m)" and "r q < r i"
    using assms(3) coherentD(4,5) [OF assms(1)]
    by (auto simp: eff_channels patched_over_def split: if_splits)
qed

lemma safe_updates:
  "coherent r m \<Longrightarrow>
   (\<And>p. p \<in> set ps \<Longrightarrow> cp_id p |\<in>| fmdom (cm_channels m)) \<Longrightarrow>
   (\<And>p q. p \<in> set ps \<Longrightarrow> cp_parent p = Some q \<Longrightarrow> cp_id p \<noteq> ROOT_ID \<Longrightarrow>
      q |\<in>| fmdom (cm_channels m) \<and> r q < r (cp_id p)) \<Longrightarrow>
   safe r m (map UpdateChannel ps)"
proof (induction ps arbitrary: m)
  case (Cons p ps)
  have ok: "coherent r (eff (UpdateChannel p) m)"
    using Cons.prems by (intro coherent_update) auto
  moreover have "safe r (eff (UpdateChannel p) m) (map UpdateChannel ps)"
    using Cons.prems by (intro Cons.IH [OF ok]) (auto simp: chan_dom_eff)
  ultimately show ?case using Cons.prems(2) by (simp add: op_safe_def)
qed simp

fun user_op :: "u32 fset \<Rightarrow> plan_op \<Rightarrow> bool" where
  "user_op D (AddUser u) = (us_channel u |\<in>| D)"
| "user_op D (MoveUser _ c) = (c |\<in>| D)"
| "user_op D (UpdateUser _) = True"
| "user_op D (RemoveUser _) = True"
| "user_op D _ = False"

lemma user_op_channels: "user_op D op \<Longrightarrow> cm_channels (eff op m) = cm_channels m"
  by (cases op) (simp_all add: eff_def)

lemma coherent_user_op:
  assumes "coherent r m" and "user_op (fmdom (cm_channels m)) op"
  shows "coherent r (eff op m)"
proof -
  have "mu_channel u |\<in>| fmdom (cm_channels m)" if "fmlookup (cm_users (eff op m)) s = Some u" for s u
    using that assms(2) coherentD(3) [OF assms(1)]
    by (cases op) (auto simp: eff_users model_user_of_def split: if_splits)
  then show ?thesis
    using assms unfolding coherent_def user_op_channels [OF assms(2)] by blast
qed

lemma safe_user_ops:
  "coherent r m \<Longrightarrow> (\<And>op. op \<in> set ops \<Longrightarrow> user_op (fmdom (cm_channels m)) op) \<Longrightarrow> safe r m ops"
proof (induction ops arbitrary: m)
  case (Cons op ops)
  have op: "user_op (fmdom (cm_channels m)) op" using Cons.prems(2) by simp
  moreover have ok: "coherent r (eff op m)" using coherent_user_op [OF Cons.prems(1) op] .
  moreover have "safe r (eff op m) ops"
    using Cons.prems(2) by (intro Cons.IH [OF ok]) (simp add: user_op_channels [OF op])
  ultimately show ?case by (cases op) (auto simp: op_safe_def)
qed simp

text \<open>Withdrawing channels: nobody is in them, their children are withdrawn too, and earlier.\<close>

definition hangs_from :: "client_model \<Rightarrow> u32 \<Rightarrow> u32 \<Rightarrow> bool" where
  "hangs_from m i j \<longleftrightarrow> (\<exists>c. fmlookup (cm_channels m) j = Some c \<and> mc_parent c = Some i)"

lemma coherent_remove:
  assumes "coherent r m" and "i \<noteq> ROOT_ID"
    and "\<And>s u. fmlookup (cm_users m) s = Some u \<Longrightarrow> mu_channel u \<noteq> i" and "\<And>j. \<not> hangs_from m i j"
  shows "coherent r (eff (RemoveChannel i) m)"
  unfolding coherent_def
proof (intro conjI allI impI)
  show "\<exists>d. fmlookup (cm_channels (eff (RemoveChannel i) m)) ROOT_ID = Some d \<and> mc_parent d = None"
    using assms(1,2) unfolding coherent_def by (auto simp: eff_channels)
  show "mu_channel u |\<in>| fmdom (cm_channels (eff (RemoveChannel i) m))"
    if "fmlookup (cm_users (eff (RemoveChannel i) m)) s = Some u" for s u
    using that coherentD(3) [OF assms(1), of s u] assms(3) by (auto simp: eff_users fmlookup_dom_iff eff_channels)
  fix j d p assume "fmlookup (cm_channels (eff (RemoveChannel i) m)) j = Some d" and p: "mc_parent d = Some p"
  then have j: "fmlookup (cm_channels m) j = Some d" using assms(2) by (auto simp: eff_channels split: if_splits)
  moreover have "p \<noteq> i" using assms(4) j p by (auto simp: hangs_from_def)
  ultimately show "p |\<in>| fmdom (cm_channels (eff (RemoveChannel i) m))" and "r p < r j"
    using coherentD(4,5) [OF assms(1) j p] by (auto simp: fmlookup_dom_iff eff_channels)
qed

lemma safe_removals:
  "coherent r m \<Longrightarrow>
   (\<And>i s u. i \<in> set is \<Longrightarrow> i \<noteq> ROOT_ID \<Longrightarrow> fmlookup (cm_users m) s = Some u \<Longrightarrow> mu_channel u \<noteq> i) \<Longrightarrow>
   (\<And>i j. i \<in> set is \<Longrightarrow> i \<noteq> ROOT_ID \<Longrightarrow> hangs_from m i j \<Longrightarrow> j \<in> set is) \<Longrightarrow>
   sorted_wrt (\<lambda>i j. i \<noteq> ROOT_ID \<longrightarrow> \<not> hangs_from m i j) is \<Longrightarrow>
   safe r m (map RemoveChannel is)"
proof (induction "is" arbitrary: m)
  case (Cons i "is")
  show ?case
  proof (cases "i = ROOT_ID")
    case True
    then have "eff (RemoveChannel i) m = m" by (intro client_model_eqI) (auto simp: eff_channels eff_users)
    moreover have "safe r m (map RemoveChannel is)"
    proof (rule Cons.IH [OF Cons.prems(1)])
      fix j k assume "j \<in> set is" "j \<noteq> ROOT_ID" "hangs_from m j k"
      moreover then have "k \<in> set (i # is)" using Cons.prems(3) by (meson list.set_intros(2))
      moreover have "\<not> hangs_from m j ROOT_ID"
        using coherentD(2) [OF Cons.prems(1)] by (auto simp: hangs_from_def)
      ultimately show "k \<in> set is" using True by auto
    qed (use Cons.prems in \<open>auto\<close>)
    ultimately show ?thesis using True Cons.prems(1) by (simp add: op_safe_def)
  next
    case False
    have self: "\<not> hangs_from m i i" using coherentD(5) [OF Cons.prems(1)] by (fastforce simp: hangs_from_def)
    have free: "\<not> hangs_from m i j" for j
      using Cons.prems(3) [of i j] Cons.prems(4) False self by auto
    have ok: "coherent r (eff (RemoveChannel i) m)"
      using Cons.prems(1,2) False free by (intro coherent_remove) auto
    have less: "hangs_from (eff (RemoveChannel i) m) j k \<Longrightarrow> hangs_from m j k \<and> k \<noteq> i" for j k
      using False by (auto simp: hangs_from_def eff_channels split: if_splits)
    have "safe r (eff (RemoveChannel i) m) (map RemoveChannel is)"
    proof (rule Cons.IH [OF ok])
      show "sorted_wrt (\<lambda>j k. j \<noteq> ROOT_ID \<longrightarrow> \<not> hangs_from (eff (RemoveChannel i) m) j k) is"
        using Cons.prems(4) less by (auto elim!: sorted_wrt_mono_rel [rotated])
      show "k \<in> set is" if "j \<in> set is" "j \<noteq> ROOT_ID" "hangs_from (eff (RemoveChannel i) m) j k" for j k
        using Cons.prems(3) [of j k] less [OF that(3)] that by auto
    qed (use Cons.prems(2) in \<open>auto simp: eff_users\<close>)
    then show ?thesis using ok Cons.prems(2) by (auto simp: op_safe_def)
  qed
qed simp

subsection \<open>Introducing oneself first\<close>

text \<open>Moving the own session to the front of a run of user additions changes no effect and stays safe.\<close>

lemma self_addition_target: "is_add_user op \<Longrightarrow> is_self_addition self op \<longleftrightarrow> target op = UserEl self"
  by (cases op) auto

lemma filter_target_partition:
  assumes "\<And>op. op \<in> set run \<Longrightarrow> is_add_user op"
  shows "filter (\<lambda>op. target op = e) (filter (is_self_addition self) run @ filter (\<lambda>op. \<not> is_self_addition self op) run)
     = filter (\<lambda>op. target op = e) run"
proof (cases "e = UserEl self")
  case True
  have "filter (\<lambda>op. target op = e \<and> is_self_addition self op) run = filter (\<lambda>op. target op = e) run"
    "filter (\<lambda>op. target op = e \<and> \<not> is_self_addition self op) run = []"
    using assms True by (auto intro!: filter_cong simp: filter_empty_conv self_addition_target)
  then show ?thesis by (simp add: conj_commute)
next
  case False
  have "filter (\<lambda>op. target op = e \<and> \<not> is_self_addition self op) run = filter (\<lambda>op. target op = e) run"
    "filter (\<lambda>op. target op = e \<and> is_self_addition self op) run = []"
    using assms False by (auto intro!: filter_cong simp: filter_empty_conv self_addition_target)
  then show ?thesis by (simp add: conj_commute)
qed

lemma fold_eff_partition:
  assumes "\<And>op. op \<in> set run \<Longrightarrow> is_add_user op"
  shows "fold eff (filter (is_self_addition self) run @ filter (\<lambda>op. \<not> is_self_addition self op) run) m = fold eff run m"
  by (rule client_model_eqI) (simp_all only: fold_eff_channels fold_eff_users filter_target_partition [OF assms])

lemma safe_adds_user_op:
  "safe r m run \<Longrightarrow> (\<And>op. op \<in> set run \<Longrightarrow> is_add_user op) \<Longrightarrow> op \<in> set run \<Longrightarrow> user_op (fmdom (cm_channels m)) op"
proof (induction run arbitrary: m)
  case (Cons x run)
  obtain u where x: "x = AddUser u" using Cons.prems(2) [of x] by (cases x) auto
  have chans: "cm_channels (eff x m) = cm_channels m" by (simp add: x eff_def)
  have "us_channel u |\<in>| fmdom (cm_channels m)"
    using coherentD(3) [of r "eff x m" "us_session u" "model_user_of u"] Cons.prems(1) chans
    by (simp add: x eff_users model_user_of_def)
  moreover have "op \<noteq> x \<Longrightarrow> user_op (fmdom (cm_channels (eff x m))) op"
    using Cons by (intro Cons.IH) auto
  ultimately show ?case using x chans by (cases "op = x") auto
qed simp

lemma self_first_safe:
  "coherent r m \<Longrightarrow> safe r m ops \<Longrightarrow> safe r m (self_first ops self) \<and> fold eff (self_first ops self) m = fold eff ops m"
proof (induction ops self arbitrary: m rule: self_first.induct)
  case (2 op ops self)
  show ?case
  proof (cases "is_add_user op")
    case False
    then show ?thesis using "2.IH"(1) [of "eff op m"] "2.prems" by simp
  next
    case True
    let ?run = "takeWhile is_add_user (op # ops)" and ?rest = "dropWhile is_add_user (op # ops)"
    let ?part = "filter (is_self_addition self) ?run @ filter (\<lambda>o'. \<not> is_self_addition self o') ?run"
    have adds: "\<And>o'. o' \<in> set ?run \<Longrightarrow> is_add_user o'" by (metis set_takeWhileD)
    have split: "op # ops = ?run @ ?rest" by simp
    have safe: "safe r m ?run" "safe r (fold eff ?run m) ?rest"
      using "2.prems"(2) safe_append split by metis+
    have part: "safe r m ?part"
      using safe_adds_user_op [OF safe(1) adds] by (intro safe_user_ops [OF "2.prems"(1)]) auto
    have same: "fold eff ?part m = fold eff ?run m" by (rule fold_eff_partition [OF adds])
    have IH: "safe r (fold eff ?run m) (self_first ?rest self)"
      "fold eff (self_first ?rest self) (fold eff ?run m) = fold eff ?rest (fold eff ?run m)"
      using "2.IH"(2) [OF _ refl safe_coherent [OF "2.prems"(1) safe(1)] safe(2)] True by auto
    have unfolded: "self_first (op # ops) self = ?part @ self_first ?rest self"
      using True by (simp add: Let_def)
    have "safe r m (?part @ self_first ?rest self)"
      using part IH(1) same safe_append by metis
    moreover have "fold eff (?part @ self_first ?rest self) m = fold eff (?run @ ?rest) m"
      using same IH(2) by (metis comp_apply fold_append)
    ultimately show ?thesis using unfolded split by metis
  qed
qed simp

lemma safe_emit:
  assumes "coherent r m" and "safe r m ops"
  shows "apply_msgs (emit ops self) m = Inr (fold eff ops m)"
  unfolding emit_def using self_first_safe [OF assms, of self] safe_run [OF assms(1)] by auto

end
