(* ===== verification/Transition.thy ===== *)
theory Transition
  imports Client_Run
begin

text \<open>
  The composed transition of one connection as a list of phases: the visible shared additions,
  the overlay withdrawals, the overlay additions, the shared withdrawals
  (\<open>plan_elements\<close> of \<open>plan.rs\<close>, \<open>splice\<close> and \<open>collapse\<close> of \<open>compose.rs\<close>), with what each
  phase contributes to each element. The refinement lemma is at the end: on the strict client
  the transition leads from what the connection held to what it should hold, and every message
  on the way is accepted.
\<close>

subsection \<open>The overlay plan\<close>

definition elem_create :: "overlay \<Rightarrow> channel_id \<times> channel \<Rightarrow> channel option" where
  "elem_create ob e = (case fmlookup (ov_channels ob) (fst e) of Some _ \<Rightarrow> None | None \<Rightarrow> Some (snd e))"

definition elem_update :: "overlay \<Rightarrow> channel_id \<times> channel \<Rightarrow> plan_op option" where
  "elem_update ob e = (case fmlookup (ov_channels ob) (fst e) of
     Some old \<Rightarrow> if channel_patch_is_noop (channel_patch_of old (snd e)) then None
                 else Some (UpdateChannel (channel_patch_of old (snd e)))
   | None \<Rightarrow> None)"

definition elem_user_ops :: "overlay \<Rightarrow> session_id \<times> user \<Rightarrow> plan_op list" where
  "elem_user_ops ob e = (case fmlookup (ov_users ob) (fst e) of
     Some old \<Rightarrow>
       (if us_channel old \<noteq> us_channel (snd e) then [MoveUser (fst e) (us_channel (snd e))] else [])
       @ (if user_patch_is_noop (user_patch_of old (snd e)) then [] else [UpdateUser (user_patch_of old (snd e))])
   | None \<Rightarrow> [AddUser (snd e)])"

abbreviation overlay_creates :: "overlay \<Rightarrow> overlay \<Rightarrow> channel list" where
  "overlay_creates ob oa \<equiv> filter_map (elem_create ob) (items (ov_channels oa))"

definition overlay_gone_users :: "overlay \<Rightarrow> overlay \<Rightarrow> session_id list" where
  "overlay_gone_users ob oa = filter (\<lambda>s. \<not> fm_has (ov_users oa) s) (fkeys (ov_users ob))"

definition overlay_gone_channels :: "overlay \<Rightarrow> overlay \<Rightarrow> channel_id list" where
  "overlay_gone_channels ob oa = map fst (sort_key (\<lambda>(i, d). (- uint d, i))
     (map (\<lambda>i. (i, overlay_depth (ov_channels ob) i))
       (filter (\<lambda>i. \<not> fm_has (ov_channels oa) i) (fkeys (ov_channels ob)))))"

lemma elem_update_Some:
  "elem_update ob (i, new) = Some op \<longleftrightarrow> (\<exists>old. fmlookup (ov_channels ob) i = Some old \<and>
     \<not> channel_patch_is_noop (channel_patch_of old new) \<and> op = UpdateChannel (channel_patch_of old new))"
  by (auto simp: elem_update_def split: option.splits)

lemma elem_create_Some:
  "elem_create ob (i, new) = Some c \<longleftrightarrow> fmlookup (ov_channels ob) i = None \<and> c = new"
  by (auto simp: elem_create_def split: option.splits)

lemma elem_channel_step:
  "elem_channel ob e acc = acc\<lparr>
     ea_creates := ea_creates acc @ filter_map (elem_create ob) [e],
     ea_additions := ea_additions acc @ filter_map (elem_update ob) [e]\<rparr>"
  by (cases e; cases "fmlookup (ov_channels ob) (fst e)")
    (simp_all add: elem_channel_def elem_create_def elem_update_def Let_def)

lemma elem_user_step:
  "elem_user ob e acc = acc\<lparr>ea_trailing := ea_trailing acc @ elem_user_ops ob e\<rparr>"
  by (cases e; cases "fmlookup (ov_users ob) (fst e)")
    (simp_all add: elem_user_def elem_user_ops_def Let_def)

lemma fold_elem_channel:
  "fold (elem_channel ob) es acc = acc\<lparr>
     ea_creates := ea_creates acc @ filter_map (elem_create ob) es,
     ea_additions := ea_additions acc @ filter_map (elem_update ob) es\<rparr>"
  by (induction es arbitrary: acc) (simp_all add: elem_channel_step filter_map_Cons_append del: filter_map_simps(2))

lemma fold_elem_user:
  "fold (elem_user ob) es acc = acc\<lparr>ea_trailing := ea_trailing acc @ concat (map (elem_user_ops ob) es)\<rparr>"
  by (induction es arbitrary: acc) (simp_all add: elem_user_step)

lemma plan_elements_phases:
  "oo_additions (plan_elements ob oa) =
     map CreateChannel (order_creations (overlay_creates ob oa) empty_view)
     @ filter_map (elem_update ob) (items (ov_channels oa))
     @ concat (map (elem_user_ops ob) (items (ov_users oa)))"
  "oo_removals (plan_elements ob oa) =
     map RemoveUser (overlay_gone_users ob oa) @ map RemoveChannel (overlay_gone_channels ob oa)"
  by (simp_all add: plan_elements_def Let_def fold_elem_channel fold_elem_user overlay_gone_users_def
      overlay_gone_channels_def)

subsection \<open>Splice and collapse, by phases\<close>

definition shared_creates :: "shard_view \<Rightarrow> shard_view \<Rightarrow> plan_op list" where
  "shared_creates b a = map CreateChannel (order_creations (creates_of b a) b)"

definition shared_updates :: "shard_view \<Rightarrow> shard_view \<Rightarrow> plan_op list" where
  "shared_updates b a = map po_op (filter_map (chan_update b) (items (sv_channels a)))"

definition shared_users :: "shard_view \<Rightarrow> shard_view \<Rightarrow> plan_op list" where
  "shared_users b a = map po_op (filter_map (user_add b) (items (sv_users a)))
     @ map po_op (filter_map (user_move b) (items (sv_users a)))
     @ map po_op (filter_map (user_update b) (items (sv_users a)))"

definition overlay_channel_adds :: "overlay \<Rightarrow> overlay \<Rightarrow> plan_op list" where
  "overlay_channel_adds ob oa = map CreateChannel (order_creations (overlay_creates ob oa) empty_view)"

definition overlay_channel_updates :: "overlay \<Rightarrow> overlay \<Rightarrow> plan_op list" where
  "overlay_channel_updates ob oa = filter_map (elem_update ob) (items (ov_channels oa))"

definition overlay_user_ops :: "overlay \<Rightarrow> overlay \<Rightarrow> plan_op list" where
  "overlay_user_ops ob oa = concat (map (elem_user_ops ob) (items (ov_users oa)))"

lemma plan_with_ops:
  "map po_op (plan_with ws b a) = (shared_creates b a @ shared_updates b a @ shared_users b a)
     @ map po_op ws @ map RemoveChannel (map fst (order_removals (withdrawn_channels b a) b))"
  by (simp add: plan_with_def shared_creates_def shared_updates_def shared_users_def planned_def
      comp_def case_prod_beta)

lemma boundary_append:
  assumes "\<And>op. op \<in> set xs \<Longrightarrow> \<not> is_removal op" and "\<And>op. op \<in> set ys \<Longrightarrow> is_removal op"
  shows "boundary (xs @ ys) = length xs"
proof -
  have "takeWhile (\<lambda>op. \<not> is_removal op) ys = []" using assms(2) by (cases ys) auto
  then show ?thesis unfolding boundary_def using assms(1) by (simp add: takeWhile_append2)
qed

lemma splice_phases:
  assumes "\<And>op. op \<in> set xs \<Longrightarrow> \<not> is_removal op" and "\<And>op. op \<in> set ys \<Longrightarrow> is_removal op"
  shows "splice_ops (xs @ ys) p = xs @ oo_removals p @ oo_additions p @ ys"
  by (simp add: splice_ops_def boundary_append [OF assms])

definition undone :: "plan_op list \<Rightarrow> plan_op \<Rightarrow> bool" where
  "undone ops op \<longleftrightarrow> (case removed op of Some e \<Rightarrow> (\<exists>x \<in> set ops. added x = Some e) | None \<Rightarrow> False)"

lemma collapse_filter: "collapse ops = filter (\<lambda>op. \<not> undone ops op) ops"
  unfolding collapse_def Let_def undone_def
  by (intro filter_cong refl) (auto simp: fset_of_list_elem in_set_filter_map split: option.splits)

lemma not_removal_not_undone: "\<not> is_removal op \<Longrightarrow> \<not> undone ops op"
  by (cases op) (auto simp: undone_def)

lemma collapse_phases:
  assumes "\<And>op. op \<in> set xs \<Longrightarrow> \<not> is_removal op" and "\<And>op. op \<in> set ys \<Longrightarrow> \<not> is_removal op"
    and "\<And>op. op \<in> set rs \<Longrightarrow> is_removal op" and "\<And>op. op \<in> set ts \<Longrightarrow> is_removal op"
  shows "collapse (xs @ rs @ ys @ ts) =
     xs @ filter (\<lambda>op. \<not> undone (xs @ ys) op) rs @ ys @ filter (\<lambda>op. \<not> undone (xs @ ys) op) ts"
proof -
  have none: "added op = None" if "is_removal op" for op using that by (cases op) auto
  have "undone (xs @ rs @ ys @ ts) op \<longleftrightarrow> undone (xs @ ys) op" for op
    using none assms(3,4) unfolding undone_def by (force split: option.splits)
  moreover have "filter (\<lambda>op. \<not> undone zs op) xs = xs" "filter (\<lambda>op. \<not> undone zs op) ys = ys" for zs
    using assms(1,2) not_removal_not_undone by (auto simp: filter_id_conv)
  ultimately show ?thesis by (simp add: collapse_filter)
qed

subsection \<open>What a phase contributes to one element\<close>

lemma filter_map_items_target:
  assumes "\<And>k v y. fmlookup m k = Some v \<Longrightarrow> f (k, v) = Some y \<Longrightarrow> tgt y = K k" and "inj K"
  shows "filter (\<lambda>y. tgt y = K k) (filter_map f (items m)) =
     (case fmlookup m k of None \<Rightarrow> [] | Some v \<Rightarrow> (case f (k, v) of None \<Rightarrow> [] | Some y \<Rightarrow> [y]))"
proof -
  have gen: "filter (\<lambda>y. tgt y = K k) (filter_map f es) =
     (case map_of es k of None \<Rightarrow> [] | Some v \<Rightarrow> (case f (k, v) of None \<Rightarrow> [] | Some y \<Rightarrow> [y]))"
    if "distinct (map fst es)" "\<And>j v y. (j, v) \<in> set es \<Longrightarrow> f (j, v) = Some y \<Longrightarrow> tgt y = K j" for es
    using that
  proof (induction es)
    case (Cons e es)
    obtain j v where e: "e = (j, v)" by (cases e)
    have IH: "filter (\<lambda>y. tgt y = K k) (filter_map f es) =
     (case map_of es k of None \<Rightarrow> [] | Some v \<Rightarrow> (case f (k, v) of None \<Rightarrow> [] | Some y \<Rightarrow> [y]))"
      using Cons.prems by (intro Cons.IH) auto
    have "j = k \<Longrightarrow> map_of es k = None" using Cons.prems(1) e by (auto simp: map_of_eq_None_iff)
    moreover have "f (j, v) = Some y \<Longrightarrow> tgt y = K j" for y using Cons.prems(2) [of j v y] e by simp
    ultimately show ?case using IH e assms(2) by (cases "f (j, v)") (auto simp: inj_eq)
  qed simp
  have "map_of (items m) k = fmlookup m k"
    by (cases "fmlookup m k") (auto simp: map_of_eq_None_iff fst_image_items notin_fmdom_iff in_set_items map_of_eq_Some_iff)
  then show ?thesis using gen [of "items m"] assms(1) by (simp add: in_set_items)
qed

lemma filter_perm_unique:
  assumes "mset xs = mset ys" and "length (filter P ys) \<le> 1"
  shows "filter P xs = filter P ys"
proof -
  have same: "mset (filter P xs) = mset (filter P ys)" using assms(1) by simp
  show ?thesis
  proof (cases "filter P ys")
    case Nil
    then show ?thesis using same by (metis mset_zero_iff)
  next
    case (Cons y zs)
    then have "filter P ys = [y]" using assms(2) by simp
    then show ?thesis using same by (metis mset_single_iff mset.simps)
  qed
qed

lemma inj_elements: "inj ChannelEl" "inj UserEl" "inj (\<lambda>x. x)"
  by (auto simp: inj_def)

abbreviation on_channel :: "channel_id \<Rightarrow> plan_op list \<Rightarrow> plan_op list" where
  "on_channel i \<equiv> filter (\<lambda>op. target op = ChannelEl i)"

abbreviation on_user :: "session_id \<Rightarrow> plan_op list \<Rightarrow> plan_op list" where
  "on_user s \<equiv> filter (\<lambda>op. target op = UserEl s)"

lemma on_creates:
  assumes "\<And>k c. fmlookup m k = Some c \<Longrightarrow> ch_id c = k" and "\<And>k c d. f (k, c) = Some d \<Longrightarrow> d = c"
  shows "on_channel i (map CreateChannel (order_creations (filter_map f (items m)) v)) =
     (case fmlookup m i of None \<Rightarrow> [] | Some c \<Rightarrow> (case f (i, c) of None \<Rightarrow> [] | Some d \<Rightarrow> [CreateChannel d]))"
proof -
  have one: "filter (\<lambda>c. ch_id c = i) (filter_map f (items m)) =
      (case fmlookup m i of None \<Rightarrow> [] | Some c \<Rightarrow> (case f (i, c) of None \<Rightarrow> [] | Some d \<Rightarrow> [d]))"
    using filter_map_items_target [of m f ch_id "\<lambda>x. x" i] assms inj_elements(3) by metis
  have "filter (\<lambda>c. ch_id c = i) (order_creations (filter_map f (items m)) v)
      = filter (\<lambda>c. ch_id c = i) (filter_map f (items m))"
    by (rule filter_perm_unique) (simp_all add: one order_creations_def mset_order_loop split: option.splits)
  then show ?thesis by (simp add: filter_map comp_def one split: option.splits)
qed

lemma on_updates:
  assumes "\<And>k c. fmlookup m k = Some c \<Longrightarrow> ch_id c = k"
    and "\<And>k c y. f (k, c) = Some y \<Longrightarrow> target y = ChannelEl (ch_id c)"
  shows "on_channel i (filter_map f (items m)) =
     (case fmlookup m i of None \<Rightarrow> [] | Some c \<Rightarrow> (case f (i, c) of None \<Rightarrow> [] | Some y \<Rightarrow> [y]))"
  using assms inj_elements(1) by (intro filter_map_items_target) auto

lemma on_user_vector:
  assumes "\<And>k u y. fmlookup m k = Some u \<Longrightarrow> f (k, u) = Some y \<Longrightarrow> target y = UserEl k"
  shows "on_user s (filter_map f (items m)) =
     (case fmlookup m s of None \<Rightarrow> [] | Some u \<Rightarrow> (case f (s, u) of None \<Rightarrow> [] | Some y \<Rightarrow> [y]))"
  using assms inj_elements(2) by (intro filter_map_items_target) auto

lemma map_filter_map: "map g (filter_map f xs) = filter_map (\<lambda>x. map_option g (f x)) xs"
  by (induction xs) (auto split: option.splits)

lemma fold_removals:
  assumes "\<forall>op \<in> set xs. is_removal op"
  shows "fmlookup (cm_users (fold eff xs m)) s = (if RemoveUser s \<in> set xs then None else fmlookup (cm_users m) s)"
    and "fmlookup (cm_channels (fold eff xs m)) i =
      (if RemoveChannel i \<in> set xs \<and> i \<noteq> ROOT_ID then None else fmlookup (cm_channels m) i)"
proof -
  have u: "fmlookup (cm_users (eff op m)) s = (if op = RemoveUser s then None else fmlookup (cm_users m) s)"
    and c: "fmlookup (cm_channels (eff op m)) i =
      (if op = RemoveChannel i \<and> i \<noteq> ROOT_ID then None else fmlookup (cm_channels m) i)"
    if "is_removal op" for op m
    using that by (cases op; auto simp: eff_users eff_channels)+
  show "fmlookup (cm_users (fold eff xs m)) s = (if RemoveUser s \<in> set xs then None else fmlookup (cm_users m) s)"
    using assms by (induction xs arbitrary: m) (simp_all add: u)
  show "fmlookup (cm_channels (fold eff xs m)) i =
      (if RemoveChannel i \<in> set xs \<and> i \<noteq> ROOT_ID then None else fmlookup (cm_channels m) i)"
    using assms
  proof (induction xs arbitrary: m)
    case (Cons x xs)
    then show ?case using c [of x m] Cons.IH [of "eff x m"] by auto
  qed simp
qed

text \<open>Operations on users leave the channels alone, and the other way round.\<close>

definition channel_ops :: "plan_op list \<Rightarrow> bool" where
  "channel_ops ops \<longleftrightarrow> (\<forall>op \<in> set ops. \<exists>i. target op = ChannelEl i)"

definition user_ops :: "plan_op list \<Rightarrow> bool" where
  "user_ops ops \<longleftrightarrow> (\<forall>op \<in> set ops. \<exists>s. target op = UserEl s)"

lemma fold_eff_other:
  "user_ops ops \<Longrightarrow> cm_channels (fold eff ops m) = cm_channels m"
  "channel_ops ops \<Longrightarrow> cm_users (fold eff ops m) = cm_users m"
  by (induction ops arbitrary: m) (auto simp: user_ops_def channel_ops_def eff_def)

subsection \<open>Patches lead from the old element to the new one\<close>

lemma patch_fields:
  "cp_id (channel_patch_of old new) = ch_id new"
  "cp_parent (channel_patch_of old new) = (if ch_parent old = ch_parent new then None else Some (ch_parent new))"
  "cp_name (channel_patch_of old new) = (if ch_name old = ch_name new then None else Some (ch_name new))"
  "cp_position (channel_patch_of old new) = (if ch_position old = ch_position new then None else Some (ch_position new))"
  "cp_can_enter (channel_patch_of old new) = (if ch_can_enter old = ch_can_enter new then None else Some (ch_can_enter new))"
  "cp_links_added (channel_patch_of old new) = ch_links new |-| ch_links old"
  "cp_links_removed (channel_patch_of old new) = ch_links old |-| ch_links new"
  by (simp_all add: channel_patch_of_def Let_def empty_patch_def)

lemma patched_over_patch:
  "ch_id old = ch_id new \<Longrightarrow> patched_over (channel_patch_of old new) (model_channel_of old) = model_channel_of new"
  by (auto simp: patched_over_def patch_fields model_channel_of_def merge_def root_id_zero)

lemma noop_patch:
  "ch_id old = ch_id new \<Longrightarrow> channel_patch_is_noop (channel_patch_of old new) \<Longrightarrow> model_channel_of old = model_channel_of new"
  using patched_over_patch [of old new]
  by (cases "model_channel_of old") (auto simp: channel_patch_is_noop_def patched_over_def merge_def)

lemma created_over_model:
  "(ch_links c = {||} \<Longrightarrow> \<forall>o'. old = Some o' \<longrightarrow> mc_links o' = {||}) \<Longrightarrow> created_over c old = model_channel_of c"
  by (auto simp: created_over_def model_channel_of_def split: option.splits)

lemma updated_user:
  "us_session old = us_session new \<Longrightarrow>
   fold user_eff ((if us_channel old \<noteq> us_channel new then [MoveUser s (us_channel new)] else [])
       @ (if user_patch_is_noop (user_patch_of old new) then [] else [UpdateUser (user_patch_of old new)]))
     (Some (model_user_of old)) = Some (model_user_of new)"
  by (auto simp: user_patch_is_noop_def user_patch_of_def model_user_of_def merge_def)

subsection \<open>Transitions that can be handed over\<close>

text \<open>
  A channel that is sent whole although the client has it (it changes scope, or moves between
  the shared view and the overlay) must not lose all of its links: an empty list of links is no
  instruction to the client.
\<close>

definition resent :: "shard_view \<Rightarrow> overlay \<Rightarrow> shard_view \<Rightarrow> overlay \<Rightarrow> channel_id \<Rightarrow> bool" where
  "resent b ob a oa i \<longleftrightarrow>
     \<not> (i |\<in>| fmdom (ov_channels ob) \<and> i |\<in>| fmdom (ov_channels oa)) \<and>
     (case (fmlookup (sv_channels b) i, fmlookup (sv_channels a) i) of
        (Some old, Some new) \<Rightarrow> ch_scope old \<noteq> ch_scope new | _ \<Rightarrow> True)"

definition keeps_links :: "shard_view \<Rightarrow> overlay \<Rightarrow> shard_view \<Rightarrow> overlay \<Rightarrow> bool" where
  "keeps_links b ob a oa \<longleftrightarrow>
     (\<forall>i old new. fmlookup (sv_channels (compose b ob)) i = Some old \<longrightarrow>
        fmlookup (sv_channels (compose a oa)) i = Some new \<longrightarrow> resent b ob a oa i \<longrightarrow>
        ch_links new = {||} \<longrightarrow> ch_links old = {||})"

text \<open>
  The overlay's own conditions: what stays private does not sit in a private channel that is
  withdrawn, and among the private channels created at once a parent has a smaller id.
\<close>

definition settled :: "overlay \<Rightarrow> shard_view \<Rightarrow> overlay \<Rightarrow> bool" where
  "settled ob a oa \<longleftrightarrow>
     (\<forall>s old. fmlookup (ov_users ob) s = Some old \<longrightarrow> s |\<in>| fmdom (ov_users oa) \<longrightarrow>
        us_channel old |\<in>| fmdom (ov_channels ob) \<longrightarrow> us_channel old |\<in>| fmdom (sv_channels (compose a oa))) \<and>
     (\<forall>i old. fmlookup (ov_channels ob) i = Some old \<longrightarrow> i |\<in>| fmdom (ov_channels oa) \<longrightarrow>
        ch_parent old |\<in>| fmdom (ov_channels ob) \<longrightarrow> ch_parent old |\<in>| fmdom (sv_channels (compose a oa))) \<and>
     (\<forall>c \<in> set (overlay_creates ob oa). \<forall>d \<in> set (overlay_creates ob oa).
        ch_parent c = ch_id d \<longrightarrow> ch_id d \<le> ch_id c)"

definition transition_ok :: "(channel_id \<Rightarrow> nat) \<Rightarrow> shard_view \<Rightarrow> overlay \<Rightarrow> shard_view \<Rightarrow> overlay \<Rightarrow> bool" where
  "transition_ok r b ob a oa \<longleftrightarrow>
     view_ok b \<and> view_ok a \<and> view_ok (compose b ob) \<and> view_ok (compose a oa) \<and> apart b ob \<and> apart a oa \<and>
     ranked r (sv_channels (compose b ob)) \<and> ranked r (sv_channels (compose a oa)) \<and>
     ROOT_ID |\<in>| fmdom (sv_channels a) \<and> keeps_links b ob a oa \<and> settled ob a oa"

lemma apartD:
  assumes "apart v ov"
  shows "fmlookup (ov_channels ov) i = Some c \<Longrightarrow> fmlookup (sv_channels v) i = None"
    and "fmlookup (sv_channels v) i = Some c \<Longrightarrow> fmlookup (ov_channels ov) i = None"
    and "fmlookup (ov_users ov) s = Some u \<Longrightarrow> fmlookup (sv_users v) s = None"
    and "fmlookup (sv_users v) s = Some u \<Longrightarrow> fmlookup (ov_users ov) s = None"
  using assms unfolding apart_def by (metis fmdomI fmdom_notD finter_iff fempty_iff)+

lemma overlay_keyed:
  assumes "view_ok (compose v ov)"
  shows "fmlookup (ov_channels ov) i = Some c \<Longrightarrow> ch_id c = i"
    and "fmlookup (ov_users ov) s = Some u \<Longrightarrow> us_session u = s"
  using view_okD(1,2) [OF assms] by (auto simp: compose_lookup)

lemma transition_okD:
  assumes "transition_ok r b ob a oa"
  shows "view_ok b" "view_ok a" "view_ok (compose b ob)" "view_ok (compose a oa)" "apart b ob" "apart a oa"
    "ranked r (sv_channels (compose b ob))" "ranked r (sv_channels (compose a oa))"
    "ROOT_ID |\<in>| fmdom (sv_channels a)" "keeps_links b ob a oa" "settled ob a oa"
  using assms by (simp_all add: transition_ok_def)

lemma view_ok_keyed: "view_ok v \<Longrightarrow> view_keyed v"
  by (simp add: view_ok_def)

lemma coherent_model:
  assumes "view_ok v" and "ranked r (sv_channels v)"
  shows "coherent r (model_of v)"
  unfolding coherent_def
proof (intro conjI allI impI)
  note lk = model_of_channel [OF view_ok_keyed [OF assms(1)]] and uk = model_of_user [OF view_ok_keyed [OF assms(1)]]
  show "\<exists>c. fmlookup (cm_channels (model_of v)) ROOT_ID = Some c \<and> mc_parent c = None"
    using view_okD(1) [OF assms(1), of ROOT_ID]
    by (auto simp: lk root_model_def model_channel_of_def root_id_zero split: option.splits)
  show "mu_channel u |\<in>| fmdom (cm_channels (model_of v))" if u: "fmlookup (cm_users (model_of v)) s = Some u" for s u
  proof -
    obtain z where z: "fmlookup (sv_users v) s = Some z" "u = model_user_of z" using u by (auto simp: uk)
    then obtain p where "fmlookup (sv_channels v) (us_channel z) = Some p" using view_okD(4) [OF assms(1)] by blast
    then show ?thesis using z(2) by (auto simp: fmlookup_dom_iff lk model_user_of_def)
  qed
  fix i c p assume "fmlookup (cm_channels (model_of v)) i = Some c" and p: "mc_parent c = Some p"
  then obtain d where d: "fmlookup (sv_channels v) i = Some d" "c = model_channel_of d"
    by (auto simp: lk root_model_def split: option.splits if_splits)
  then have i: "i \<noteq> ROOT_ID" "p = ch_parent d"
    using p view_okD(1) [OF assms(1)] by (auto simp: model_channel_of_def root_id_zero split: if_splits)
  show "p |\<in>| fmdom (cm_channels (model_of v))"
    using view_okD(3) [OF assms(1) d(1)] i by (auto simp: fmlookup_dom_iff lk split: option.splits)
  show "r p < r i" using ranked_parent [OF assms(2) d(1)] i by simp
qed

subsection \<open>After the shared additions\<close>

lemma phase_kinds:
  "user_ops (shared_users b a)" "channel_ops (shared_creates b a)" "channel_ops (shared_updates b a)"
  "user_ops (overlay_user_ops ob oa)" "channel_ops (overlay_channel_adds ob oa)" "channel_ops (overlay_channel_updates ob oa)"
proof -
  show "user_ops (shared_users b a)"
    unfolding shared_users_def user_ops_def map_filter_map
    by (auto simp: in_filter_map_items plan_step_iffs planned_def)
  show "channel_ops (shared_updates b a)"
    unfolding shared_updates_def channel_ops_def map_filter_map
    by (auto simp: in_filter_map_items plan_step_iffs planned_def)
  show "user_ops (overlay_user_ops ob oa)"
    unfolding overlay_user_ops_def user_ops_def
    by (auto simp: elem_user_ops_def split: option.splits if_splits)
  show "channel_ops (overlay_channel_updates ob oa)"
    unfolding overlay_channel_updates_def channel_ops_def
    by (auto simp: in_filter_map_items elem_update_Some)
qed (auto simp: shared_creates_def overlay_channel_adds_def channel_ops_def)

lemma on_shared_creates:
  "view_ok a \<Longrightarrow> on_channel i (shared_creates b a) = (case fmlookup (sv_channels a) i of None \<Rightarrow> []
     | Some new \<Rightarrow> (case chan_create b (i, new) of None \<Rightarrow> [] | Some c \<Rightarrow> [CreateChannel c]))"
  unfolding shared_creates_def using view_okD(1) by (intro on_creates) (auto simp: plan_step_iffs)

lemma on_shared_updates:
  assumes "view_ok a"
  shows "on_channel i (shared_updates b a) = (case fmlookup (sv_channels a) i of None \<Rightarrow> []
     | Some new \<Rightarrow> (case chan_update b (i, new) of None \<Rightarrow> [] | Some p \<Rightarrow> [po_op p]))"
proof -
  have "on_channel i (filter_map (\<lambda>e. map_option po_op (chan_update b e)) (items (sv_channels a))) =
    (case fmlookup (sv_channels a) i of None \<Rightarrow> []
     | Some new \<Rightarrow> (case map_option po_op (chan_update b (i, new)) of None \<Rightarrow> [] | Some y \<Rightarrow> [y]))"
    using view_okD(1) [OF assms] by (intro on_updates) (auto simp: plan_step_iffs planned_def patch_fields)
  then show ?thesis unfolding shared_updates_def map_filter_map by (auto split: option.splits)
qed

lemma after_shared_channels:
  assumes ok: "transition_ok r b ob a oa"
  shows "fmlookup (cm_channels (fold eff (shared_creates b a @ shared_updates b a @ shared_users b a) (model_of (compose b ob)))) i
     = (case fmlookup (sv_channels a) i of Some new \<Rightarrow> Some (model_channel_of new)
        | None \<Rightarrow> fmlookup (cm_channels (model_of (compose b ob))) i)"
proof (cases "fmlookup (sv_channels a) i")
  case None
  then show ?thesis
    by (simp add: fold_eff_other phase_kinds fold_eff_channels on_shared_creates on_shared_updates
        transition_okD(2) [OF ok])
next
  case (Some new)
  note D = transition_okD [OF ok]
  have id: "ch_id new = i" using view_okD(1) [OF D(2) Some] .
  have A: "fmlookup (sv_channels (compose a oa)) i = Some new"
    using apartD(2) [OF D(6) Some] Some by (simp add: compose_lookup)
  let ?old = "fmlookup (cm_channels (model_of (compose b ob))) i"
  have whole: "created_over new ?old = model_channel_of new" if "resent b ob a oa i"
  proof (rule created_over_model, intro allI impI)
    fix o' assume links: "ch_links new = {||}" and o': "?old = Some o'"
    show "mc_links o' = {||}"
    proof (cases "fmlookup (sv_channels (compose b ob)) i")
      case None
      then show ?thesis using o' model_of_channel [OF view_ok_keyed [OF D(3)], of i]
        by (auto simp: root_model_def split: if_splits)
    next
      case (Some old)
      then have "ch_links old = {||}" using D(10) A that links by (auto simp: keeps_links_def)
      then show ?thesis using o' Some model_of_channel [OF view_ok_keyed [OF D(3)], of i]
        by (auto simp: model_channel_of_def)
    qed
  qed
  have notoa: "i |\<notin>| fmdom (ov_channels oa)" using apartD(2) [OF D(6) Some] by (simp add: notin_fmdom_iff)
  show ?thesis
  proof (cases "fmlookup (sv_channels b) i")
    case None
    then have "resent b ob a oa i" using notoa by (simp add: resent_def)
    then show ?thesis using None Some whole
      by (simp add: fold_eff_other phase_kinds fold_eff_channels on_shared_creates on_shared_updates D(2)
          chan_create_def chan_update_def)
  next
    case old: (Some old)
    have ids: "ch_id old = ch_id new" using id view_okD(1) [OF D(1) old] by simp
    have was: "?old = Some (model_channel_of old)"
      using old apartD(2) [OF D(5) old] by (simp add: model_of_channel view_ok_keyed D(3) compose_lookup)
    show ?thesis
    proof (cases "ch_scope old = ch_scope new")
      case True
      then show ?thesis using old Some was patched_over_patch [OF ids] noop_patch [OF ids]
        by (simp add: fold_eff_other phase_kinds fold_eff_channels on_shared_creates on_shared_updates D(2)
            chan_create_def chan_update_def planned_def)
    next
      case False
      then have "resent b ob a oa i" using notoa old Some by (simp add: resent_def)
      then show ?thesis using old Some whole False
        by (simp add: fold_eff_other phase_kinds fold_eff_channels on_shared_creates on_shared_updates D(2)
            chan_create_def chan_update_def)
    qed
  qed
qed

lemma on_shared_users:
  assumes "view_ok a"
  shows "on_user s (shared_users b a) = (case fmlookup (sv_users a) s of None \<Rightarrow> []
     | Some new \<Rightarrow> (case fmlookup (sv_users b) s of
         None \<Rightarrow> [AddUser new]
       | Some old \<Rightarrow> if us_scope old = us_scope new
           then (if us_channel old \<noteq> us_channel new then [MoveUser s (us_channel new)] else [])
             @ (if user_patch_is_noop (user_patch_of old new) then [] else [UpdateUser (user_patch_of old new)])
           else [AddUser new]))"
proof -
  have keyed: "\<And>s u. fmlookup (sv_users a) s = Some u \<Longrightarrow> us_session u = s" using view_okD(2) [OF assms] .
  have "on_user s (map po_op (filter_map f (items (sv_users a)))) = (case fmlookup (sv_users a) s of None \<Rightarrow> []
     | Some new \<Rightarrow> (case f (s, new) of None \<Rightarrow> [] | Some p \<Rightarrow> [po_op p]))"
    if "\<And>k u p. fmlookup (sv_users a) k = Some u \<Longrightarrow> f (k, u) = Some p \<Longrightarrow> target (po_op p) = UserEl k" for f
    unfolding map_filter_map by (subst on_user_vector) (use that in \<open>auto split: option.splits\<close>)
  note vec = this
  have "on_user s (shared_users b a) =
      (case fmlookup (sv_users a) s of None \<Rightarrow> [] | Some new \<Rightarrow> (case user_add b (s, new) of None \<Rightarrow> [] | Some p \<Rightarrow> [po_op p]))
    @ (case fmlookup (sv_users a) s of None \<Rightarrow> [] | Some new \<Rightarrow> (case user_move b (s, new) of None \<Rightarrow> [] | Some p \<Rightarrow> [po_op p]))
    @ (case fmlookup (sv_users a) s of None \<Rightarrow> [] | Some new \<Rightarrow> (case user_update b (s, new) of None \<Rightarrow> [] | Some p \<Rightarrow> [po_op p]))"
    unfolding shared_users_def filter_append
    by (subst vec, use keyed in \<open>auto simp: plan_step_iffs planned_def user_patch_of_def\<close>)+
  then show ?thesis
    by (auto simp: user_add_def user_move_def user_update_def planned_def split: option.splits)
qed

lemma shared_users_only:
  "fmlookup (cm_users (fold eff (shared_creates b a @ shared_updates b a @ shared_users b a) m)) s
     = fold user_eff (on_user s (shared_users b a)) (fmlookup (cm_users m) s)"
  by (simp add: fold_eff_other phase_kinds fold_eff_users [of "shared_users b a"])

lemma after_shared_users:
  assumes ok: "transition_ok r b ob a oa"
  shows "fmlookup (cm_users (fold eff (shared_creates b a @ shared_updates b a @ shared_users b a) (model_of (compose b ob)))) s
     = (case fmlookup (sv_users a) s of Some new \<Rightarrow> Some (model_user_of new)
        | None \<Rightarrow> fmlookup (cm_users (model_of (compose b ob))) s)"
  unfolding shared_users_only on_shared_users [OF transition_okD(2) [OF ok]]
proof (cases "fmlookup (sv_users a) s \<noteq> None \<and> fmlookup (sv_users b) s \<noteq> None")
  case True
  then obtain old new where 4: "fmlookup (sv_users a) s = Some new" "fmlookup (sv_users b) s = Some old" by auto
  note D = transition_okD [OF ok]
  have ids: "us_session old = us_session new"
    using view_okD(2) [OF D(1) 4(2)] view_okD(2) [OF D(2) 4(1)] by simp
  have "fmlookup (cm_users (model_of (compose b ob))) s = Some (model_user_of old)"
    using 4(2) apartD(4) [OF D(5) 4(2)] by (simp add: model_of_user view_ok_keyed D(3) compose_lookup)
  then show "fold user_eff (case fmlookup (sv_users a) s of None \<Rightarrow> []
     | Some new \<Rightarrow> (case fmlookup (sv_users b) s of
         None \<Rightarrow> [AddUser new]
       | Some old \<Rightarrow> if us_scope old = us_scope new
           then (if us_channel old \<noteq> us_channel new then [MoveUser s (us_channel new)] else [])
             @ (if user_patch_is_noop (user_patch_of old new) then [] else [UpdateUser (user_patch_of old new)])
           else [AddUser new])) (fmlookup (cm_users (model_of (compose b ob))) s) =
     (case fmlookup (sv_users a) s of Some new \<Rightarrow> Some (model_user_of new)
        | None \<Rightarrow> fmlookup (cm_users (model_of (compose b ob))) s)"
    using 4 updated_user [OF ids, of s] by (cases "us_scope old = us_scope new") simp_all
qed (auto split: option.splits)

text \<open>The shared additions are safe.\<close>

lemma in_shared_updates:
  "op \<in> set (shared_updates b a) \<longleftrightarrow> (\<exists>i old new. fmlookup (sv_channels b) i = Some old \<and>
     fmlookup (sv_channels a) i = Some new \<and> ch_scope old = ch_scope new \<and>
     \<not> channel_patch_is_noop (channel_patch_of old new) \<and> op = UpdateChannel (channel_patch_of old new))"
proof -
  have "op \<in> set (shared_updates b a) \<longleftrightarrow>
      (\<exists>i new. fmlookup (sv_channels a) i = Some new \<and> map_option po_op (chan_update b (i, new)) = Some op)"
    unfolding shared_updates_def map_filter_map in_filter_map_items ..
  then show ?thesis by (force simp: plan_step_iffs planned_def)
qed

lemma dom_after_creates:
  assumes "transition_ok r b ob a oa"
  shows "fmdom (sv_channels a) |\<subseteq>| fmdom (cm_channels (fold eff (shared_creates b a) (model_of (compose b ob))))"
proof
  note D = transition_okD [OF assms]
  fix i assume "i |\<in>| fmdom (sv_channels a)"
  then obtain new where new: "fmlookup (sv_channels a) i = Some new" by (auto simp: fmlookup_dom_iff)
  have "fmlookup (cm_channels (fold eff (shared_creates b a) (model_of (compose b ob)))) i \<noteq> None"
  proof (cases "fmlookup (sv_channels b) i")
    case None
    then show ?thesis using new by (simp add: fold_eff_channels on_shared_creates D(2) chan_create_def)
  next
    case (Some old)
    then have "fmlookup (cm_channels (model_of (compose b ob))) i \<noteq> None"
      using apartD(2) [OF D(5) Some] by (simp add: model_of_channel view_ok_keyed D(3) compose_lookup)
    then show ?thesis using Some new by (simp add: fold_eff_channels on_shared_creates D(2) chan_create_def)
  qed
  then show "i |\<in>| fmdom (cm_channels (fold eff (shared_creates b a) (model_of (compose b ob))))"
    by (auto simp: fmlookup_dom_iff)
qed

lemma update_ops_dom:
  "(\<And>op. op \<in> set ops \<Longrightarrow> \<exists>p. op = UpdateChannel p) \<Longrightarrow> fmdom (cm_channels (fold eff ops m)) = fmdom (cm_channels m)"
proof (induction ops arbitrary: m)
  case (Cons op ops)
  then obtain p where "op = UpdateChannel p" by (meson list.set_intros(1))
  then show ?case using Cons by (simp add: chan_dom_eff)
qed simp

lemma shared_rank:
  assumes "transition_ok r b ob a oa" and "fmlookup (sv_channels a) i = Some new" and "i \<noteq> ROOT_ID"
  shows "r (ch_parent new) < r i"
  using ranked_parent [OF transition_okD(8) [OF assms(1)], of i new] assms(2,3)
    apartD(2) [OF transition_okD(6) [OF assms(1)] assms(2)] by (simp add: compose_lookup)

lemma safe_shared:
  assumes ok: "transition_ok r b ob a oa"
  shows "safe r (model_of (compose b ob)) (shared_creates b a @ shared_updates b a @ shared_users b a)"
proof -
  note D = transition_okD [OF ok]
  let ?m = "model_of (compose b ob)"
  let ?m1 = "fold eff (shared_creates b a) ?m" and ?m2 = "fold eff (shared_updates b a) (fold eff (shared_creates b a) ?m)"
  have c0: "coherent r ?m" by (rule coherent_model [OF D(3,7)])
  have known: "fmdom (sv_channels b) |\<subseteq>| fmdom (cm_channels ?m)"
    using apartD(2) [OF D(5)] by (auto simp: fmlookup_dom_iff model_of_channel view_ok_keyed D(3) compose_lookup split: option.splits)
  have s1: "safe r ?m (shared_creates b a)"
    unfolding shared_creates_def
  proof (rule safe_creates [OF c0 order_creations_parents_first [OF D(2)] known])
    fix c assume "c \<in> set (order_creations (creates_of b a) b)" and "ch_id c \<noteq> ROOT_ID"
    then show "r (ch_parent c) < r (ch_id c)"
      using shared_rank [OF ok] view_okD(1) [OF D(2)] by (auto simp: set_order_creations in_creates_of)
  qed
  have c1: "coherent r ?m1" by (rule safe_coherent [OF c0 s1])
  have in_a: "i |\<in>| fmdom (cm_channels ?m1)" if "fmlookup (sv_channels a) i = Some c" for i c
    using dom_after_creates [OF ok] that by (meson fmdomI fsubsetD)
  obtain ps where ps: "shared_updates b a = map UpdateChannel ps"
    using in_shared_updates [of _ b a] by (metis (no_types, lifting) ex_map_conv)
  have patch: "\<exists>i old new. p = channel_patch_of old new \<and> fmlookup (sv_channels a) i = Some new" if "p \<in> set ps" for p
    using that in_shared_updates [of "UpdateChannel p" b a] ps by auto
  have s2: "safe r ?m1 (shared_updates b a)"
    unfolding ps
  proof (rule safe_updates [OF c1])
    fix p assume "p \<in> set ps"
    then obtain i old new where p: "p = channel_patch_of old new" and new: "fmlookup (sv_channels a) i = Some new"
      using patch by blast
    have i: "ch_id new = i" using view_okD(1) [OF D(2) new] .
    show "cp_id p |\<in>| fmdom (cm_channels ?m1)" using in_a [OF new] i by (simp add: p patch_fields)
    fix q assume "cp_parent p = Some q" and "cp_id p \<noteq> ROOT_ID"
    then have "q = ch_parent new" "i \<noteq> ROOT_ID" using i by (auto simp: p patch_fields split: if_splits)
    then show "q |\<in>| fmdom (cm_channels ?m1) \<and> r q < r (cp_id p)"
      using view_okD(3) [OF D(2) new] in_a shared_rank [OF ok new] i by (auto simp: p patch_fields)
  qed
  have c2: "coherent r ?m2" by (rule safe_coherent [OF c1 s2])
  have dom2: "fmdom (cm_channels ?m2) = fmdom (cm_channels ?m1)" by (rule update_ops_dom) (auto simp: ps)
  have "safe r ?m2 (shared_users b a)"
  proof (rule safe_user_ops [OF c2])
    fix op assume "op \<in> set (shared_users b a)"
    then obtain s new where new: "fmlookup (sv_users a) s = Some new"
      and op: "op = AddUser new \<or> op = MoveUser s (us_channel new) \<or> (\<exists>p. op = UpdateUser p)"
      unfolding shared_users_def map_filter_map set_append Un_iff in_filter_map_items
      by (auto simp: plan_step_iffs planned_def)
    have "us_channel new |\<in>| fmdom (cm_channels ?m2)" using view_okD(4) [OF D(2) new] in_a dom2 by auto
    then show "user_op (fmdom (cm_channels ?m2)) op" using op by auto
  qed
  then show ?thesis using s1 s2 by (simp add: safe_append)
qed

subsection \<open>Withdrawals that survive the collapse\<close>

abbreviation shared_adds :: "shard_view \<Rightarrow> shard_view \<Rightarrow> plan_op list" where
  "shared_adds b a \<equiv> shared_creates b a @ shared_updates b a @ shared_users b a"

abbreviation overlay_adds :: "overlay \<Rightarrow> overlay \<Rightarrow> plan_op list" where
  "overlay_adds ob oa \<equiv> overlay_channel_adds ob oa @ overlay_channel_updates ob oa @ overlay_user_ops ob oa"

definition survives :: "shard_view \<Rightarrow> overlay \<Rightarrow> shard_view \<Rightarrow> overlay \<Rightarrow> plan_op \<Rightarrow> bool" where
  "survives b ob a oa op \<longleftrightarrow> \<not> undone (shared_adds b a @ overlay_adds ob oa) op"

lemma no_removals:
  "op \<in> set (shared_adds b a) \<Longrightarrow> \<not> is_removal op"
  "op \<in> set (overlay_adds ob oa) \<Longrightarrow> \<not> is_removal op"
proof -
  show "op \<in> set (shared_adds b a) \<Longrightarrow> \<not> is_removal op"
    unfolding shared_creates_def shared_updates_def shared_users_def map_filter_map set_append Un_iff in_filter_map_items
    by (auto simp: plan_step_iffs planned_def)
  show "op \<in> set (overlay_adds ob oa) \<Longrightarrow> \<not> is_removal op"
    unfolding overlay_channel_adds_def overlay_channel_updates_def overlay_user_ops_def set_append Un_iff in_filter_map_items
    by (auto simp: elem_update_Some elem_user_ops_def split: option.splits if_splits)
qed

lemma added_channel_iff: "added op = Some (ChannelEl i) \<longleftrightarrow> (\<exists>c. op = CreateChannel c \<and> ch_id c = i)"
  by (cases op) auto

lemma added_user_iff: "added op = Some (UserEl s) \<longleftrightarrow> (\<exists>u. op = AddUser u \<and> us_session u = s)"
  by (cases op) auto

lemma create_in_adds:
  "CreateChannel c \<in> set (shared_adds b a @ overlay_adds ob oa) \<longleftrightarrow>
     (\<exists>i. fmlookup (sv_channels a) i = Some c \<and> (\<forall>old. fmlookup (sv_channels b) i = Some old \<longrightarrow> ch_scope old \<noteq> ch_scope c)) \<or>
     (\<exists>i. fmlookup (ov_channels oa) i = Some c \<and> fmlookup (ov_channels ob) i = None)"
proof -
  have "CreateChannel c \<notin> set (shared_updates b a)" "CreateChannel c \<notin> set (overlay_channel_updates ob oa)"
    by (auto simp: in_shared_updates overlay_channel_updates_def in_filter_map_items elem_update_Some)
  moreover have "CreateChannel c \<notin> set (shared_users b a)" "CreateChannel c \<notin> set (overlay_user_ops ob oa)"
    using phase_kinds by (force simp: user_ops_def)+
  moreover have "CreateChannel c \<in> set (shared_creates b a) \<longleftrightarrow> c \<in> set (creates_of b a)"
    by (auto simp: shared_creates_def set_order_creations)
  moreover have "CreateChannel c \<in> set (overlay_channel_adds ob oa) \<longleftrightarrow> c \<in> set (overlay_creates ob oa)"
    by (auto simp: overlay_channel_adds_def set_order_creations)
  moreover have "c \<in> set (overlay_creates ob oa) \<longleftrightarrow>
      (\<exists>i. fmlookup (ov_channels oa) i = Some c \<and> fmlookup (ov_channels ob) i = None)"
    by (auto simp: in_filter_map_items elem_create_Some)
  ultimately show ?thesis by (simp add: in_creates_of)
qed

lemma add_in_adds:
  "AddUser u \<in> set (shared_adds b a @ overlay_adds ob oa) \<longleftrightarrow>
     (\<exists>s. fmlookup (sv_users a) s = Some u \<and> (\<forall>old. fmlookup (sv_users b) s = Some old \<longrightarrow> us_scope old \<noteq> us_scope u)) \<or>
     (\<exists>s. fmlookup (ov_users oa) s = Some u \<and> fmlookup (ov_users ob) s = None)"
proof -
  have "AddUser u \<notin> set (shared_updates b a)" "AddUser u \<notin> set (overlay_channel_updates ob oa)"
    "AddUser u \<notin> set (shared_creates b a)" "AddUser u \<notin> set (overlay_channel_adds ob oa)"
    using phase_kinds by (force simp: channel_ops_def)+
  moreover have "AddUser u \<in> set (shared_users b a) \<longleftrightarrow>
     (\<exists>s. fmlookup (sv_users a) s = Some u \<and> (\<forall>old. fmlookup (sv_users b) s = Some old \<longrightarrow> us_scope old \<noteq> us_scope u))"
    unfolding shared_users_def map_filter_map set_append Un_iff in_filter_map_items
    by (auto simp: plan_step_iffs planned_def)
  moreover have "AddUser u \<in> set (overlay_user_ops ob oa) \<longleftrightarrow>
     (\<exists>s. fmlookup (ov_users oa) s = Some u \<and> fmlookup (ov_users ob) s = None)"
    unfolding overlay_user_ops_def
    by (auto simp: elem_user_ops_def in_set_items Bex_def split: option.splits if_splits)
  ultimately show ?thesis by simp
qed

lemma survives_channel:
  assumes "transition_ok r b ob a oa"
  shows "survives b ob a oa (RemoveChannel i) \<longleftrightarrow>
     (\<forall>c. fmlookup (sv_channels a) i = Some c \<longrightarrow> (\<exists>old. fmlookup (sv_channels b) i = Some old \<and> ch_scope old = ch_scope c)) \<and>
     (fmlookup (ov_channels oa) i \<noteq> None \<longrightarrow> fmlookup (ov_channels ob) i \<noteq> None)"
proof -
  note D = transition_okD [OF assms]
  have "undone (shared_adds b a @ overlay_adds ob oa) (RemoveChannel i) \<longleftrightarrow>
      (\<exists>c. CreateChannel c \<in> set (shared_adds b a @ overlay_adds ob oa) \<and> ch_id c = i)"
    unfolding undone_def by (auto simp: added_channel_iff simp del: set_append)
  then show ?thesis
    unfolding create_in_adds survives_def using view_okD(1) [OF D(2)] overlay_keyed(1) [OF D(4)] by fastforce
qed

lemma survives_user:
  assumes "transition_ok r b ob a oa"
  shows "survives b ob a oa (RemoveUser s) \<longleftrightarrow>
     (\<forall>u. fmlookup (sv_users a) s = Some u \<longrightarrow> (\<exists>old. fmlookup (sv_users b) s = Some old \<and> us_scope old = us_scope u)) \<and>
     (fmlookup (ov_users oa) s \<noteq> None \<longrightarrow> fmlookup (ov_users ob) s \<noteq> None)"
proof -
  note D = transition_okD [OF assms]
  have "undone (shared_adds b a @ overlay_adds ob oa) (RemoveUser s) \<longleftrightarrow>
      (\<exists>u. AddUser u \<in> set (shared_adds b a @ overlay_adds ob oa) \<and> us_session u = s)"
    unfolding undone_def by (auto simp: added_user_iff simp del: set_append)
  then show ?thesis
    unfolding add_in_adds survives_def using view_okD(2) [OF D(2)] overlay_keyed(2) [OF D(4)] by fastforce
qed

definition overlay_withdrawals :: "shard_view \<Rightarrow> overlay \<Rightarrow> shard_view \<Rightarrow> overlay \<Rightarrow> plan_op list" where
  "overlay_withdrawals b ob a oa = filter (survives b ob a oa)
     (map RemoveUser (overlay_gone_users ob oa) @ map RemoveChannel (overlay_gone_channels ob oa))"

definition shared_withdrawals ::
    "planned_op list \<Rightarrow> shard_view \<Rightarrow> overlay \<Rightarrow> shard_view \<Rightarrow> overlay \<Rightarrow> plan_op list" where
  "shared_withdrawals ws b ob a oa = filter (survives b ob a oa)
     (map po_op ws @ map RemoveChannel (map fst (order_removals (withdrawn_channels b a) b)))"

lemma in_overlay_gone:
  "s \<in> set (overlay_gone_users ob oa) \<longleftrightarrow> fmlookup (ov_users ob) s \<noteq> None \<and> fmlookup (ov_users oa) s = None"
  "i \<in> set (overlay_gone_channels ob oa) \<longleftrightarrow> fmlookup (ov_channels ob) i \<noteq> None \<and> fmlookup (ov_channels oa) i = None"
proof -
  have "set (overlay_gone_channels ob oa) = set (filter (\<lambda>i. \<not> fm_has (ov_channels oa) i) (fkeys (ov_channels ob)))"
    by (simp add: overlay_gone_channels_def image_image)
  then show "i \<in> set (overlay_gone_channels ob oa) \<longleftrightarrow> fmlookup (ov_channels ob) i \<noteq> None \<and> fmlookup (ov_channels oa) i = None"
    using in_set_fkeys [of i "ov_channels ob"] by (auto simp: fmlookup_dom_iff simp del: set_map)
  show "s \<in> set (overlay_gone_users ob oa) \<longleftrightarrow> fmlookup (ov_users ob) s \<noteq> None \<and> fmlookup (ov_users oa) s = None"
    using in_set_fkeys [of s "ov_users ob"] by (auto simp: overlay_gone_users_def fmlookup_dom_iff simp del: set_map)
qed

lemma in_overlay_withdrawals:
  assumes "transition_ok r b ob a oa"
  shows "RemoveUser s \<in> set (overlay_withdrawals b ob a oa) \<longleftrightarrow>
      fmlookup (ov_users ob) s \<noteq> None \<and> fmlookup (sv_users (compose a oa)) s = None"
    and "RemoveChannel i \<in> set (overlay_withdrawals b ob a oa) \<longleftrightarrow>
      fmlookup (ov_channels ob) i \<noteq> None \<and> fmlookup (sv_channels (compose a oa)) i = None"
proof -
  note D = transition_okD [OF assms]
  show "RemoveUser s \<in> set (overlay_withdrawals b ob a oa) \<longleftrightarrow>
      fmlookup (ov_users ob) s \<noteq> None \<and> fmlookup (sv_users (compose a oa)) s = None"
    using apartD(3) [OF D(5), of s]
    by (auto simp: overlay_withdrawals_def in_overlay_gone survives_user [OF assms] compose_lookup
        split: option.splits)
  show "RemoveChannel i \<in> set (overlay_withdrawals b ob a oa) \<longleftrightarrow>
      fmlookup (ov_channels ob) i \<noteq> None \<and> fmlookup (sv_channels (compose a oa)) i = None"
    using apartD(1) [OF D(5), of i]
    by (auto simp: overlay_withdrawals_def in_overlay_gone survives_channel [OF assms] compose_lookup
        split: option.splits)
qed

lemma removals_only:
  "\<forall>op \<in> set (overlay_withdrawals b ob a oa). is_removal op"
  "mset ws = mset (withdrawn_users b a) \<Longrightarrow> \<forall>op \<in> set (shared_withdrawals ws b ob a oa). is_removal op"
proof -
  show "\<forall>op \<in> set (overlay_withdrawals b ob a oa). is_removal op"
    by (auto simp: overlay_withdrawals_def)
  assume "mset ws = mset (withdrawn_users b a)"
  then have "set ws = set (withdrawn_users b a)" by (metis set_mset_mset)
  then show "\<forall>op \<in> set (shared_withdrawals ws b ob a oa). is_removal op"
    by (auto simp: shared_withdrawals_def in_withdrawn_users planned_def)
qed

lemma in_shared_withdrawals:
  assumes ok: "transition_ok r b ob a oa" and ws: "mset ws = mset (withdrawn_users b a)"
  shows "RemoveUser s \<in> set (shared_withdrawals ws b ob a oa) \<longleftrightarrow>
      fmlookup (sv_users b) s \<noteq> None \<and> fmlookup (sv_users (compose a oa)) s = None"
    and "RemoveChannel i \<in> set (shared_withdrawals ws b ob a oa) \<longleftrightarrow>
      fmlookup (sv_channels b) i \<noteq> None \<and> fmlookup (sv_channels (compose a oa)) i = None"
proof -
  note D = transition_okD [OF ok]
  have sets: "set ws = set (withdrawn_users b a)" using ws by (metis set_mset_mset)
  have "RemoveUser s \<in> po_op ` set ws \<longleftrightarrow> (\<exists>old. fmlookup (sv_users b) s = Some old \<and>
      (\<forall>new. fmlookup (sv_users a) s = Some new \<longrightarrow> us_scope old \<noteq> us_scope new))" (is "?l \<longleftrightarrow> ?r")
  proof
    assume ?l then show ?r unfolding sets image_iff Bex_def in_withdrawn_users by (auto simp: planned_def)
  next
    assume ?r
    then obtain old where old: "fmlookup (sv_users b) s = Some old"
      "\<forall>new. fmlookup (sv_users a) s = Some new \<longrightarrow> us_scope old \<noteq> us_scope new" by blast
    have "planned (RemoveUser s) (us_scope old) \<in> set ws"
      unfolding sets in_withdrawn_users using old by (intro exI [of _ s] exI [of _ old]) simp
    then show ?l by (force simp: planned_def)
  qed
  then show "RemoveUser s \<in> set (shared_withdrawals ws b ob a oa) \<longleftrightarrow>
      fmlookup (sv_users b) s \<noteq> None \<and> fmlookup (sv_users (compose a oa)) s = None"
    using apartD(4) [OF D(5), of s]
    by (cases "fmlookup (sv_users b) s")
      (auto simp: shared_withdrawals_def survives_user [OF ok] compose_lookup split: option.splits)
  have "i \<in> fst ` set (withdrawn_channels b a) \<longleftrightarrow> (\<exists>old. fmlookup (sv_channels b) i = Some old \<and>
      (\<forall>new. fmlookup (sv_channels a) i = Some new \<longrightarrow> ch_scope old \<noteq> ch_scope new))"
    unfolding image_iff Bex_def in_withdrawn_channels by auto
  moreover have "RemoveChannel i \<notin> po_op ` set ws"
    unfolding sets image_iff Bex_def in_withdrawn_users by (auto simp: planned_def)
  ultimately show "RemoveChannel i \<in> set (shared_withdrawals ws b ob a oa) \<longleftrightarrow>
      fmlookup (sv_channels b) i \<noteq> None \<and> fmlookup (sv_channels (compose a oa)) i = None"
    using apartD(2) [OF D(5), of i]
    by (cases "fmlookup (sv_channels b) i")
      (auto simp: shared_withdrawals_def survives_channel [OF ok] compose_lookup set_order_removals split: option.splits)
qed

subsection \<open>The states between the phases\<close>

definition after_shared :: "shard_view \<Rightarrow> overlay \<Rightarrow> shard_view \<Rightarrow> client_model" where
  "after_shared b ob a = fold eff (shared_adds b a) (model_of (compose b ob))"

definition after_withdrawn :: "shard_view \<Rightarrow> overlay \<Rightarrow> shard_view \<Rightarrow> overlay \<Rightarrow> client_model" where
  "after_withdrawn b ob a oa = fold eff (overlay_withdrawals b ob a oa) (after_shared b ob a)"

definition after_overlay :: "shard_view \<Rightarrow> overlay \<Rightarrow> shard_view \<Rightarrow> overlay \<Rightarrow> client_model" where
  "after_overlay b ob a oa = fold eff (overlay_adds ob oa) (after_withdrawn b ob a oa)"

lemma root_not_private:
  assumes "transition_ok r b ob a oa"
  shows "fmlookup (ov_channels oa) ROOT_ID = None" and "fmlookup (sv_channels (compose a oa)) ROOT_ID \<noteq> None"
  using apartD(1) [OF transition_okD(6) [OF assms], of ROOT_ID] transition_okD(9) [OF assms]
  by (cases "fmlookup (ov_channels oa) ROOT_ID"; auto simp: fmlookup_dom_iff compose_lookup)+

lemma withdrawn_channels_lookup:
  assumes "transition_ok r b ob a oa"
  shows "fmlookup (cm_channels (after_withdrawn b ob a oa)) i =
     (if fmlookup (ov_channels ob) i \<noteq> None \<and> fmlookup (sv_channels (compose a oa)) i = None then None
      else case fmlookup (sv_channels a) i of Some new \<Rightarrow> Some (model_channel_of new)
        | None \<Rightarrow> fmlookup (cm_channels (model_of (compose b ob))) i)"
  unfolding after_withdrawn_def after_shared_def
    fold_removals(2) [OF removals_only(1)]
    in_overlay_withdrawals [OF assms] after_shared_channels [OF assms]
  using root_not_private(2) [OF assms] by auto

lemma withdrawn_users_lookup:
  assumes "transition_ok r b ob a oa"
  shows "fmlookup (cm_users (after_withdrawn b ob a oa)) s =
     (if fmlookup (ov_users ob) s \<noteq> None \<and> fmlookup (sv_users (compose a oa)) s = None then None
      else case fmlookup (sv_users a) s of Some new \<Rightarrow> Some (model_user_of new)
        | None \<Rightarrow> fmlookup (cm_users (model_of (compose b ob))) s)"
  unfolding after_withdrawn_def after_shared_def
    fold_removals(1) [OF removals_only(1)]
    in_overlay_withdrawals [OF assms] after_shared_users [OF assms] ..

lemma on_overlay_creates:
  "view_ok (compose a oa) \<Longrightarrow> on_channel i (overlay_channel_adds ob oa) = (case fmlookup (ov_channels oa) i of None \<Rightarrow> []
     | Some new \<Rightarrow> (case elem_create ob (i, new) of None \<Rightarrow> [] | Some c \<Rightarrow> [CreateChannel c]))"
  unfolding overlay_channel_adds_def using overlay_keyed(1) by (intro on_creates) (auto simp: elem_create_Some)

lemma on_overlay_updates:
  "view_ok (compose a oa) \<Longrightarrow> on_channel i (overlay_channel_updates ob oa) = (case fmlookup (ov_channels oa) i of None \<Rightarrow> []
     | Some new \<Rightarrow> (case elem_update ob (i, new) of None \<Rightarrow> [] | Some op \<Rightarrow> [op]))"
  unfolding overlay_channel_updates_def using overlay_keyed(1)
  by (intro on_updates) (auto simp: elem_update_Some patch_fields)

lemma on_overlay_users:
  assumes "view_ok (compose a oa)"
  shows "on_user s (overlay_user_ops ob oa) = (case fmlookup (ov_users oa) s of None \<Rightarrow> []
     | Some new \<Rightarrow> elem_user_ops ob (s, new))"
proof -
  have gen: "on_user s (concat (map (elem_user_ops ob) es)) = (case map_of es s of None \<Rightarrow> [] | Some new \<Rightarrow> elem_user_ops ob (s, new))"
    if "distinct (map fst es)" "\<And>k u. (k, u) \<in> set es \<Longrightarrow> us_session u = k" for es
    using that
  proof (induction es)
    case (Cons e es)
    obtain k u where e: "e = (k, u)" by (cases e)
    have t: "target op = UserEl k" if "op \<in> set (elem_user_ops ob (k, u))" for op
      using that Cons.prems(2) [of k u] e by (auto simp: elem_user_ops_def user_patch_of_def split: option.splits if_splits)
    have "on_user s (elem_user_ops ob (k, u)) = (if k = s then elem_user_ops ob (k, u) else [])"
      using t by (auto simp: filter_empty_conv filter_id_conv)
    moreover have "k = s \<Longrightarrow> map_of es s = None" using Cons.prems(1) e by (auto simp: map_of_eq_None_iff)
    moreover have "on_user s (concat (map (elem_user_ops ob) es)) =
        (case map_of es s of None \<Rightarrow> [] | Some new \<Rightarrow> elem_user_ops ob (s, new))"
      using Cons.prems by (intro Cons.IH) auto
    ultimately show ?case using e by auto
  qed simp
  have "map_of (items (ov_users oa)) s = fmlookup (ov_users oa) s"
    by (cases "fmlookup (ov_users oa) s")
      (auto simp: map_of_eq_None_iff fst_image_items notin_fmdom_iff in_set_items map_of_eq_Some_iff)
  then show ?thesis using gen [of "items (ov_users oa)"] overlay_keyed(2) [OF assms]
    by (simp add: overlay_user_ops_def in_set_items)
qed

lemma overlay_channels_lookup:
  assumes ok: "transition_ok r b ob a oa"
  shows "fmlookup (cm_channels (after_overlay b ob a oa)) i = (case fmlookup (ov_channels oa) i of
     Some new \<Rightarrow> Some (model_channel_of new) | None \<Rightarrow> fmlookup (cm_channels (after_withdrawn b ob a oa)) i)"
proof -
  note D = transition_okD [OF ok]
  have step: "fmlookup (cm_channels (after_overlay b ob a oa)) i =
      fold chan_eff (on_channel i (overlay_channel_updates ob oa)) (fold chan_eff (on_channel i (overlay_channel_adds ob oa))
        (fmlookup (cm_channels (after_withdrawn b ob a oa)) i))"
    by (simp add: after_overlay_def fold_eff_other phase_kinds fold_eff_channels)
  show ?thesis
  proof (cases "fmlookup (ov_channels oa) i")
    case None
    then show ?thesis by (simp add: step on_overlay_creates [OF D(4)] on_overlay_updates [OF D(4)])
  next
    case (Some new)
    have A: "fmlookup (sv_channels (compose a oa)) i = Some new" and a: "fmlookup (sv_channels a) i = None"
      using Some apartD(1) [OF D(6) Some] by (simp_all add: compose_lookup)
    have root: "i \<noteq> 0" using root_not_private(1) [OF ok] Some by (auto simp: root_id_zero)
    have was: "fmlookup (cm_channels (after_withdrawn b ob a oa)) i =
        map_option model_channel_of (fmlookup (sv_channels (compose b ob)) i)"
      using A a root by (simp add: withdrawn_channels_lookup [OF ok] model_of_channel view_ok_keyed D(3) split: option.splits)
    show ?thesis
    proof (cases "fmlookup (ov_channels ob) i")
      case None
      have "created_over new (map_option model_channel_of (fmlookup (sv_channels (compose b ob)) i)) = model_channel_of new"
      proof (rule created_over_model, intro allI impI)
        fix o' assume links: "ch_links new = {||}" and "map_option model_channel_of (fmlookup (sv_channels (compose b ob)) i) = Some o'"
        then obtain old where old: "fmlookup (sv_channels (compose b ob)) i = Some old" "o' = model_channel_of old" by auto
        have "resent b ob a oa i" using None a by (auto simp: resent_def notin_fmdom_iff split: option.splits)
        then have "ch_links old = {||}" using D(10) old(1) A links by (auto simp: keeps_links_def)
        then show "mc_links o' = {||}" using old(2) by (simp add: model_channel_of_def)
      qed
      then show ?thesis using None Some was
        by (simp add: step on_overlay_creates [OF D(4)] on_overlay_updates [OF D(4)] elem_create_def elem_update_def)
    next
      case old: (Some old)
      have ids: "ch_id old = ch_id new" using overlay_keyed(1) [OF D(3) old] overlay_keyed(1) [OF D(4) Some] by simp
      have "fmlookup (sv_channels (compose b ob)) i = Some old" using old by (simp add: compose_lookup)
      then show ?thesis using old Some was patched_over_patch [OF ids] noop_patch [OF ids]
        by (simp add: step on_overlay_creates [OF D(4)] on_overlay_updates [OF D(4)] elem_create_def elem_update_def)
    qed
  qed
qed

end
