(* ===== verification/Refinement.thy ===== *)
theory Refinement
  imports Transition
begin

text \<open>
  The refinement of the strict client by the composed transition: where each phase leads, that
  no message of any phase is refused, and the two together.
\<close>

subsection \<open>Where the transition leads\<close>

lemma overlay_users_lookup:
  assumes ok: "transition_ok r b ob a oa"
  shows "fmlookup (cm_users (after_overlay b ob a oa)) s = (case fmlookup (ov_users oa) s of
     Some new \<Rightarrow> Some (model_user_of new) | None \<Rightarrow> fmlookup (cm_users (after_withdrawn b ob a oa)) s)"
proof -
  note D = transition_okD [OF ok]
  have step: "fmlookup (cm_users (after_overlay b ob a oa)) s =
      fold user_eff (on_user s (overlay_user_ops ob oa)) (fmlookup (cm_users (after_withdrawn b ob a oa)) s)"
    by (simp add: after_overlay_def fold_eff_other phase_kinds fold_eff_users [of "overlay_user_ops ob oa"])
  show ?thesis
  proof (cases "fmlookup (ov_users oa) s")
    case None
    then show ?thesis by (simp add: step on_overlay_users [OF D(4)])
  next
    case (Some new)
    show ?thesis
    proof (cases "fmlookup (ov_users ob) s")
      case None
      then show ?thesis using Some by (simp add: step on_overlay_users [OF D(4)] elem_user_ops_def)
    next
      case old: (Some old)
      have ids: "us_session old = us_session new"
        using overlay_keyed(2) [OF D(3) old] overlay_keyed(2) [OF D(4) Some] by simp
      have "fmlookup (sv_users a) s = None" using apartD(3) [OF D(6) Some] .
      then have "fmlookup (cm_users (after_withdrawn b ob a oa)) s = Some (model_user_of old)"
        using old Some by (simp add: withdrawn_users_lookup [OF ok] model_of_user view_ok_keyed D(3) compose_lookup)
      then show ?thesis using Some old updated_user [OF ids, of s]
        by (auto simp: step on_overlay_users [OF D(4)] elem_user_ops_def split: if_splits)
    qed
  qed
qed

text \<open>Both sides of the transition agree on every channel and on every user.\<close>

lemma final_state:
  assumes ok: "transition_ok r b ob a oa" and ws: "mset ws = mset (withdrawn_users b a)"
  shows "fold eff (shared_withdrawals ws b ob a oa) (after_overlay b ob a oa) = model_of (compose a oa)"
proof (rule client_model_eqI)
  note D = transition_okD [OF ok]
  note rem = fold_removals [OF removals_only(2) [OF ws]]
  fix i
  show "fmlookup (cm_channels (fold eff (shared_withdrawals ws b ob a oa) (after_overlay b ob a oa))) i =
      fmlookup (cm_channels (model_of (compose a oa))) i"
  proof (cases "i = ROOT_ID")
    case True
    obtain c where c: "fmlookup (sv_channels a) i = Some c" using D(9) True by (auto simp: fmlookup_dom_iff)
    then show ?thesis using True root_not_private [OF ok] apartD(2) [OF D(6) c]
      by (simp add: rem in_shared_withdrawals [OF ok ws] overlay_channels_lookup [OF ok]
          withdrawn_channels_lookup [OF ok] model_of_channel view_ok_keyed D(4) compose_lookup)
  next
    case False
    then show ?thesis
      by (auto simp: rem in_shared_withdrawals [OF ok ws] overlay_channels_lookup [OF ok]
          withdrawn_channels_lookup [OF ok] model_of_channel view_ok_keyed D(3,4) compose_lookup root_id_zero
          split: option.splits)
  qed
next
  note D = transition_okD [OF ok]
  note rem = fold_removals [OF removals_only(2) [OF ws]]
  fix s
  show "fmlookup (cm_users (fold eff (shared_withdrawals ws b ob a oa) (after_overlay b ob a oa))) s =
      fmlookup (cm_users (model_of (compose a oa))) s"
    by (auto simp: rem in_shared_withdrawals [OF ok ws] overlay_users_lookup [OF ok]
        withdrawn_users_lookup [OF ok] model_of_user view_ok_keyed D(3,4) compose_lookup split: option.splits)
qed

subsection \<open>No message is refused\<close>

lemma coherent_after_shared:
  "transition_ok r b ob a oa \<Longrightarrow> coherent r (after_shared b ob a)"
  unfolding after_shared_def
  using safe_shared coherent_model transition_okD(3,7) safe_coherent by blast

text \<open>Who is in a channel, and what hangs from one, before the overlay withdraws its channels.\<close>

lemma shared_user_channel:
  assumes ok: "transition_ok r b ob a oa" and u: "fmlookup (cm_users (after_withdrawn b ob a oa)) s = Some u"
    and i: "fmlookup (ov_channels ob) i \<noteq> None" "fmlookup (sv_channels (compose a oa)) i = None"
  shows "mu_channel u \<noteq> i"
proof (cases "fmlookup (sv_users a) s")
  note D = transition_okD [OF ok]
  case (Some new)
  then obtain p where "fmlookup (sv_channels a) (us_channel new) = Some p" using view_okD(4) [OF D(2)] by blast
  then have "us_channel new \<noteq> i" using i(2) by (auto simp: compose_lookup split: option.splits)
  then show ?thesis using u Some i by (auto simp: withdrawn_users_lookup [OF ok] model_user_of_def split: if_splits)
next
  note D = transition_okD [OF ok]
  case None
  then obtain old where old: "fmlookup (sv_users (compose b ob)) s = Some old" and u': "u = model_user_of old"
    using u by (auto simp: withdrawn_users_lookup [OF ok] model_of_user view_ok_keyed D(3) split: if_splits)
  show ?thesis
  proof (cases "fmlookup (ov_users ob) s")
    case None
    then have "fmlookup (sv_users b) s = Some old" using old by (simp add: compose_lookup)
    then obtain p where "fmlookup (sv_channels b) (us_channel old) = Some p" using view_okD(4) [OF D(1)] by blast
    then have "us_channel old \<noteq> i" using i(1) apartD(2) [OF D(5)] by auto
    then show ?thesis using u' by (simp add: model_user_of_def)
  next
    case (Some o')
    then have o': "o' = old" using old by (simp add: compose_lookup)
    have "fmlookup (ov_users oa) s \<noteq> None"
      using u Some None by (auto simp: withdrawn_users_lookup [OF ok] compose_lookup split: if_splits option.splits)
    then have "us_channel old |\<in>| fmdom (ov_channels ob) \<longrightarrow> us_channel old |\<in>| fmdom (sv_channels (compose a oa))"
      using D(11) Some o' unfolding settled_def by (auto simp: fmlookup_dom_iff)
    then show ?thesis using i u' by (auto simp: model_user_of_def fmlookup_dom_iff)
  qed
qed

lemma shared_child_channel:
  assumes ok: "transition_ok r b ob a oa"
    and c: "fmlookup (cm_channels (after_shared b ob a)) j = Some c" "mc_parent c = Some i"
    and i: "fmlookup (ov_channels ob) i \<noteq> None" "fmlookup (sv_channels (compose a oa)) i = None"
  shows "\<exists>old. fmlookup (ov_channels ob) j = Some old \<and> fmlookup (sv_channels (compose a oa)) j = None \<and>
     ch_parent old = i \<and> c = model_channel_of old"
proof -
  note D = transition_okD [OF ok]
  have lk: "fmlookup (cm_channels (after_shared b ob a)) j =
      (case fmlookup (sv_channels a) j of Some new \<Rightarrow> Some (model_channel_of new)
        | None \<Rightarrow> fmlookup (cm_channels (model_of (compose b ob))) j)"
    unfolding after_shared_def by (rule after_shared_channels [OF ok])
  show ?thesis
  proof (cases "fmlookup (sv_channels a) j")
    case (Some new)
    then have "ch_parent new = i" using lk c by (auto simp: model_channel_of_def split: if_splits)
    then show ?thesis using view_okD(3) [OF D(2) Some] i(2) by (auto simp: compose_lookup split: option.splits)
  next
    case None
    then obtain old where old: "fmlookup (sv_channels (compose b ob)) j = Some old" "c = model_channel_of old"
      using lk c by (auto simp: model_of_channel view_ok_keyed D(3) root_model_def split: option.splits if_splits)
    have par: "ch_parent old = i" using old(2) c(2) by (auto simp: model_channel_of_def split: if_splits)
    show ?thesis
    proof (cases "fmlookup (ov_channels ob) j")
      case None
      then have "fmlookup (sv_channels b) j = Some old" using old by (simp add: compose_lookup)
      then show ?thesis using view_okD(3) [OF D(1)] par i(1) apartD(2) [OF D(5)] by fastforce
    next
      case (Some o')
      then have o': "o' = old" using old by (simp add: compose_lookup)
      have "fmlookup (ov_channels oa) j = None"
      proof (rule ccontr)
        assume "fmlookup (ov_channels oa) j \<noteq> None"
        then have "i |\<in>| fmdom (sv_channels (compose a oa))"
          using D(11) Some o' par i(1) unfolding settled_def by (auto simp: fmlookup_dom_iff)
        then show False using i(2) by (auto simp: fmlookup_dom_iff)
      qed
      then show ?thesis using Some o' par old(2) None \<open>fmlookup (sv_channels a) j = None\<close> by (simp add: compose_lookup)
    qed
  qed
qed

lemma overlay_gone_order:
  assumes "transition_ok r b ob a oa"
  shows "sorted_wrt (\<lambda>i j. \<forall>c. fmlookup (ov_channels ob) j = Some c \<longrightarrow> ch_parent c \<noteq> j \<longrightarrow> ch_parent c \<noteq> i)
     (overlay_gone_channels ob oa)"
proof -
  note D = transition_okD [OF assms]
  have up: "r (ch_parent d) < r j" if "fmlookup (ov_channels ob) j = Some d" "ch_parent d \<noteq> j" for j d
  proof -
    have B: "fmlookup (sv_channels (compose b ob)) j = Some d" using that(1) by (simp add: compose_lookup)
    then have "j \<noteq> ROOT_ID" using ranked_root [OF D(7)] that(2) by auto
    then show ?thesis using ranked_parent [OF D(7) B] by simp
  qed
  let ?xs = "map (\<lambda>i. (i, overlay_depth (ov_channels ob) i)) (filter (\<lambda>i. \<not> fm_has (ov_channels oa) i) (fkeys (ov_channels ob)))"
  have "sorted_wrt (\<lambda>x y. (case x of (i, d) \<Rightarrow> (- uint d, i)) \<le> (case y of (i, d) \<Rightarrow> (- uint d, i)))
      (sort_key (\<lambda>(i, d). (- uint d, i)) ?xs)"
    by (rule sorted_wrt_sort_key)
  then have "sorted_wrt (\<lambda>x y. \<forall>c. fmlookup (ov_channels ob) (fst y) = Some c \<longrightarrow> ch_parent c \<noteq> fst y \<longrightarrow> ch_parent c \<noteq> fst x)
      (sort_key (\<lambda>(i, d). (- uint d, i)) ?xs)"
  proof (rule sorted_wrt_mono_rel [rotated], intro allI impI)
    fix x y c
    assume "x \<in> set (sort_key (\<lambda>(i, d). (- uint d, i)) ?xs)" and "y \<in> set (sort_key (\<lambda>(i, d). (- uint d, i)) ?xs)"
      and le: "(case x of (i, d) \<Rightarrow> (- uint d, i)) \<le> (case y of (i, d) \<Rightarrow> (- uint d, i))"
      and c: "fmlookup (ov_channels ob) (fst y) = Some c" "ch_parent c \<noteq> fst y"
    then have "snd x = overlay_depth (ov_channels ob) (fst x)" "snd y = overlay_depth (ov_channels ob) (fst y)" by auto
    then have "uint (overlay_depth (ov_channels ob) (fst y)) \<le> uint (overlay_depth (ov_channels ob) (fst x))"
      using le by (auto simp: less_eq_prod_def split: prod.splits)
    moreover have "uint (overlay_depth (ov_channels ob) (ch_parent c)) < uint (overlay_depth (ov_channels ob) (fst y))"
      using overlay_depth_parent [of "ov_channels ob" r, OF up c] by simp
    ultimately show "ch_parent c \<noteq> fst x" by auto
  qed
  then show ?thesis unfolding overlay_gone_channels_def sorted_wrt_map .
qed

lemma user_removals_ok: "coherent r m \<Longrightarrow> \<forall>op \<in> set ops. \<exists>s. op = RemoveUser s \<Longrightarrow> safe r m ops"
  by (rule safe_user_ops) fastforce+

lemma removal_kinds: "user_ops (map RemoveUser ss)" "channel_ops (map RemoveChannel is)"
  by (auto simp: user_ops_def channel_ops_def)

lemma safe_overlay_withdrawals:
  assumes ok: "transition_ok r b ob a oa"
  shows "safe r (after_shared b ob a) (overlay_withdrawals b ob a oa)"
proof -
  note D = transition_okD [OF ok]
  let ?us = "filter (survives b ob a oa \<circ> RemoveUser) (overlay_gone_users ob oa)"
  let ?is = "filter (survives b ob a oa \<circ> RemoveChannel) (overlay_gone_channels ob oa)"
  let ?m = "after_shared b ob a"
  let ?n = "fold eff (map RemoveUser ?us) ?m"
  have split: "overlay_withdrawals b ob a oa = map RemoveUser ?us @ map RemoveChannel ?is"
    by (simp add: overlay_withdrawals_def filter_map comp_def)
  have c0: "coherent r ?m" by (rule coherent_after_shared [OF ok])
  have s1: "safe r ?m (map RemoveUser ?us)" by (rule user_removals_ok [OF c0]) auto
  have users: "cm_users (after_withdrawn b ob a oa) = cm_users ?n"
    unfolding after_withdrawn_def split by (simp add: fold_eff_other removal_kinds)
  have chans: "cm_channels ?n = cm_channels ?m" by (simp add: fold_eff_other removal_kinds)
  have gone: "i \<in> set ?is \<longleftrightarrow> fmlookup (ov_channels ob) i \<noteq> None \<and> fmlookup (sv_channels (compose a oa)) i = None" for i
    using in_overlay_withdrawals(2) [OF ok, of i] by (auto simp: split)
  have child: "\<exists>old. fmlookup (ov_channels ob) j = Some old \<and> fmlookup (sv_channels (compose a oa)) j = None \<and>
      ch_parent old = i \<and> i \<noteq> j" if "i \<in> set ?is" "hangs_from ?n i j" for i j
  proof -
    from that(2) obtain c where c: "fmlookup (cm_channels ?m) j = Some c" "mc_parent c = Some i"
      by (auto simp: hangs_from_def chans)
    have "i \<noteq> j" using coherentD(5) [OF c0 c] by auto
    moreover have "fmlookup (ov_channels ob) i \<noteq> None" "fmlookup (sv_channels (compose a oa)) i = None"
      using that(1) unfolding gone by blast+
    ultimately show ?thesis using shared_child_channel [OF ok c] by auto
  qed
  have "safe r ?n (map RemoveChannel ?is)"
  proof (rule safe_removals [OF safe_coherent [OF c0 s1]])
    show "mu_channel u \<noteq> i" if "i \<in> set ?is" "fmlookup (cm_users ?n) s = Some u" for i s u
      using shared_user_channel [OF ok, of s u i] that unfolding users [symmetric] gone by simp
    show "j \<in> set ?is" if "i \<in> set ?is" "hangs_from ?n i j" for i j
      using child [OF that] unfolding gone by blast
    have order: "sorted_wrt (\<lambda>i j. \<forall>c. fmlookup (ov_channels ob) j = Some c \<longrightarrow> ch_parent c \<noteq> j \<longrightarrow> ch_parent c \<noteq> i) ?is"
      using overlay_gone_order [OF ok] by (rule sorted_wrt_filter)
    show "sorted_wrt (\<lambda>i j. i \<noteq> ROOT_ID \<longrightarrow> \<not> hangs_from ?n i j) ?is"
    proof (rule sorted_wrt_mono_rel [OF _ order], intro impI notI)
      fix i j assume "i \<in> set ?is" and "hangs_from ?n i j"
        and no: "\<forall>c. fmlookup (ov_channels ob) j = Some c \<longrightarrow> ch_parent c \<noteq> j \<longrightarrow> ch_parent c \<noteq> i"
      then show False using child by blast
    qed
  qed
  then show ?thesis unfolding split safe_append using s1 by blast
qed

lemma coherent_after_withdrawn:
  "transition_ok r b ob a oa \<Longrightarrow> coherent r (after_withdrawn b ob a oa)"
  unfolding after_withdrawn_def
  using safe_overlay_withdrawals coherent_after_shared safe_coherent by blast

text \<open>The private channels are created in the order of their ids.\<close>

lemma order_loop_rootless:
  assumes "\<And>c. c \<in> set cs \<Longrightarrow> ch_parent c \<noteq> ch_id c"
  shows "order_loop {||} cs = cs"
proof -
  have "creation_pass {||} cs = ({||}, [], cs)" using assms by (induction cs) auto
  then show ?thesis by (cases cs) (simp_all add: order_loop.simps)
qed

lemma parents_first_sorted:
  "sorted_wrt (<) (map ch_id cs) \<Longrightarrow>
   (\<And>c. c \<in> set cs \<Longrightarrow> ch_parent c |\<in>| known \<or> (\<exists>d \<in> set cs. ch_parent c = ch_id d \<and> ch_id d < ch_id c)) \<Longrightarrow>
   parents_first known cs"
proof (induction cs arbitrary: known)
  case (Cons c cs)
  have head: "ch_parent c |\<in>| known" using Cons.prems(1) Cons.prems(2) [of c] by fastforce
  have "parents_first (finsert (ch_id c) known) cs"
  proof (rule Cons.IH)
    fix e assume "e \<in> set cs"
    then show "ch_parent e |\<in>| finsert (ch_id c) known \<or> (\<exists>d \<in> set cs. ch_parent e = ch_id d \<and> ch_id d < ch_id e)"
      using Cons.prems(2) [of e] by auto
  qed (use Cons.prems(1) in auto)
  then show ?case using head by simp
qed simp

lemma sorted_filter_map_ids:
  assumes "\<And>k c. fmlookup m k = Some c \<Longrightarrow> ch_id c = k" and "\<And>k c d. f (k, c) = Some d \<Longrightarrow> d = c"
  shows "sorted_wrt (<) (map ch_id (filter_map f (items m)))"
proof -
  have gen: "sorted_wrt (<) (map ch_id (filter_map f es))"
    if "sorted_wrt (<) (map fst es)" "\<And>k c. (k, c) \<in> set es \<Longrightarrow> ch_id c = k" for es
    using that
  proof (induction es)
    case (Cons e es)
    obtain k c where e: "e = (k, c)" by (cases e)
    have IH: "sorted_wrt (<) (map ch_id (filter_map f es))" using Cons.prems by (intro Cons.IH) auto
    have "k < ch_id d" if d: "d \<in> set (filter_map f es)" for d
    proof -
      obtain j d' where "(j, d') \<in> set es" and "f (j, d') = Some d" using d by (auto simp: in_set_filter_map)
      then show ?thesis using assms(2) Cons.prems e by fastforce
    qed
    moreover have "ch_id c = k" using Cons.prems(2) e by simp
    ultimately show ?case using IH e assms(2) by (fastforce split: option.splits)
  qed simp
  show ?thesis using gen [OF sorted_fkeys] assms(1) by (simp add: in_set_items)
qed

lemma present_after_withdrawn:
  assumes ok: "transition_ok r b ob a oa" and p: "fmlookup (sv_channels (compose a oa)) p \<noteq> None"
  shows "p |\<in>| fmdom (cm_channels (after_withdrawn b ob a oa)) \<or> p \<in> ch_id ` set (overlay_creates ob oa)"
proof -
  note D = transition_okD [OF ok]
  show ?thesis
  proof (cases "fmlookup (sv_channels a) p = None \<and> fmlookup (ov_channels ob) p = None")
    case True
    then obtain c where c: "fmlookup (ov_channels oa) p = Some c" using p by (auto simp: compose_lookup split: option.splits)
    then have "c \<in> set (overlay_creates ob oa)" using True by (auto simp: in_filter_map_items elem_create_Some)
    then show ?thesis using overlay_keyed(1) [OF D(4) c] by (metis image_eqI)
  next
    case False
    then show ?thesis using p
      by (auto simp: fmlookup_dom_iff withdrawn_channels_lookup [OF ok] model_of_channel view_ok_keyed D(3)
          compose_lookup split: option.splits)
  qed
qed

lemma overlay_creates_facts:
  assumes ok: "transition_ok r b ob a oa" and c: "c \<in> set (overlay_creates ob oa)"
  shows "ch_id c \<noteq> ROOT_ID" and "r (ch_parent c) < r (ch_id c)"
    and "fmlookup (sv_channels (compose a oa)) (ch_parent c) \<noteq> None"
proof -
  note D = transition_okD [OF ok]
  obtain i where i: "fmlookup (ov_channels oa) i = Some c" using c by (auto simp: in_filter_map_items elem_create_Some)
  then have A: "fmlookup (sv_channels (compose a oa)) i = Some c" by (simp add: compose_lookup)
  have id: "ch_id c = i" using overlay_keyed(1) [OF D(4) i] .
  show "ch_id c \<noteq> ROOT_ID" using id i root_not_private(1) [OF ok] by auto
  then show "r (ch_parent c) < r (ch_id c)" using ranked_parent [OF D(8) A] id by simp
  show "fmlookup (sv_channels (compose a oa)) (ch_parent c) \<noteq> None" using view_okD(3) [OF D(4) A] by auto
qed

lemma safe_overlay_adds:
  assumes ok: "transition_ok r b ob a oa"
  shows "safe r (after_withdrawn b ob a oa) (overlay_adds ob oa)"
proof -
  note D = transition_okD [OF ok]
  let ?m = "after_withdrawn b ob a oa" and ?cs = "overlay_creates ob oa"
  let ?m1 = "fold eff (overlay_channel_adds ob oa) ?m"
  let ?m2 = "fold eff (overlay_channel_updates ob oa) (fold eff (overlay_channel_adds ob oa) ?m)"
  have c0: "coherent r ?m" by (rule coherent_after_withdrawn [OF ok])
  have plain: "order_creations ?cs empty_view = ?cs"
    unfolding order_creations_def
    using overlay_creates_facts(2) [OF ok] by (simp add: empty_view_def) (rule order_loop_rootless, fastforce)
  have first: "parents_first (fmdom (cm_channels ?m)) ?cs"
  proof (rule parents_first_sorted)
    show "sorted_wrt (<) (map ch_id ?cs)"
      using overlay_keyed(1) [OF D(4)] by (intro sorted_filter_map_ids) (auto simp: elem_create_Some)
    fix c assume c: "c \<in> set ?cs"
    show "ch_parent c |\<in>| fmdom (cm_channels ?m) \<or> (\<exists>d \<in> set ?cs. ch_parent c = ch_id d \<and> ch_id d < ch_id c)"
    proof (cases "ch_parent c |\<in>| fmdom (cm_channels ?m)")
      case False
      then obtain d where d: "d \<in> set ?cs" "ch_parent c = ch_id d"
        using present_after_withdrawn [OF ok overlay_creates_facts(3) [OF ok c]] by auto
      have "ch_id d \<le> ch_id c" using D(11) c d unfolding settled_def by blast
      moreover have "ch_id d \<noteq> ch_id c" using overlay_creates_facts(2) [OF ok c] d(2) by auto
      ultimately show ?thesis using d by auto
    qed simp
  qed
  have s1: "safe r ?m (overlay_channel_adds ob oa)"
    unfolding overlay_channel_adds_def plain
    using overlay_creates_facts(2) [OF ok] by (intro safe_creates [OF c0 first]) auto
  have c1: "coherent r ?m1" by (rule safe_coherent [OF c0 s1])
  have in_A: "p |\<in>| fmdom (cm_channels ?m1)" if A: "fmlookup (sv_channels (compose a oa)) p \<noteq> None" for p
  proof (cases "fmlookup (ov_channels oa) p")
    case None
    then have "p |\<in>| fmdom (cm_channels ?m)"
      using present_after_withdrawn [OF ok A] overlay_keyed(1) [OF D(4)]
      by (auto simp: in_filter_map_items elem_create_Some)
    then show ?thesis using None by (simp add: fmlookup_dom_iff fold_eff_channels on_overlay_creates [OF D(4)])
  next
    case (Some c)
    show ?thesis
    proof (cases "fmlookup (ov_channels ob) p")
      case None
      then show ?thesis using Some
        by (simp add: fmlookup_dom_iff fold_eff_channels on_overlay_creates [OF D(4)] elem_create_def)
    next
      case old: (Some o')
      then have "p |\<in>| fmdom (cm_channels ?m)"
        using present_after_withdrawn [OF ok A] overlay_keyed(1) [OF D(4)]
        by (auto simp: in_filter_map_items elem_create_Some)
      then show ?thesis using Some old
        by (simp add: fmlookup_dom_iff fold_eff_channels on_overlay_creates [OF D(4)] elem_create_def)
    qed
  qed
  have upd: "\<exists>i old new. op = UpdateChannel (channel_patch_of old new) \<and> fmlookup (ov_channels oa) i = Some new"
    if "op \<in> set (overlay_channel_updates ob oa)" for op
    using that by (auto simp: overlay_channel_updates_def in_filter_map_items elem_update_Some)
  then obtain ps where ps: "overlay_channel_updates ob oa = map UpdateChannel ps"
    by (metis (no_types, lifting) ex_map_conv)
  have s2: "safe r ?m1 (overlay_channel_updates ob oa)"
    unfolding ps
  proof (rule safe_updates [OF c1])
    fix p assume "p \<in> set ps"
    then obtain i old new where p: "p = channel_patch_of old new" and new: "fmlookup (ov_channels oa) i = Some new"
      using upd [of "UpdateChannel p"] ps by auto
    have A: "fmlookup (sv_channels (compose a oa)) i = Some new" using new by (simp add: compose_lookup)
    have i: "ch_id new = i" using overlay_keyed(1) [OF D(4) new] .
    show "cp_id p |\<in>| fmdom (cm_channels ?m1)" using in_A [of i] A i by (simp add: p patch_fields)
    fix q assume "cp_parent p = Some q" and "cp_id p \<noteq> ROOT_ID"
    then have "q = ch_parent new" "i \<noteq> ROOT_ID" using i by (auto simp: p patch_fields split: if_splits)
    then show "q |\<in>| fmdom (cm_channels ?m1) \<and> r q < r (cp_id p)"
      using view_okD(3) [OF D(4) A] in_A [of q] ranked_parent [OF D(8) A] i by (auto simp: p patch_fields)
  qed
  have c2: "coherent r ?m2" by (rule safe_coherent [OF c1 s2])
  have dom2: "fmdom (cm_channels ?m2) = fmdom (cm_channels ?m1)" by (rule update_ops_dom) (auto simp: ps)
  have "safe r ?m2 (overlay_user_ops ob oa)"
  proof (rule safe_user_ops [OF c2])
    fix op assume "op \<in> set (overlay_user_ops ob oa)"
    then obtain s new where new: "fmlookup (ov_users oa) s = Some new"
      and op: "op = AddUser new \<or> op = MoveUser s (us_channel new) \<or> (\<exists>p. op = UpdateUser p)"
      unfolding overlay_user_ops_def
      by (auto simp: elem_user_ops_def in_set_items split: option.splits if_splits)
    have "fmlookup (sv_users (compose a oa)) s = Some new" using new by (simp add: compose_lookup)
    then have "us_channel new |\<in>| fmdom (cm_channels ?m2)" using view_okD(4) [OF D(4)] in_A dom2 by fastforce
    then show "user_op (fmdom (cm_channels ?m2)) op" using op by auto
  qed
  then show ?thesis using s1 s2 by (simp add: safe_append)
qed

lemma coherent_after_overlay:
  "transition_ok r b ob a oa \<Longrightarrow> coherent r (after_overlay b ob a oa)"
  unfolding after_overlay_def
  using safe_overlay_adds coherent_after_withdrawn safe_coherent by blast

lemma ranked_shared:
  assumes "transition_ok r b ob a oa"
  shows "ranked r (sv_channels b)"
proof -
  note D = transition_okD [OF assms]
  have "fmlookup (sv_channels (compose b ob)) i = Some c" if "fmlookup (sv_channels b) i = Some c" for i c
    using that apartD(2) [OF D(5) that] by (simp add: compose_lookup)
  then show ?thesis using D(7) unfolding ranked_def by blast
qed

lemma late_channels:
  assumes ok: "transition_ok r b ob a oa" and "fmlookup (cm_channels (after_overlay b ob a oa)) j = Some c"
  shows "(\<exists>new. fmlookup (sv_channels (compose a oa)) j = Some new \<and> c = model_channel_of new) \<or>
     (\<exists>old. fmlookup (sv_channels b) j = Some old \<and> fmlookup (sv_channels (compose a oa)) j = None \<and> c = model_channel_of old) \<or>
     c = root_model"
proof (cases "fmlookup (ov_channels oa) j")
  case (Some new)
  then show ?thesis using assms(2) by (auto simp: overlay_channels_lookup [OF ok] compose_lookup)
next
  note D = transition_okD [OF ok]
  case None
  show ?thesis
  proof (cases "fmlookup (sv_channels a) j")
    case (Some new)
    then show ?thesis using None assms(2)
      by (auto simp: overlay_channels_lookup [OF ok] withdrawn_channels_lookup [OF ok] compose_lookup)
  next
    case gone: None
    then have A: "fmlookup (sv_channels (compose a oa)) j = None" using None by (simp add: compose_lookup)
    then have "fmlookup (ov_channels ob) j = None"
      using None assms(2) by (auto simp: overlay_channels_lookup [OF ok] withdrawn_channels_lookup [OF ok] split: if_splits)
    then show ?thesis using None gone A assms(2)
      by (auto simp: overlay_channels_lookup [OF ok] withdrawn_channels_lookup [OF ok] model_of_channel
          view_ok_keyed D(3) compose_lookup split: option.splits if_splits)
  qed
qed

lemma safe_shared_withdrawals:
  assumes ok: "transition_ok r b ob a oa" and ws: "mset ws = mset (withdrawn_users b a)"
  shows "safe r (after_overlay b ob a oa) (shared_withdrawals ws b ob a oa)"
proof -
  note D = transition_okD [OF ok]
  let ?us = "filter (survives b ob a oa) (map po_op ws)"
  let ?is = "filter (survives b ob a oa \<circ> RemoveChannel) (map fst (order_removals (withdrawn_channels b a) b))"
  let ?m = "after_overlay b ob a oa"
  let ?n = "fold eff ?us ?m"
  have split: "shared_withdrawals ws b ob a oa = ?us @ map RemoveChannel ?is"
    by (simp add: shared_withdrawals_def filter_map comp_def)
  have "set ws = set (withdrawn_users b a)" using ws by (metis set_mset_mset)
  then have rem: "\<forall>op \<in> set ?us. \<exists>s. op = RemoveUser s" by (auto simp: in_withdrawn_users planned_def)
  have kind: "user_ops ?us" using rem by (auto simp: user_ops_def)
  have c0: "coherent r ?m" by (rule coherent_after_overlay [OF ok])
  have s1: "safe r ?m ?us" by (rule user_removals_ok [OF c0 rem])
  have "cm_users (fold eff (shared_withdrawals ws b ob a oa) ?m) = cm_users ?n"
    unfolding split by (simp add: fold_eff_other removal_kinds)
  then have users: "cm_users ?n = cm_users (model_of (compose a oa))" using final_state [OF ok ws] by simp
  have chans: "cm_channels ?n = cm_channels ?m" by (simp add: fold_eff_other kind)
  have gone: "i \<in> set ?is \<longleftrightarrow> fmlookup (sv_channels b) i \<noteq> None \<and> fmlookup (sv_channels (compose a oa)) i = None" for i
    using in_shared_withdrawals(2) [OF ok ws, of i] rem by (auto simp: split)
  have child: "\<exists>old. fmlookup (sv_channels b) j = Some old \<and> fmlookup (sv_channels (compose a oa)) j = None \<and>
      ch_parent old = i \<and> i \<noteq> j \<and> j \<noteq> ROOT_ID" if i: "i \<in> set ?is" and h: "hangs_from ?n i j" for i j
  proof -
    from h obtain c where c: "fmlookup (cm_channels ?m) j = Some c" "mc_parent c = Some i"
      by (auto simp: hangs_from_def chans)
    have ij: "i \<noteq> j" using coherentD(5) [OF c0 c] by auto
    have root: "j \<noteq> ROOT_ID" using coherentD(2) [OF c0] c by auto
    have "\<not> (fmlookup (sv_channels (compose a oa)) j = Some new \<and> c = model_channel_of new)" for new
    proof
      assume new: "fmlookup (sv_channels (compose a oa)) j = Some new \<and> c = model_channel_of new"
      then have "ch_parent new = i" using c(2) by (auto simp: model_channel_of_def split: if_splits)
      then have "fmlookup (sv_channels (compose a oa)) i \<noteq> None" using new view_okD(3) [OF D(4)] by fastforce
      then show False using i unfolding gone by simp
    qed
    moreover have "c \<noteq> root_model" using c(2) by (auto simp: root_model_def)
    ultimately obtain old where old: "fmlookup (sv_channels b) j = Some old"
        "fmlookup (sv_channels (compose a oa)) j = None" "c = model_channel_of old"
      using late_channels [OF ok c(1)] by blast
    moreover have "ch_parent old = i" using old(3) c(2) by (auto simp: model_channel_of_def split: if_splits)
    ultimately show ?thesis using ij root by blast
  qed
  have "safe r ?n (map RemoveChannel ?is)"
  proof (rule safe_removals [OF safe_coherent [OF c0 s1]])
    show "mu_channel u \<noteq> i" if i: "i \<in> set ?is" and u: "fmlookup (cm_users ?n) s = Some u" for i s u
    proof -
      obtain new where new: "fmlookup (sv_users (compose a oa)) s = Some new" "u = model_user_of new"
        using u by (auto simp: users model_of_user view_ok_keyed D(4))
      then show ?thesis using view_okD(4) [OF D(4) new(1)] i unfolding gone by (auto simp: model_user_of_def)
    qed
    show "j \<in> set ?is" if i: "i \<in> set ?is" and h: "hangs_from ?n i j" for i j
      using child [OF i h] unfolding gone by auto
    have order: "sorted_wrt (child_before (sv_channels b)) ?is"
      by (rule sorted_wrt_filter) (rule order_removals_children_first [OF ranked_shared [OF ok]])
    show "sorted_wrt (\<lambda>i j. i \<noteq> ROOT_ID \<longrightarrow> \<not> hangs_from ?n i j) ?is"
    proof (rule sorted_wrt_mono_rel [OF _ order], intro impI notI)
      fix i j assume i: "i \<in> set ?is" and h: "hangs_from ?n i j" and no: "child_before (sv_channels b) i j"
      obtain old where "fmlookup (sv_channels b) j = Some old" "ch_parent old = i" "i \<noteq> j" "j \<noteq> ROOT_ID"
        using child [OF i h] by blast
      then show False using no unfolding child_before_def by auto
    qed
  qed
  then show ?thesis unfolding split safe_append using s1 by blast
qed

subsection \<open>The refinement\<close>

lemma composed_phases:
  assumes ws: "mset ws = mset (withdrawn_users b a)"
  shows "collapse (splice_ops (map po_op (plan_with ws b a)) (plan_elements ob oa)) =
     shared_adds b a @ overlay_withdrawals b ob a oa @ overlay_adds ob oa @ shared_withdrawals ws b ob a oa"
proof -
  let ?rs = "map RemoveUser (overlay_gone_users ob oa) @ map RemoveChannel (overlay_gone_channels ob oa)"
  let ?ts = "map po_op ws @ map RemoveChannel (map fst (order_removals (withdrawn_channels b a) b))"
  have sets: "set ws = set (withdrawn_users b a)" using ws by (metis set_mset_mset)
  have rs: "is_removal op" if "op \<in> set ?rs" for op using that by auto
  have ts: "is_removal op" if "op \<in> set ?ts" for op using that sets by (auto simp: in_withdrawn_users planned_def)
  have "splice_ops (shared_adds b a @ ?ts) (plan_elements ob oa) = shared_adds b a @ ?rs @ overlay_adds ob oa @ ?ts"
    using splice_phases [of "shared_adds b a" ?ts "plan_elements ob oa", OF no_removals(1) ts]
    by (simp add: plan_elements_phases overlay_channel_adds_def overlay_channel_updates_def overlay_user_ops_def)
  moreover have "collapse (shared_adds b a @ ?rs @ overlay_adds ob oa @ ?ts) =
      shared_adds b a @ overlay_withdrawals b ob a oa @ overlay_adds ob oa @ shared_withdrawals ws b ob a oa"
    unfolding overlay_withdrawals_def shared_withdrawals_def survives_def
    by (rule collapse_phases [OF no_removals(1) no_removals(2) rs ts])
  ultimately show ?thesis unfolding plan_with_ops by simp
qed

lemma composed_transition:
  assumes ok: "transition_ok r b ob a oa" and ws: "mset ws = mset (withdrawn_users b a)"
  shows "apply_msgs (emit (collapse (splice_ops (map po_op (plan_with ws b a)) (plan_elements ob oa))) self)
     (model_of (compose b ob)) = Inr (model_of (compose a oa))"
proof -
  note D = transition_okD [OF ok]
  let ?ops = "shared_adds b a @ overlay_withdrawals b ob a oa @ overlay_adds ob oa @ shared_withdrawals ws b ob a oa"
  have "safe r (model_of (compose b ob)) ?ops"
    unfolding safe_append [of r _ "shared_adds b a"] safe_append [of r _ "overlay_withdrawals b ob a oa"]
      safe_append [of r _ "overlay_adds ob oa"]
    unfolding after_shared_def [symmetric] after_withdrawn_def [symmetric] after_overlay_def [symmetric]
    using safe_shared [OF ok] safe_overlay_withdrawals [OF ok] safe_overlay_adds [OF ok]
      safe_shared_withdrawals [OF ok ws] by blast
  moreover have "fold eff ?ops (model_of (compose b ob)) = model_of (compose a oa)"
    unfolding fold_append [of _ "shared_adds b a"] fold_append [of _ "overlay_withdrawals b ob a oa"]
      fold_append [of _ "overlay_adds ob oa"] comp_def
    unfolding after_shared_def [symmetric] after_withdrawn_def [symmetric] after_overlay_def [symmetric]
    by (rule final_state [OF ok ws])
  ultimately show ?thesis
    unfolding composed_phases [OF ws] using safe_emit [OF coherent_model [OF D(3,7)]] by simp
qed

end
