(* ===== verification/Samples.thy ===== *)
theory Samples
  imports Refinement
begin

text \<open>
  Concrete views shared by the witnesses of the properties: a lobby in which a team channel opens, its
  one user moves there, and a private channel with its occupant appears for them.
\<close>

subsection \<open>A concrete turn\<close>

definition w_channel :: "channel_id \<Rightarrow> channel_id \<Rightarrow> scope \<Rightarrow> string \<Rightarrow> channel" where
  "w_channel i p s n = \<lparr>ch_key = ucast i, ch_id = i, ch_parent = p, ch_scope = s, ch_name = n,
     ch_position = 0, ch_can_enter = True, ch_can_text = True, ch_links = {||}\<rparr>"

definition w_user :: "session_id \<Rightarrow> channel_id \<Rightarrow> scope \<Rightarrow> string \<Rightarrow> user" where
  "w_user s c sc n = \<lparr>us_occupant = Connection (ucast s), us_session = s, us_channel = c, us_scope = sc,
     us_name = n, us_flags = default_flags\<rparr>"

definition w_team :: scope where
  "w_team = Scope [7, 0, 0, 0] 1"

definition w_before :: shard_view where
  "w_before = \<lparr>sv_channels = fmupd 0 (w_channel 0 0 ROOT_SCOPE ''Root'') (fmupd 1 (w_channel 1 0 ROOT_SCOPE ''Lobby'') fmempty),
     sv_users = fmupd 1 (w_user 1 1 ROOT_SCOPE ''ann'') fmempty\<rparr>"

definition w_after :: shard_view where
  "w_after = \<lparr>sv_channels = fmupd 0 (w_channel 0 0 ROOT_SCOPE ''Root'') (fmupd 1 (w_channel 1 0 ROOT_SCOPE ''Hall'')
       (fmupd 2 (w_channel 2 1 w_team ''Team'') fmempty)),
     sv_users = fmupd 1 (w_user 1 2 w_team ''ann'') fmempty\<rparr>"

definition w_overlay :: overlay where
  "w_overlay = \<lparr>ov_channels = fmupd 3 (w_channel 3 1 ROOT_SCOPE ''Staff'') fmempty,
     ov_users = fmupd 9 (w_user 9 3 ROOT_SCOPE ''bob'') fmempty\<rparr>"

definition w_see :: scope_set where
  "w_see = ScopeSet [Some ROOT_SCOPE, None, None, None]"

lemmas w_defs = w_before_def w_after_def w_overlay_def w_channel_def w_user_def w_team_def w_see_def

lemma w_sees: "sees w_see s"
  by (simp add: sees_def w_see_def set_iter_def comparable_def)

lemma w_restrict: "restrict v w_see = v"
  by (cases v) (auto simp: restrict_def w_sees intro!: fmap_ext split: option.splits)

lemma w_ok: "view_ok w_before" "view_ok w_after" "view_ok (compose w_after w_overlay)"
  unfolding view_ok_def view_keyed_def view_closed_def sc.refs_closed_def ranked_def
  by (auto simp: w_defs ROOT_ID_def compose_def is_prefix_of_def ROOT_SCOPE_def MAX_DEPTH_def intro!: exI [of _ unat] split: if_splits option.splits)

lemma w_transition: "transition_ok unat w_before empty_overlay w_after w_overlay"
proof -
  have "keeps_links w_before empty_overlay w_after w_overlay"
    by (auto simp: keeps_links_def w_defs compose_lookup empty_overlay_def split: if_splits)
  moreover have "settled empty_overlay w_after w_overlay"
    by (auto simp: settled_def empty_overlay_def w_defs elem_create_def in_filter_map_items split: if_splits)
  moreover have "apart w_before empty_overlay" "apart w_after w_overlay"
    by (auto simp: apart_def w_defs empty_overlay_def)
  moreover have "ranked unat (sv_channels w_before)" "ranked unat (sv_channels (compose w_after w_overlay))"
    by (auto simp: ranked_def w_defs compose_def ROOT_ID_def split: if_splits)
  ultimately show ?thesis
    using w_ok by (simp add: transition_ok_def) (simp add: w_defs ROOT_ID_def)
qed

lemma w_known: "known_parents w_before w_after w_see"
  unfolding known_parents_def list_all_iff
  by (auto simp: w_sees split: option.splits)

end
