(* ===== verification/Journal.thy ===== *)
theory Journal
  imports Plan
begin

text \<open>
  The delta journal, \<open>runtime/crates/shard/src/journal.rs\<close>: the last \<open>JOURNAL_DEPTH\<close> deltas of a
  shard, replayed from a connection's cursor. The abstract contract is the whole history of
  deltas: a replay is a slice of it, or says that the slice starts too far back.
\<close>

definition JOURNAL_DEPTH :: nat where "JOURNAL_DEPTH = 256"

datatype too_far_behind = TooFarBehind (tfb_cursor: u64) (tfb_tail: u64)

record journal =
  jn_tail :: u64
  jn_head :: u64
  jn_entries :: "planned_op list list"

definition journal_new :: journal where
  "journal_new = \<lparr>jn_tail = 0, jn_head = 0, jn_entries = []\<rparr>"

text \<open>The eviction loop of \<open>push\<close>.\<close>

function evict :: "u64 \<Rightarrow> planned_op list list \<Rightarrow> u64 \<times> planned_op list list" where
  "evict tail entries =
     (if JOURNAL_DEPTH < length entries then evict (saturating_add tail 1) (tl entries) else (tail, entries))"
  by pat_completeness auto
termination
  by (relation "measure (length \<circ> snd)") auto

declare evict.simps [simp del]

definition journal_push :: "planned_op list \<Rightarrow> journal \<Rightarrow> u64 \<times> journal" where
  "journal_push ops j =
     (let head = saturating_add (jn_head j) 1;
          (tail, entries) = evict (jn_tail j) (jn_entries j @ [ops])
      in (head, \<lparr>jn_tail = tail, jn_head = head, jn_entries = entries\<rparr>))"

definition replay :: "u64 \<Rightarrow> u64 \<Rightarrow> journal \<Rightarrow> (too_far_behind, planned_op list) result" where
  "replay from target j =
     (if from < jn_tail j then Inl (TooFarBehind from (jn_tail j))
      else let target = min target (jn_head j) in
        if target \<le> from then Inr []
        else let start = unat (from - jn_tail j); end' = unat (target - jn_tail j) in
          Inr (concat (drop start (take end' (jn_entries j)))))"

subsection \<open>The invariant\<close>

definition journal_ok :: "journal \<Rightarrow> bool" where
  "journal_ok j \<longleftrightarrow> length (jn_entries j) \<le> JOURNAL_DEPTH \<and>
     unat (jn_head j) = unat (jn_tail j) + length (jn_entries j)"

lemma journal_ok_new: "journal_ok journal_new"
  by (simp add: journal_ok_def journal_new_def)

lemma evict_small: "length es \<le> JOURNAL_DEPTH \<Longrightarrow> evict t es = (t, es)"
  by (simp add: evict.simps)

lemma evict_one:
  "length es = Suc JOURNAL_DEPTH \<Longrightarrow> evict t es = (saturating_add t 1, tl es)"
  by (simp add: evict.simps [of t es] evict_small)

lemma unat_succ: "unat (n :: u64) < 2 ^ 64 - 1 \<Longrightarrow> unat (saturating_add n 1) = Suc (unat n)"
  by (simp add: unat_saturating_add)

lemma journal_push_cases:
  assumes "journal_ok j" and "unat (jn_head j) < 2 ^ 64 - 1"
  obtains (room) "length (jn_entries j) < JOURNAL_DEPTH"
      "snd (journal_push ops j) = \<lparr>jn_tail = jn_tail j, jn_head = saturating_add (jn_head j) 1,
        jn_entries = jn_entries j @ [ops]\<rparr>"
  | (full) "length (jn_entries j) = JOURNAL_DEPTH"
      "snd (journal_push ops j) = \<lparr>jn_tail = saturating_add (jn_tail j) 1, jn_head = saturating_add (jn_head j) 1,
        jn_entries = tl (jn_entries j @ [ops])\<rparr>"
proof (cases "length (jn_entries j) < JOURNAL_DEPTH")
  case True
  then show ?thesis using room by (simp add: journal_push_def Let_def evict_small)
next
  case False
  then have "length (jn_entries j) = JOURNAL_DEPTH" using assms(1) by (simp add: journal_ok_def)
  then show ?thesis using full by (simp add: journal_push_def Let_def evict_one)
qed

lemma unat_tail_bound: "journal_ok j \<Longrightarrow> unat (jn_tail j) \<le> unat (jn_head j)"
  by (simp add: journal_ok_def)

lemma journal_ok_push:
  assumes "journal_ok j" and "unat (jn_head j) < 2 ^ 64 - 1"
  shows "journal_ok (snd (journal_push ops j))"
  using assms
proof (cases rule: journal_push_cases [where ops = ops])
  case room
  then show ?thesis using assms by (simp add: journal_ok_def unat_succ)
next
  case full
  have "unat (jn_tail j) < 2 ^ 64 - 1" using assms unat_tail_bound by fastforce
  then show ?thesis using full assms by (simp add: journal_ok_def unat_succ)
qed

subsection \<open>Replay is a slice of the history\<close>

text \<open>
  \<open>history ds j\<close>: the journal holds the end of the history \<open>ds\<close> of all deltas ever pushed.
\<close>

definition history :: "planned_op list list \<Rightarrow> journal \<Rightarrow> bool" where
  "history ds j \<longleftrightarrow> unat (jn_head j) = length ds \<and> unat (jn_tail j) = length ds - JOURNAL_DEPTH \<and>
     jn_entries j = drop (length ds - JOURNAL_DEPTH) ds"

lemma history_ok: "history ds j \<Longrightarrow> journal_ok j"
  by (auto simp: history_def journal_ok_def)

lemma history_new: "history [] journal_new"
  by (simp add: history_def journal_new_def)

lemma history_push:
  assumes "history ds j" and "length ds < 2 ^ 64 - 1"
  shows "history (ds @ [ops]) (snd (journal_push ops j))"
proof -
  have ok: "journal_ok j" and h: "unat (jn_head j) < 2 ^ 64 - 1"
    using assms history_ok by (auto simp: history_def)
  from ok h show ?thesis
  proof (cases rule: journal_push_cases [where ops = ops])
    case room
    then have "length ds < JOURNAL_DEPTH" using assms(1) by (simp add: history_def JOURNAL_DEPTH_def)
    then show ?thesis using room assms(1) h by (simp add: history_def unat_succ)
  next
    case full
    then have n: "JOURNAL_DEPTH \<le> length ds" using assms(1) by (auto simp: history_def)
    have "unat (jn_tail j) < 2 ^ 64 - 1" using assms n by (auto simp: history_def)
    moreover have "tl (jn_entries j @ [ops]) = drop (Suc (length ds - JOURNAL_DEPTH)) (ds @ [ops])"
    proof -
      have "drop (length ds - JOURNAL_DEPTH) ds \<noteq> []" "Suc (length ds - JOURNAL_DEPTH) \<le> length ds"
        using n by (auto simp: JOURNAL_DEPTH_def)
      then show ?thesis using assms(1) by (simp add: history_def drop_Suc tl_drop)
    qed
    ultimately show ?thesis using full assms(1) n h by (simp add: history_def unat_succ Suc_diff_le)
  qed
qed

definition push_all :: "planned_op list list \<Rightarrow> journal" where
  "push_all ds = fold (\<lambda>ops j. snd (journal_push ops j)) ds journal_new"

lemma history_push_all: "length ds < 2 ^ 64 \<Longrightarrow> history ds (push_all ds)"
proof (induction ds rule: rev_induct)
  case (snoc ops ds)
  then show ?case using history_push [of ds "push_all ds" ops] by (simp add: push_all_def)
qed (simp add: push_all_def history_new)

lemma replay_slice:
  assumes "history ds j" and "jn_tail j \<le> from" and "target \<le> jn_head j"
  shows "replay from target j = Inr (concat (drop (unat from) (take (unat target) ds)))"
proof (cases "target \<le> from")
  case True
  then have "drop (unat from) (take (unat target) ds) = []" by (simp add: word_le_nat_alt)
  then show ?thesis using True assms(2,3) by (simp add: replay_def Let_def min_def)
next
  case False
  let ?t = "length ds - JOURNAL_DEPTH"
  have tail: "unat (jn_tail j) = ?t" using assms(1) by (simp add: history_def)
  have le: "?t \<le> unat from" "unat from < unat target"
    using assms(2) False tail by (simp_all add: word_le_nat_alt)
  have idx: "unat (from - jn_tail j) = unat from - ?t" "unat (target - jn_tail j) = unat target - ?t"
    using assms(2) False tail by (simp_all add: unat_sub)
  have "drop (unat from - ?t) (take (unat target - ?t) (drop ?t ds)) = drop (unat from) (take (unat target) ds)"
    using le by (simp add: take_drop)
  moreover have "jn_entries j = drop ?t ds" using assms(1) by (simp add: history_def)
  moreover have "\<not> from < jn_tail j" using assms(2) by simp
  ultimately show ?thesis using False assms(3) idx by (simp add: replay_def Let_def min_def)
qed

end
