(* ===== verification/Queue.thy ===== *)
theory Queue
  imports Prelude
begin

text \<open>
  One connection's bounded output queue, \<open>runtime/crates/shard/src/queue.rs\<close>: the sending half
  of a bounded channel, the atomic admission of a whole transition and the admission of
  tunnelled voice. The channel underneath is the queued messages, the capacity and whether the
  receiving half is gone; \<open>recv\<close> is the writer taking one message out.
\<close>

definition CAPACITY :: nat where "CAPACITY = 1024"
definition MAX_DEPTH_FOR_VOICE :: nat where "MAX_DEPTH_FOR_VOICE = 64"

datatype voice_admission = Accepted | Dropped

datatype refused = Congested nat nat | TooLarge nat nat | Closed

record 'm outbound_queue =
  qu_capacity :: nat
  qu_messages :: "'m list"
  qu_gone :: bool
  qu_must_close :: bool

definition with_capacity :: "nat \<Rightarrow> 'm outbound_queue" where
  "with_capacity capacity =
     \<lparr>qu_capacity = max capacity 1, qu_messages = [], qu_gone = False, qu_must_close = False\<rparr>"

definition queue_new :: "'m outbound_queue" where
  "queue_new = with_capacity CAPACITY"

datatype reserve_error = Full | ReserveClosed

text \<open>\<open>try_reserve\<close> with \<open>taken\<close> permits already held by this call.\<close>

definition try_reserve :: "'m outbound_queue \<Rightarrow> nat \<Rightarrow> (reserve_error, unit) result" where
  "try_reserve q taken =
     (if qu_gone q then Inl ReserveClosed
      else if qu_capacity q \<le> length (qu_messages q) + taken then Inl Full else Inr ())"

fun reserve_all :: "'m outbound_queue \<Rightarrow> nat \<Rightarrow> nat \<Rightarrow> (reserve_error \<times> nat) option" where
  "reserve_all q 0 taken = None"
| "reserve_all q (Suc n) taken =
     (case try_reserve q taken of Inr _ \<Rightarrow> reserve_all q n (Suc taken) | Inl e \<Rightarrow> Some (e, taken))"

definition try_send_all :: "'m list \<Rightarrow> 'm outbound_queue \<Rightarrow> (refused, unit) result \<times> 'm outbound_queue" where
  "try_send_all messages q =
     (let needed = length messages in
      if needed = 0 then (Inr (), q)
      else let capacity = qu_capacity q in
      if capacity < needed then (Inl (TooLarge needed capacity), q\<lparr>qu_must_close := True\<rparr>)
      else case reserve_all q needed 0 of
             Some (Full, permits) \<Rightarrow> (Inl (Congested needed permits), q)
           | Some (ReserveClosed, _) \<Rightarrow> (Inl Closed, q\<lparr>qu_must_close := True\<rparr>)
           | None \<Rightarrow> (Inr (), q\<lparr>qu_messages := qu_messages q @ messages\<rparr>))"

definition queue_depth :: "'m outbound_queue \<Rightarrow> nat" where
  "queue_depth q = qu_capacity q - (qu_capacity q - length (qu_messages q))"

definition push_voice :: "'m \<Rightarrow> 'm outbound_queue \<Rightarrow> voice_admission \<times> 'm outbound_queue" where
  "push_voice message q =
     (if MAX_DEPTH_FOR_VOICE \<le> queue_depth q then (Dropped, q)
      else if qu_gone q then (Dropped, q\<lparr>qu_must_close := True\<rparr>)
      else if qu_capacity q \<le> length (qu_messages q) then (Dropped, q)
      else (Accepted, q\<lparr>qu_messages := qu_messages q @ [message]\<rparr>))"

definition mark_fatal :: "'m outbound_queue \<Rightarrow> 'm outbound_queue" where
  "mark_fatal q = q\<lparr>qu_must_close := True\<rparr>"

definition recv :: "'m outbound_queue \<Rightarrow> 'm option \<times> 'm outbound_queue" where
  "recv q = (case qu_messages q of [] \<Rightarrow> (None, q) | m # ms \<Rightarrow> (Some m, q\<lparr>qu_messages := ms\<rparr>))"

subsection \<open>Admission\<close>

definition queue_ok :: "'m outbound_queue \<Rightarrow> bool" where
  "queue_ok q \<longleftrightarrow> 0 < qu_capacity q \<and> length (qu_messages q) \<le> qu_capacity q"

definition free_slots :: "'m outbound_queue \<Rightarrow> nat" where
  "free_slots q = qu_capacity q - length (qu_messages q)"

lemma reserve_all_gone: "qu_gone q \<Longrightarrow> reserve_all q n taken = (if n = 0 then None else Some (ReserveClosed, taken))"
  by (cases n) (auto simp: try_reserve_def)

lemma reserve_all_open:
  assumes "\<not> qu_gone q" and "taken \<le> free_slots q" and "queue_ok q"
  shows "reserve_all q n taken = (if taken + n \<le> free_slots q then None else Some (Full, free_slots q))"
  using assms(2)
proof (induction n arbitrary: taken)
  case (Suc n)
  show ?case
  proof (cases "taken = free_slots q")
    case True
    then show ?thesis using assms(1,3) by (simp add: try_reserve_def free_slots_def queue_ok_def)
  next
    case False
    then have "reserve_all q n (Suc taken) = (if Suc taken + n \<le> free_slots q then None else Some (Full, free_slots q))"
      using Suc by simp
    moreover have "length (qu_messages q) + taken < qu_capacity q"
      using False Suc.prems by (simp add: free_slots_def)
    ultimately show ?thesis using assms(1) by (simp add: try_reserve_def)
  qed
qed simp

text \<open>The admission by cases, with the channel's own vocabulary gone.\<close>

lemma try_send_all_cases:
  assumes "queue_ok q"
  shows "try_send_all ms q =
     (if ms = [] then (Inr (), q)
      else if qu_capacity q < length ms then (Inl (TooLarge (length ms) (qu_capacity q)), q\<lparr>qu_must_close := True\<rparr>)
      else if qu_gone q then (Inl Closed, q\<lparr>qu_must_close := True\<rparr>)
      else if free_slots q < length ms then (Inl (Congested (length ms) (free_slots q)), q)
      else (Inr (), q\<lparr>qu_messages := qu_messages q @ ms\<rparr>))"
proof (cases "qu_gone q")
  case True
  then show ?thesis by (simp add: try_send_all_def Let_def reserve_all_gone)
next
  case False
  then show ?thesis using reserve_all_open [OF False _ assms, of 0 "length ms"]
    by (simp add: try_send_all_def Let_def)
qed

lemma queue_ok_new: "queue_ok (with_capacity n)"
  by (simp add: queue_ok_def with_capacity_def)

lemma queue_ok_send: "queue_ok q \<Longrightarrow> queue_ok (snd (try_send_all ms q))"
  by (auto simp: try_send_all_cases) (auto simp: queue_ok_def free_slots_def)

lemma queue_ok_voice: "queue_ok q \<Longrightarrow> queue_ok (snd (push_voice m q))"
  by (auto simp: push_voice_def queue_ok_def)

lemma queue_ok_recv: "queue_ok q \<Longrightarrow> queue_ok (snd (recv q))"
  by (auto simp: recv_def queue_ok_def split: list.splits)

lemma queue_ok_fatal: "queue_ok q \<Longrightarrow> queue_ok (mark_fatal q)"
  by (simp add: mark_fatal_def queue_ok_def)

lemma queue_depth_length: "queue_ok q \<Longrightarrow> queue_depth q = length (qu_messages q)"
  by (auto simp: queue_depth_def queue_ok_def)

end
