(* ===== verification/Routing.thy ===== *)
theory Routing
  imports View
begin

text \<open>
  The audio relation and the routing table compiled from it,
  \<open>runtime/crates/shard/src/routing.rs\<close>. The relation's definition \<open>resolve\<close> materialises every
  directed pair; \<open>compile\<close> appends receiver lists domain by domain. The lemma at the end is that
  the table holds exactly the resolved pairs whose ends are rendered, may speak and may hear.
\<close>

subsection \<open>Silence\<close>

record silence =
  si_muted :: "session_id fset"
  si_deafened :: "session_id fset"

definition silence_default :: silence where
  "silence_default = \<lparr>si_muted = {||}, si_deafened = {||}\<rparr>"

definition silence_record :: "session_id \<Rightarrow> user_flags \<Rightarrow> silence \<Rightarrow> silence" where
  "silence_record session flags si =
     (let si = (if fl_self_mute flags \<or> fl_mute flags \<or> fl_suppress flags
                then si\<lparr>si_muted := finsert session (si_muted si)\<rparr> else si)
      in if fl_self_deaf flags \<or> fl_deaf flags
         then si\<lparr>si_deafened := finsert session (si_deafened si)\<rparr> else si)"

definition may_speak :: "silence \<Rightarrow> session_id \<Rightarrow> bool" where
  "may_speak si session = (session |\<notin>| si_muted si)"

definition may_hear :: "silence \<Rightarrow> session_id \<Rightarrow> bool" where
  "may_hear si session = (session |\<notin>| si_deafened si)"

subsection \<open>The relation\<close>

type_synonym domain_id = u64

record audio_relation =
  ar_domains :: "(domain_id, connection_id fset) fmap"
  ar_listeners :: "(connection_id \<times> domain_id) fset"
  ar_edges :: "(connection_id \<times> connection_id) fset"

definition relation_default :: audio_relation where
  "relation_default = \<lparr>ar_domains = fmempty, ar_listeners = {||}, ar_edges = {||}\<rparr>"

definition audio_domain :: "domain_id \<Rightarrow> connection_id list \<Rightarrow> audio_relation \<Rightarrow> audio_relation" where
  "audio_domain d members rel =
     rel\<lparr>ar_domains := fmupd d (fm_get_or {||} (ar_domains rel) d |\<union>| fset_of_list members) (ar_domains rel)\<rparr>"

definition audio_listen :: "connection_id \<Rightarrow> domain_id \<Rightarrow> audio_relation \<Rightarrow> audio_relation" where
  "audio_listen listener d rel = rel\<lparr>ar_listeners := finsert (listener, d) (ar_listeners rel)\<rparr>"

definition audio_edge :: "connection_id \<Rightarrow> connection_id \<Rightarrow> audio_relation \<Rightarrow> audio_relation" where
  "audio_edge sender receiver rel = rel\<lparr>ar_edges := finsert (sender, receiver) (ar_edges rel)\<rparr>"

definition listeners_of :: "audio_relation \<Rightarrow> (connection_id \<times> connection_id fset) list" where
  "listeners_of rel = filter_map (\<lambda>(listener, d). map_option (Pair listener) (fmlookup (ar_domains rel) d))
     (sorted_list_of_fset (ar_listeners rel))"

definition listen_declarations :: "audio_relation \<Rightarrow> (connection_id \<times> domain_id) list" where
  "listen_declarations rel = sorted_list_of_fset (ar_listeners rel)"

definition explicit_edges :: "audio_relation \<Rightarrow> (connection_id \<times> connection_id) list" where
  "explicit_edges rel = sorted_list_of_fset (ar_edges rel)"

definition insert_pairs :: "connection_id fset \<Rightarrow> (connection_id \<times> connection_id) fset \<Rightarrow> (connection_id \<times> connection_id) fset" where
  "insert_pairs members acc = fold (\<lambda>sender acc. fold (\<lambda>receiver acc.
       if sender \<noteq> receiver then finsert (sender, receiver) acc else acc)
     (sorted_list_of_fset members) acc) (sorted_list_of_fset members) acc"

definition insert_heard :: "connection_id \<times> connection_id fset \<Rightarrow> (connection_id \<times> connection_id) fset \<Rightarrow> (connection_id \<times> connection_id) fset" where
  "insert_heard e acc = (case e of (listener, members) \<Rightarrow> fold (\<lambda>sender acc.
       if sender \<noteq> listener then finsert (sender, listener) acc else acc) (sorted_list_of_fset members) acc)"

definition resolve :: "audio_relation \<Rightarrow> (connection_id \<times> connection_id) fset" where
  "resolve rel =
     (let resolved = ar_edges rel;
          resolved = fold insert_pairs (fvals (ar_domains rel)) resolved
      in fold insert_heard (listeners_of rel) resolved)"

subsection \<open>The table\<close>

record audio_routing =
  ro_receivers :: "(session_id, session_id list) fmap"
  ro_since :: "(session_id, u64) fmap"
  ro_silence :: silence

definition receivers :: "audio_routing \<Rightarrow> session_id \<Rightarrow> session_id list" where
  "receivers ro sender = fm_get_or [] (ro_receivers ro) sender"

definition routing_since :: "audio_routing \<Rightarrow> session_id \<Rightarrow> u64 option" where
  "routing_since ro session = fmlookup (ro_since ro) session"

definition routing_may_hear :: "audio_routing \<Rightarrow> session_id \<Rightarrow> session_id \<Rightarrow> bool" where
  "routing_may_hear ro sender receiver = (receiver \<in> set (receivers ro sender))"

definition routing_may_speak :: "audio_routing \<Rightarrow> session_id \<Rightarrow> bool" where
  "routing_may_speak ro sender = may_speak (ro_silence ro) sender"

definition senders :: "audio_routing \<Rightarrow> session_id list" where
  "senders ro = fkeys (ro_receivers ro)"

text \<open>\<open>entry(k).or_default().extend(vs)\<close>.\<close>

definition fm_extend :: "'k \<Rightarrow> 'v list \<Rightarrow> ('k, 'v list) fmap \<Rightarrow> ('k, 'v list) fmap" where
  "fm_extend k vs m = fmupd k (fm_get_or [] m k @ vs) m"

definition resolve_sessions :: "(connection_id, session_id) fmap \<Rightarrow> connection_id fset \<Rightarrow> session_id list" where
  "resolve_sessions session_of connections = filter_map (fmlookup session_of) (sorted_list_of_fset connections)"

definition listen_step ::
    "(connection_id, session_id) fmap \<Rightarrow> silence \<Rightarrow> connection_id \<times> domain_id \<Rightarrow>
     (domain_id, session_id list) fmap \<Rightarrow> (domain_id, session_id list) fmap" where
  "listen_step session_of si e m = (case e of (listener, d) \<Rightarrow>
     (case fmlookup session_of listener of
        Some s \<Rightarrow> if may_hear si s then fm_extend d [s] m else m
      | None \<Rightarrow> m))"

definition compile_listening ::
    "audio_relation \<Rightarrow> (connection_id, session_id) fmap \<Rightarrow> silence \<Rightarrow> (domain_id, session_id list) fmap" where
  "compile_listening rel session_of si = fold (listen_step session_of si) (listen_declarations rel) fmempty"

definition compile_domain ::
    "(connection_id, session_id) fmap \<Rightarrow> silence \<Rightarrow> (domain_id, session_id list) fmap \<Rightarrow>
     domain_id \<times> connection_id fset \<Rightarrow> (session_id, session_id list) fmap \<Rightarrow> (session_id, session_id list) fmap" where
  "compile_domain session_of si listening_on e rs = (case e of (d, members) \<Rightarrow>
     let sessions = resolve_sessions session_of members;
         audience = filter (may_hear si) sessions;
         listening = fm_get_or [] listening_on d
     in fold (\<lambda>sender rs. fm_extend sender
          (filter (\<lambda>r. r \<noteq> sender) audience @ filter (\<lambda>l. l \<noteq> sender) listening) rs)
        (filter (may_speak si) sessions) rs)"

definition compile_edge ::
    "(connection_id, session_id) fmap \<Rightarrow> silence \<Rightarrow> connection_id \<times> connection_id \<Rightarrow>
     (session_id, session_id list) fmap \<Rightarrow> (session_id, session_id list) fmap" where
  "compile_edge session_of si e rs = (case e of (sender, receiver) \<Rightarrow>
     (case (fmlookup session_of sender, fmlookup session_of receiver) of
        (Some s, Some r) \<Rightarrow> if \<not> may_speak si s \<or> \<not> may_hear si r then rs else fm_extend s [r] rs
      | _ \<Rightarrow> rs))"

definition compile ::
    "audio_relation \<Rightarrow> (connection_id, session_id) fmap \<Rightarrow> (session_id, u64) fmap \<Rightarrow> silence \<Rightarrow> audio_routing" where
  "compile rel session_of since si =
     (let listening_on = compile_listening rel session_of si;
          rs = fold (compile_domain session_of si listening_on) (items (ar_domains rel)) fmempty;
          rs = fold (compile_edge session_of si) (explicit_edges rel) rs;
          rs = fmmap (remdups_adj \<circ> sort) rs;
          rs = fm_retain (\<lambda>_ list. list \<noteq> []) rs
      in \<lparr>ro_receivers = rs, ro_since = since, ro_silence = si\<rparr>)"

subsection \<open>The relation as a set of pairs\<close>

definition hears :: "audio_relation \<Rightarrow> connection_id \<Rightarrow> connection_id \<Rightarrow> bool" where
  "hears rel sender receiver \<longleftrightarrow>
     (sender, receiver) |\<in>| ar_edges rel \<or>
     (sender \<noteq> receiver \<and> (\<exists>d members. fmlookup (ar_domains rel) d = Some members \<and> sender |\<in>| members \<and>
        (receiver |\<in>| members \<or> (receiver, d) |\<in>| ar_listeners rel)))"

lemma fold_finsert_if:
  "x |\<in>| fold (\<lambda>y acc. if P y then finsert (f y) acc else acc) ys acc \<longleftrightarrow> x |\<in>| acc \<or> (\<exists>y \<in> set ys. P y \<and> x = f y)"
  by (induction ys arbitrary: acc) auto

lemma fold_insert_pairs_aux:
  "x |\<in>| fold (\<lambda>sender acc. fold (\<lambda>receiver acc.
       if sender \<noteq> receiver then finsert (sender, receiver) acc else acc) rs acc) ss acc \<longleftrightarrow>
     x |\<in>| acc \<or> (\<exists>s \<in> set ss. \<exists>r \<in> set rs. s \<noteq> r \<and> x = (s, r))"
  by (induction ss arbitrary: acc) (auto simp: fold_finsert_if)

lemma in_insert_pairs:
  "(s, r) |\<in>| insert_pairs members acc \<longleftrightarrow> (s, r) |\<in>| acc \<or> (s |\<in>| members \<and> r |\<in>| members \<and> s \<noteq> r)"
  unfolding insert_pairs_def fold_insert_pairs_aux by auto

lemma in_insert_heard:
  "(s, r) |\<in>| insert_heard (l, members) acc \<longleftrightarrow> (s, r) |\<in>| acc \<or> (s |\<in>| members \<and> r = l \<and> s \<noteq> l)"
  unfolding insert_heard_def by (auto simp: fold_finsert_if)

lemma in_fold_insert_pairs:
  "(s, r) |\<in>| fold insert_pairs ms acc \<longleftrightarrow> (s, r) |\<in>| acc \<or> (s \<noteq> r \<and> (\<exists>m \<in> set ms. s |\<in>| m \<and> r |\<in>| m))"
  by (induction ms arbitrary: acc) (auto simp: in_insert_pairs)

lemma in_fold_insert_heard:
  "(s, r) |\<in>| fold insert_heard ls acc \<longleftrightarrow> (s, r) |\<in>| acc \<or> (s \<noteq> r \<and> (\<exists>m. (r, m) \<in> set ls \<and> s |\<in>| m))"
proof (induction ls arbitrary: acc)
  case (Cons e ls)
  then show ?case by (cases e) (auto simp: in_insert_heard)
qed simp

lemma in_listeners_of:
  "(l, m) \<in> set (listeners_of rel) \<longleftrightarrow> (\<exists>d. (l, d) |\<in>| ar_listeners rel \<and> fmlookup (ar_domains rel) d = Some m)"
proof -
  have "(l, m) \<in> set (listeners_of rel) \<longleftrightarrow> (\<exists>k d. (k, d) |\<in>| ar_listeners rel \<and>
      map_option (Pair k) (fmlookup (ar_domains rel) d) = Some (l, m))"
    unfolding listeners_of_def in_set_filter_map Bex_def split_paired_Ex by simp
  then show ?thesis by auto
qed

lemma in_resolve: "(s, r) |\<in>| resolve rel \<longleftrightarrow> hears rel s r"
  unfolding resolve_def Let_def in_fold_insert_heard in_fold_insert_pairs hears_def in_listeners_of bex_fvals
  by blast

subsection \<open>The compiled table\<close>

lemma extend_get: "fm_get_or [] (fm_extend k vs m) j = (if j = k then fm_get_or [] m k @ vs else fm_get_or [] m j)"
  by (auto simp: fm_extend_def fm_get_or_def)

lemma listening_get:
  "s \<in> set (fm_get_or [] (compile_listening rel so si) d) \<longleftrightarrow>
     may_hear si s \<and> (\<exists>l. (l, d) |\<in>| ar_listeners rel \<and> fmlookup so l = Some s)"
proof -
  have step: "s \<in> set (fm_get_or [] (listen_step so si (l, e) m) d) \<longleftrightarrow>
      s \<in> set (fm_get_or [] m d) \<or> (may_hear si s \<and> e = d \<and> fmlookup so l = Some s)" for l e m
    by (cases "fmlookup so l") (auto simp: listen_step_def extend_get)
  have "s \<in> set (fm_get_or [] (fold (listen_step so si) ls m) d) \<longleftrightarrow>
      s \<in> set (fm_get_or [] m d) \<or> (may_hear si s \<and> (\<exists>l. (l, d) \<in> set ls \<and> fmlookup so l = Some s))" for ls m
  proof (induction ls arbitrary: m)
    case (Cons x ls)
    obtain l e where x: "x = (l, e)" by (cases x)
    show ?case unfolding x fold.simps comp_apply Cons.IH step by auto
  qed simp
  then show ?thesis unfolding compile_listening_def listen_declarations_def
    by (simp add: fm_get_or_def)
qed

lemma in_resolve_sessions: "s \<in> set (resolve_sessions so m) \<longleftrightarrow> (\<exists>c. c |\<in>| m \<and> fmlookup so c = Some s)"
  by (auto simp: resolve_sessions_def in_set_filter_map)

lemma fold_extend_get:
  "r \<in> set (fm_get_or [] (fold (\<lambda>sender rs. fm_extend sender (f sender) rs) ss m) s) \<longleftrightarrow>
     r \<in> set (fm_get_or [] m s) \<or> (s \<in> set ss \<and> r \<in> set (f s))"
  by (induction ss arbitrary: m) (auto simp: extend_get)

lemma domain_get:
  "r \<in> set (fm_get_or [] (compile_domain so si lo (d, members) m) s) \<longleftrightarrow>
     r \<in> set (fm_get_or [] m s) \<or>
     (may_speak si s \<and> r \<noteq> s \<and> (\<exists>c. c |\<in>| members \<and> fmlookup so c = Some s) \<and>
      ((may_hear si r \<and> (\<exists>c. c |\<in>| members \<and> fmlookup so c = Some r)) \<or> r \<in> set (fm_get_or [] lo d)))"
  by (auto simp: compile_domain_def Let_def fold_extend_get in_resolve_sessions)

lemma fold_domain_get:
  "r \<in> set (fm_get_or [] (fold (compile_domain so si lo) ds m) s) \<longleftrightarrow>
     r \<in> set (fm_get_or [] m s) \<or>
     (\<exists>d members. (d, members) \<in> set ds \<and> may_speak si s \<and> r \<noteq> s \<and> (\<exists>c. c |\<in>| members \<and> fmlookup so c = Some s) \<and>
      ((may_hear si r \<and> (\<exists>c. c |\<in>| members \<and> fmlookup so c = Some r)) \<or> r \<in> set (fm_get_or [] lo d)))"
proof (induction ds arbitrary: m)
  case (Cons e ds)
  obtain d members where e: "e = (d, members)" by (cases e)
  show ?case unfolding e fold.simps comp_apply Cons.IH domain_get by auto
qed simp

lemma fold_edge_get:
  "r \<in> set (fm_get_or [] (fold (compile_edge so si) es m) s) \<longleftrightarrow>
     r \<in> set (fm_get_or [] m s) \<or>
     (may_speak si s \<and> may_hear si r \<and> (\<exists>c d. (c, d) \<in> set es \<and> fmlookup so c = Some s \<and> fmlookup so d = Some r))"
proof (induction es arbitrary: m)
  case (Cons e es)
  obtain c d where e: "e = (c, d)" by (cases e)
  have "r \<in> set (fm_get_or [] (compile_edge so si e m) s) \<longleftrightarrow> r \<in> set (fm_get_or [] m s) \<or>
      (may_speak si s \<and> may_hear si r \<and> fmlookup so c = Some s \<and> fmlookup so d = Some r)"
    by (auto simp: e compile_edge_def extend_get split: option.splits)
  then show ?case using Cons.IH [of "compile_edge so si e m"] e by auto
qed simp

definition one_session_each :: "(connection_id, session_id) fmap \<Rightarrow> bool" where
  "one_session_each so \<longleftrightarrow> (\<forall>c d s. fmlookup so c = Some s \<longrightarrow> fmlookup so d = Some s \<longrightarrow> c = d)"

lemma receivers_finish:
  "receivers \<lparr>ro_receivers = fm_retain (\<lambda>_ l. l \<noteq> []) (fmmap (remdups_adj \<circ> sort) rs), ro_since = since, ro_silence = si\<rparr> s
     = remdups_adj (sort (fm_get_or [] rs s))"
  by (auto simp: receivers_def fm_get_or_def split: option.splits)

lemma compile_receivers:
  assumes "one_session_each so"
  shows "r \<in> set (receivers (compile rel so since si) s) \<longleftrightarrow>
     may_speak si s \<and> may_hear si r \<and>
     (\<exists>c d. hears rel c d \<and> fmlookup so c = Some s \<and> fmlookup so d = Some r)" (is "?l \<longleftrightarrow> ?r")
proof -
  have uniq: "\<And>c d t. fmlookup so c = Some t \<Longrightarrow> fmlookup so d = Some t \<Longrightarrow> c = d"
    using assms unfolding one_session_each_def by blast
  have "?l \<longleftrightarrow> (\<exists>d members. fmlookup (ar_domains rel) d = Some members \<and> may_speak si s \<and> r \<noteq> s \<and>
      (\<exists>c. c |\<in>| members \<and> fmlookup so c = Some s) \<and>
      ((may_hear si r \<and> (\<exists>c. c |\<in>| members \<and> fmlookup so c = Some r)) \<or>
       (may_hear si r \<and> (\<exists>l. (l, d) |\<in>| ar_listeners rel \<and> fmlookup so l = Some r)))) \<or>
     (may_speak si s \<and> may_hear si r \<and> (\<exists>c d. (c, d) |\<in>| ar_edges rel \<and> fmlookup so c = Some s \<and> fmlookup so d = Some r))"
    unfolding compile_def Let_def receivers_finish remdups_adj_set set_sort fold_edge_get fold_domain_get listening_get
    by (simp add: in_set_items explicit_edges_def fm_get_or_def)
  also have "\<dots> \<longleftrightarrow> ?r" (is "?x \<longleftrightarrow> _")
  proof
    assume ?x
    then show ?r
    proof (elim disjE exE conjE)
      fix d members c e
      assume "fmlookup (ar_domains rel) d = Some members" "may_speak si s" "r \<noteq> s" "c |\<in>| members"
        "fmlookup so c = Some s" "may_hear si r" "e |\<in>| members" "fmlookup so e = Some r"
      moreover then have "c \<noteq> e" by auto
      ultimately show ?r unfolding hears_def by blast
    next
      fix d members c e
      assume "fmlookup (ar_domains rel) d = Some members" "may_speak si s" "r \<noteq> s" "c |\<in>| members"
        "fmlookup so c = Some s" "may_hear si r" "(e, d) |\<in>| ar_listeners rel" "fmlookup so e = Some r"
      moreover then have "c \<noteq> e" by auto
      ultimately show ?r unfolding hears_def by blast
    qed (auto simp: hears_def)
  next
    assume ?r
    then obtain c e where ce: "may_speak si s" "may_hear si r" "hears rel c e" "fmlookup so c = Some s" "fmlookup so e = Some r"
      by blast
    then have "c \<noteq> e \<longrightarrow> r \<noteq> s" using uniq by blast
    then show ?x using ce unfolding hears_def by blast
  qed
  finally show ?thesis .
qed

lemma compile_sorted: "sorted_wrt (<) (receivers (compile rel so since si) s)"
  unfolding compile_def Let_def receivers_finish by (rule strict_sorted_remdups_adj) simp

lemma compile_senders: "s \<in> set (senders (compile rel so since si)) \<longleftrightarrow> receivers (compile rel so since si) s \<noteq> []"
  using in_set_fkeys [of s "ro_receivers (compile rel so since si)"]
  by (auto simp: senders_def compile_def Let_def receivers_def fm_get_or_def fmlookup_dom_iff
      simp del: set_map split: option.splits if_splits)

end
