(* ===== verification/Props_Core.thy ===== *)
theory Props_Core
  imports Samples Journal Queue Routing
begin

text \<open>
  Properties of the data the shard works with: identifiers, scopes, plans, the journal, the outbound
  queue, the routing table and the names of context actions.
\<close>

subsection \<open>Identifiers\<close>

text \<open>
  A channel number is never issued twice: along any history of requests to the shared allocator,
  from any state, the numbers handed out for the first time strictly increase.
\<close>

lemma channel_ids_never_reused: "sorted_wrt (<) (issued rs a) \<and> distinct (issued rs a)"
  using issued_sorted [of rs a] by (auto simp: strict_sorted_iff)

text \<open>
  C35. A session number is stable: whatever else is asked of the allocator afterwards, an occupant that
  was given a session keeps it, and no other occupant ever holds the same one.
\<close>

theorem session_kept:
  assumes "allocated_session (fold alloc_step rs allocator_new) w = Some s"
  shows "allocated_session (fold alloc_step (rs @ rs') allocator_new) w = Some s \<and>
    (\<forall>v. allocated_session (fold alloc_step (rs @ rs') allocator_new) v = Some s \<longrightarrow> v = w)"
proof -
  let ?a = "fold alloc_step rs allocator_new"
  have inv: "alloc_inv ?a" by (rule alloc_inv_run [OF alloc_inv_new])
  have run: "fold alloc_step (rs @ rs') allocator_new = fold alloc_step rs' ?a" by simp
  have kept: "allocated_session (fold alloc_step rs' ?a) w = Some s" by (rule session_stable_run [OF inv assms])
  have sup: "supply_ok (al_sessions (fold alloc_step rs' ?a)) (next_session (fold alloc_step rs' ?a))"
    using alloc_inv_run [OF inv, of rs'] by (simp add: alloc_inv_def)
  have "v = w" if "allocated_session (fold alloc_step rs' ?a) v = Some s" for v
    by (rule supply_ok_inj [OF sup that [unfolded allocated_session_def] kept [unfolded allocated_session_def]])
  then show ?thesis using kept unfolding run by blast
qed

theorem session_kept_witness:
  "allocated_session (fold alloc_step ([AskSession (Connection 7)] @ [AskSession (Connection 8), AskChannel 1 5]) allocator_new)
     (Connection 7) = Some 1"
proof -
  have "allocated_session (fold alloc_step [AskSession (Connection 7)] allocator_new) (Connection 7) = Some 1"
    by (simp add: allocated_session_def alloc_session_def allocator_new_def)
  from session_kept [OF this] show ?thesis by (rule conjunct1)
qed

subsection \<open>Scopes and views\<close>

text \<open>
  C36. The packed scopes implement paths of segments: a child extends its parent's path by one segment,
  it exists exactly while the depth bound allows, and the prefix test on the packed form is the prefix
  order on paths.
\<close>

theorem scopes_are_paths:
  assumes "scope_ok s" and "scope_ok t"
  shows "(is_prefix_of s t \<longleftrightarrow> prefix (path s) (path t)) \<and>
    (\<forall>g s'. child s g = Some s' \<longrightarrow> scope_ok s' \<and> path s' = path s @ [g]) \<and>
    (\<forall>g. child s g = None \<longleftrightarrow> length (path s) = MAX_DEPTH)"
proof (intro conjI allI impI)
  show "is_prefix_of s t \<longleftrightarrow> prefix (path s) (path t)" by (rule is_prefix_of_path [OF assms])
  show "scope_ok s'" "path s' = path s @ [g]" if "child s g = Some s'" for g s'
    using child_ok [OF assms(1) that] path_child [OF assms(1) that] by simp_all
  have "unat (depth s) \<le> MAX_DEPTH" using assms(1) by (simp add: scope_ok_def)
  then show "child s g = None \<longleftrightarrow> length (path s) = MAX_DEPTH" for g
    using child_Some_iff [of s g] length_path [OF assms(1)] by (cases "child s g") auto
qed

theorem scopes_are_paths_witness:
  "is_prefix_of (Scope [7, 0, 0, 0] 1) (Scope [7, 9, 0, 0] 2) \<and> child (Scope [7, 9, 3, 1] 4) 2 = None"
proof
  have ok1: "scope_ok (Scope [7, 0, 0, 0] 1)" by (rule child_ok [OF scope_ok_root, of 7]) code_simp
  have ok2: "scope_ok (Scope [7, 9, 0, 0] 2)" by (rule child_ok [OF ok1, of 9]) code_simp
  have ok3: "scope_ok (Scope [7, 9, 3, 0] 3)" by (rule child_ok [OF ok2, of 3]) code_simp
  have ok4: "scope_ok (Scope [7, 9, 3, 1] 4)" by (rule child_ok [OF ok3, of 1]) code_simp
  show "is_prefix_of (Scope [7, 0, 0, 0] 1) (Scope [7, 9, 0, 0] 2)"
    using scopes_are_paths [OF ok1 ok2] by (simp add: path_def)
  show "child (Scope [7, 9, 3, 1] 4) 2 = None"
    using scopes_are_paths [OF ok4 ok4] by (simp add: path_def MAX_DEPTH_def)
qed

text \<open>
  Restriction never leaves a dangling reference: whatever scopes a connection observes, the visible part
  of a well-formed view is well-formed, parents and the channels of users included.
\<close>

lemma visible_part_closed: "view_ok v \<Longrightarrow> view_ok (restrict v see)"
  by (rule view_ok_restrict)

subsection \<open>Plans\<close>

text \<open>
  C8. A plan is ordered the way a client needs it: no channel is created before its parent is known, and no
  channel is removed before its own descendants that go with it.
\<close>

theorem plan_order:
  assumes "view_ok b" and "view_ok a"
  shows "parents_first (fmdom (sv_channels b)) (order_creations (creates_of b a) b) \<and>
    sorted_wrt (child_before (sv_channels b)) (map fst (order_removals gone b))"
proof
  show "parents_first (fmdom (sv_channels b)) (order_creations (creates_of b a) b)"
    by (rule order_creations_parents_first [OF assms(2)])
  obtain r where "ranked r (sv_channels b)" using view_ok_rank [OF assms(1)] by blast
  then show "sorted_wrt (child_before (sv_channels b)) (map fst (order_removals gone b))"
    by (rule order_removals_children_first)
qed

theorem plan_order_witness:
  "parents_first (fmdom (sv_channels w_before)) (order_creations (creates_of w_before w_after) w_before)"
  by (rule conjunct1 [OF plan_order [OF w_ok(1,2)]])



subsection \<open>The journal\<close>

text \<open>
  C15. Replaying what was pushed gives it back: after any number of deltas, every range of versions the journal
  still covers replays to exactly the operations of those deltas, in order. In particular replaying
  in pieces equals replaying at once.
\<close>

theorem journal_round_trip:
  assumes "length ds < 2 ^ 64" and "length ds - JOURNAL_DEPTH \<le> start" and "start \<le> stop" and "stop \<le> length ds"
  shows "replay (of_nat start) (of_nat stop) (push_all ds) = Inr (concat (drop start (take stop ds)))"
proof -
  note h = history_push_all [OF assms(1)]
  have u: "unat (of_nat n :: u64) = n" if "n < 2 ^ 64" for n
    using that by (simp add: unsigned_of_nat take_bit_eq_mod)
  have b: "start < 2 ^ 64" "stop < 2 ^ 64" using assms by linarith+
  have "jn_tail (push_all ds) \<le> of_nat start"
    using h assms(2) u [OF b(1)] by (simp add: history_def word_le_nat_alt)
  moreover have "of_nat stop \<le> jn_head (push_all ds)"
    using h assms(4) u [OF b(2)] by (simp add: history_def word_le_nat_alt)
  ultimately show ?thesis using replay_slice [OF h] u [OF b(1)] u [OF b(2)] by simp
qed

theorem journal_round_trip_witness:
  "replay 1 2 (push_all [[], [\<lparr>po_op = RemoveUser 3, po_scope = ROOT_SCOPE\<rparr>]]) = Inr [\<lparr>po_op = RemoveUser 3, po_scope = ROOT_SCOPE\<rparr>]"
  using journal_round_trip [of "[[], [\<lparr>po_op = RemoveUser 3, po_scope = ROOT_SCOPE\<rparr>]]" 1 2] by (simp add: JOURNAL_DEPTH_def)

text \<open>
  A replay fails exactly when the cursor has fallen behind the oldest delta kept, and the error names both;
  it never returns a truncated history instead.
\<close>

lemma replay_error: "replay start stop j = Inl e \<longleftrightarrow> start < jn_tail j \<and> e = TooFarBehind start (jn_tail j)"
  by (auto simp: replay_def Let_def)

text \<open>The journal never holds more than its depth, whatever was in it before a push.\<close>

lemma journal_bounded: "length (jn_entries (snd (journal_push ops j))) \<le> JOURNAL_DEPTH"
proof -
  have "length (snd (evict t es)) \<le> JOURNAL_DEPTH" for t es
    by (induction t es rule: evict.induct) (subst evict.simps, simp split: list.split)
  then show ?thesis by (simp add: journal_push_def Let_def case_prod_beta)
qed

subsection \<open>The outbound queue\<close>

text \<open>
  C16. A transition is queued whole or not at all: an accepted batch is appended in order and fits the capacity,
  a refused one leaves the queued messages as they were.
\<close>

theorem transition_all_or_nothing:
  assumes "queue_ok q" and "try_send_all ms q = (res, q')"
  shows "queue_ok q' \<and> qu_messages q' = (if res = Inr () then qu_messages q @ ms else qu_messages q)"
  using assms queue_ok_send [OF assms(1), of ms] try_send_all_cases [OF assms(1), of ms] by (auto split: if_splits)

theorem transition_all_or_nothing_witness:
  "queue_ok (snd (try_send_all [1, 2, 3 :: nat] (with_capacity 2))) \<and>
     qu_messages (snd (try_send_all [1, 2, 3 :: nat] (with_capacity 2))) = []"
proof -
  have "try_send_all [1, 2, 3 :: nat] (with_capacity 2) = (Inl (TooLarge 3 2), (with_capacity 2)\<lparr>qu_must_close := True\<rparr>)"
    using try_send_all_cases [OF queue_ok_new, of "[1, 2, 3 :: nat]" 2] by (simp add: with_capacity_def)
  from transition_all_or_nothing [OF queue_ok_new this] this show ?thesis by (simp add: with_capacity_def)
qed

text \<open>
  Voice never takes the room of control: a voice packet is admitted only while the queue is shallow, so
  after it at most the voice share of the capacity is in use.
\<close>

lemma voice_leaves_room:
  assumes "queue_ok q" and "push_voice m q = (Accepted, q')"
  shows "length (qu_messages q') \<le> MAX_DEPTH_FOR_VOICE \<and> qu_messages q' = qu_messages q @ [m]"
  using assms queue_depth_length [OF assms(1)] by (auto simp: push_voice_def split: if_splits)

subsection \<open>Audio routing\<close>

text \<open>
  C14. The compiled routing table is the declared relation: a session is among the receivers of another exactly
  when the resolved relation has an edge between the connections behind them and neither silence
  rule forbids it; and each list of receivers is strictly sorted, so it names nobody twice.
\<close>

theorem routing_table_exact:
  assumes "one_session_each so"
  shows "(r \<in> set (receivers (compile rel so since si) s) \<longleftrightarrow>
      may_speak si s \<and> may_hear si r \<and> (\<exists>c d. (c, d) |\<in>| resolve rel \<and> fmlookup so c = Some s \<and> fmlookup so d = Some r)) \<and>
    sorted_wrt (<) (receivers (compile rel so since si) s)"
  using compile_receivers [OF assms, of r rel since si s] compile_sorted by (auto simp: in_resolve)

theorem routing_table_exact_witness:
  "2 \<in> set (receivers (compile (audio_edge 10 20 relation_default) (fmupd 10 1 (fmupd 20 2 fmempty)) fmempty silence_default) 1)"
proof -
  have "one_session_each (fmupd 10 1 (fmupd 20 2 fmempty))" by (auto simp: one_session_each_def split: if_splits)
  moreover have "(10, 20) |\<in>| resolve (audio_edge 10 20 relation_default)"
    unfolding in_resolve by (simp add: hears_def audio_edge_def relation_default_def)
  moreover have "may_speak silence_default 1" "may_hear silence_default 2"
    by (simp_all add: may_speak_def may_hear_def silence_default_def)
  ultimately show ?thesis
    using routing_table_exact [of "fmupd 10 1 (fmupd 20 2 fmempty)" 2 "audio_edge 10 20 relation_default" fmempty silence_default 1]
    by force
qed

subsection \<open>Names of context actions\<close>

lemma parse_digits_append:
  "parse_digits acc (xs @ ys) = (case parse_digits acc xs of None \<Rightarrow> None | Some v \<Rightarrow> parse_digits v ys)"
  by (induction acc xs rule: parse_digits.induct) (auto split: option.split)

lemma digit_value_digit: "n < 10 \<Longrightarrow> digit_value (digit n) = Some n"
  by (simp add: digit_value_def digit_def)

lemma parse_decimal: "n < 2 ^ 64 \<Longrightarrow> parse_digits 0 (decimal n) = Some n"
proof (induction n rule: decimal.induct)
  case (1 n)
  show ?case
  proof (cases "n < 10")
    case False
    then have "parse_digits 0 (decimal (n div 10)) = Some (n div 10)" using 1 by simp
    then show ?thesis using 1(2) False by (simp add: decimal.simps [of n] parse_digits_append digit_value_digit)
  qed (use 1(2) in \<open>simp add: decimal.simps [of n] digit_value_digit\<close>)
qed

lemma decimal_digits: "c \<in> set (decimal n) \<Longrightarrow> digit_value c \<noteq> None"
proof (induction n rule: decimal.induct)
  case (1 n)
  then show ?case by (subst (asm) (2) decimal.simps) (auto simp: digit_value_digit split: if_splits)
qed

lemma decimal_nonempty: "decimal n \<noteq> []"
  by (subst decimal.simps) simp

text \<open>The name written for a context action reads back as its key, for every key.\<close>

lemma action_name_round_trip: "action_key (action_name k) = Some k"
proof -
  obtain c cs where c: "decimal (unat k) = c # cs" using decimal_nonempty by (cases "decimal (unat k)") auto
  have "digit_value (CHR ''+'') = None" by code_simp
  then have "c \<noteq> CHR ''+''" using decimal_digits [of c "unat k"] c by auto
  moreover have "unat k < 2 ^ LENGTH(64)" by (rule unsigned_less)
  then have "parse_digits 0 (decimal (unat k)) = Some (unat k)" by (intro parse_decimal) simp
  ultimately show ?thesis using c by (simp add: action_key_def action_name_def parse_u64_def Let_def)
qed

end
