(* ===== verification/Framing.thy ===== *)
theory Framing
  imports Prelude
begin

text \<open>
  The control channel of \<open>runtime/crates/protocol/src\<close> (\<open>framing.rs\<close>, \<open>control.rs\<close>), the voice envelope
  (\<open>udp.rs\<close>), and the incremental reader of the gateway (\<open>FrameReader\<close> in \<open>connection.rs\<close>). The message
  types and their protobuf codec are generated at build time and stay parameters: a type \<open>'m\<close> of
  messages, and functions that encode and decode a message of a given type.
\<close>

subsection \<open>Big-endian integers\<close>

definition u16_to_be :: "u16 \<Rightarrow> u8 list" where
  "u16_to_be w = [ucast (drop_bit 8 w), ucast w]"

definition u16_from_be :: "u8 \<Rightarrow> u8 \<Rightarrow> u16" where
  "u16_from_be a b = push_bit 8 (ucast a) OR ucast b"

definition u32_to_be :: "u32 \<Rightarrow> u8 list" where
  "u32_to_be w = [ucast (drop_bit 24 w), ucast (drop_bit 16 w), ucast (drop_bit 8 w), ucast w]"

definition u32_from_be :: "u8 \<Rightarrow> u8 \<Rightarrow> u8 \<Rightarrow> u8 \<Rightarrow> u32" where
  "u32_from_be a b c d = push_bit 24 (ucast a) OR push_bit 16 (ucast b) OR push_bit 8 (ucast c) OR ucast d"

subsection \<open>Frames\<close>

definition HEADER_LEN :: nat where "HEADER_LEN = 6"
definition MAX_PAYLOAD_LEN :: u32 where "MAX_PAYLOAD_LEN = 0x7fffff"

datatype framing_error = PayloadTooLarge u32 u32 | UnknownMessageType u16

record frame =
  fr_type :: u16
  fr_payload :: "u8 list"

definition total_len :: "frame \<Rightarrow> nat" where
  "total_len f = HEADER_LEN + length (fr_payload f)"

definition parse_frame :: "u8 list \<Rightarrow> (framing_error, frame option) result" where
  "parse_frame buf =
     (if length buf < HEADER_LEN then Inr None
      else let message_type = u16_from_be (buf ! 0) (buf ! 1);
               declared = u32_from_be (buf ! 2) (buf ! 3) (buf ! 4) (buf ! 5)
           in if MAX_PAYLOAD_LEN < declared then Inl (PayloadTooLarge declared MAX_PAYLOAD_LEN)
              else let stop = HEADER_LEN + unat declared
                   in if length buf < stop then Inr None
                      else Inr (Some \<lparr>fr_type = message_type, fr_payload = take (unat declared) (drop HEADER_LEN buf)\<rparr>))"

definition write_frame :: "u16 \<Rightarrow> u8 list \<Rightarrow> u8 list \<Rightarrow> (framing_error, u8 list) result" where
  "write_frame message_type payload out =
     (if 2 ^ 32 \<le> length payload then Inl (PayloadTooLarge (saturating_add MAX_PAYLOAD_LEN 1) MAX_PAYLOAD_LEN)
      else let declared = of_nat (length payload) in
        if MAX_PAYLOAD_LEN < declared then Inl (PayloadTooLarge declared MAX_PAYLOAD_LEN)
        else Inr (out @ u16_to_be message_type @ u32_to_be declared @ payload))"

subsection \<open>Message types\<close>

datatype tcp_message_type =
    TcpVersion
  | TcpUdpTunnel
  | TcpAuthenticate
  | TcpPing
  | TcpReject
  | TcpServerSync
  | TcpChannelRemove
  | TcpChannelState
  | TcpUserRemove
  | TcpUserState
  | TcpBanList
  | TcpTextMessage
  | TcpPermissionDenied
  | TcpAcl
  | TcpQueryUsers
  | TcpCryptSetup
  | TcpContextActionModify
  | TcpContextAction
  | TcpUserList
  | TcpVoiceTarget
  | TcpPermissionQuery
  | TcpCodecVersion
  | TcpUserStats
  | TcpRequestBlob
  | TcpServerConfig
  | TcpSuggestConfig
  | TcpPluginDataTransmission

fun type_code :: "tcp_message_type \<Rightarrow> u16" where
  "type_code TcpVersion = 0"
| "type_code TcpUdpTunnel = 1"
| "type_code TcpAuthenticate = 2"
| "type_code TcpPing = 3"
| "type_code TcpReject = 4"
| "type_code TcpServerSync = 5"
| "type_code TcpChannelRemove = 6"
| "type_code TcpChannelState = 7"
| "type_code TcpUserRemove = 8"
| "type_code TcpUserState = 9"
| "type_code TcpBanList = 10"
| "type_code TcpTextMessage = 11"
| "type_code TcpPermissionDenied = 12"
| "type_code TcpAcl = 13"
| "type_code TcpQueryUsers = 14"
| "type_code TcpCryptSetup = 15"
| "type_code TcpContextActionModify = 16"
| "type_code TcpContextAction = 17"
| "type_code TcpUserList = 18"
| "type_code TcpVoiceTarget = 19"
| "type_code TcpPermissionQuery = 20"
| "type_code TcpCodecVersion = 21"
| "type_code TcpUserStats = 22"
| "type_code TcpRequestBlob = 23"
| "type_code TcpServerConfig = 24"
| "type_code TcpSuggestConfig = 25"
| "type_code TcpPluginDataTransmission = 26"

definition type_try_from :: "u16 \<Rightarrow> (framing_error, tcp_message_type) result" where
  "type_try_from value =
     (if value = 0 then Inr TcpVersion else
      if value = 1 then Inr TcpUdpTunnel else
      if value = 2 then Inr TcpAuthenticate else
      if value = 3 then Inr TcpPing else
      if value = 4 then Inr TcpReject else
      if value = 5 then Inr TcpServerSync else
      if value = 6 then Inr TcpChannelRemove else
      if value = 7 then Inr TcpChannelState else
      if value = 8 then Inr TcpUserRemove else
      if value = 9 then Inr TcpUserState else
      if value = 10 then Inr TcpBanList else
      if value = 11 then Inr TcpTextMessage else
      if value = 12 then Inr TcpPermissionDenied else
      if value = 13 then Inr TcpAcl else
      if value = 14 then Inr TcpQueryUsers else
      if value = 15 then Inr TcpCryptSetup else
      if value = 16 then Inr TcpContextActionModify else
      if value = 17 then Inr TcpContextAction else
      if value = 18 then Inr TcpUserList else
      if value = 19 then Inr TcpVoiceTarget else
      if value = 20 then Inr TcpPermissionQuery else
      if value = 21 then Inr TcpCodecVersion else
      if value = 22 then Inr TcpUserStats else
      if value = 23 then Inr TcpRequestBlob else
      if value = 24 then Inr TcpServerConfig else
      if value = 25 then Inr TcpSuggestConfig else
      if value = 26 then Inr TcpPluginDataTransmission else
      Inl (UnknownMessageType value))"

subsection \<open>Control messages\<close>

datatype 'm wire_message =
    CmVersion 'm
  | CmUdpTunnel "u8 list"
  | CmAuthenticate 'm
  | CmPing 'm
  | CmReject 'm
  | CmServerSync 'm
  | CmChannelRemove 'm
  | CmChannelState 'm
  | CmUserRemove 'm
  | CmUserState 'm
  | CmBanList 'm
  | CmTextMessage 'm
  | CmPermissionDenied 'm
  | CmAcl 'm
  | CmQueryUsers 'm
  | CmCryptSetup 'm
  | CmContextActionModify 'm
  | CmContextAction 'm
  | CmUserList 'm
  | CmVoiceTarget 'm
  | CmPermissionQuery 'm
  | CmCodecVersion 'm
  | CmUserStats 'm
  | CmRequestBlob 'm
  | CmServerConfig 'm
  | CmSuggestConfig 'm
  | CmPluginDataTransmission 'm

datatype 'e decode_error = DecodeFraming framing_error | DecodeProtobuf tcp_message_type nat 'e

definition decode_pb :: "(u8 list \<Rightarrow> ('e, 'm) result) \<Rightarrow> tcp_message_type \<Rightarrow> u8 list \<Rightarrow> ('e decode_error, 'm) result" where
  "decode_pb decode t payload =
     (case decode payload of Inl source \<Rightarrow> Inl (DecodeProtobuf t (length payload) source) | Inr m \<Rightarrow> Inr m)"

definition encode_pb :: "('m \<Rightarrow> u8 list) \<Rightarrow> tcp_message_type \<Rightarrow> 'm \<Rightarrow> u16 \<times> u8 list" where
  "encode_pb encode t m = (type_code t, encode m)"

fun decode_typed ::
    "(tcp_message_type \<Rightarrow> u8 list \<Rightarrow> ('e, 'm) result) \<Rightarrow> tcp_message_type \<Rightarrow> u8 list \<Rightarrow> ('e decode_error, 'm wire_message) result" where
  "decode_typed decode TcpVersion payload = map_sum (\<lambda>e. e) CmVersion (decode_pb (decode TcpVersion) TcpVersion payload)"
| "decode_typed decode TcpUdpTunnel payload = Inr (CmUdpTunnel payload)"
| "decode_typed decode TcpAuthenticate payload = map_sum (\<lambda>e. e) CmAuthenticate (decode_pb (decode TcpAuthenticate) TcpAuthenticate payload)"
| "decode_typed decode TcpPing payload = map_sum (\<lambda>e. e) CmPing (decode_pb (decode TcpPing) TcpPing payload)"
| "decode_typed decode TcpReject payload = map_sum (\<lambda>e. e) CmReject (decode_pb (decode TcpReject) TcpReject payload)"
| "decode_typed decode TcpServerSync payload = map_sum (\<lambda>e. e) CmServerSync (decode_pb (decode TcpServerSync) TcpServerSync payload)"
| "decode_typed decode TcpChannelRemove payload = map_sum (\<lambda>e. e) CmChannelRemove (decode_pb (decode TcpChannelRemove) TcpChannelRemove payload)"
| "decode_typed decode TcpChannelState payload = map_sum (\<lambda>e. e) CmChannelState (decode_pb (decode TcpChannelState) TcpChannelState payload)"
| "decode_typed decode TcpUserRemove payload = map_sum (\<lambda>e. e) CmUserRemove (decode_pb (decode TcpUserRemove) TcpUserRemove payload)"
| "decode_typed decode TcpUserState payload = map_sum (\<lambda>e. e) CmUserState (decode_pb (decode TcpUserState) TcpUserState payload)"
| "decode_typed decode TcpBanList payload = map_sum (\<lambda>e. e) CmBanList (decode_pb (decode TcpBanList) TcpBanList payload)"
| "decode_typed decode TcpTextMessage payload = map_sum (\<lambda>e. e) CmTextMessage (decode_pb (decode TcpTextMessage) TcpTextMessage payload)"
| "decode_typed decode TcpPermissionDenied payload = map_sum (\<lambda>e. e) CmPermissionDenied (decode_pb (decode TcpPermissionDenied) TcpPermissionDenied payload)"
| "decode_typed decode TcpAcl payload = map_sum (\<lambda>e. e) CmAcl (decode_pb (decode TcpAcl) TcpAcl payload)"
| "decode_typed decode TcpQueryUsers payload = map_sum (\<lambda>e. e) CmQueryUsers (decode_pb (decode TcpQueryUsers) TcpQueryUsers payload)"
| "decode_typed decode TcpCryptSetup payload = map_sum (\<lambda>e. e) CmCryptSetup (decode_pb (decode TcpCryptSetup) TcpCryptSetup payload)"
| "decode_typed decode TcpContextActionModify payload = map_sum (\<lambda>e. e) CmContextActionModify (decode_pb (decode TcpContextActionModify) TcpContextActionModify payload)"
| "decode_typed decode TcpContextAction payload = map_sum (\<lambda>e. e) CmContextAction (decode_pb (decode TcpContextAction) TcpContextAction payload)"
| "decode_typed decode TcpUserList payload = map_sum (\<lambda>e. e) CmUserList (decode_pb (decode TcpUserList) TcpUserList payload)"
| "decode_typed decode TcpVoiceTarget payload = map_sum (\<lambda>e. e) CmVoiceTarget (decode_pb (decode TcpVoiceTarget) TcpVoiceTarget payload)"
| "decode_typed decode TcpPermissionQuery payload = map_sum (\<lambda>e. e) CmPermissionQuery (decode_pb (decode TcpPermissionQuery) TcpPermissionQuery payload)"
| "decode_typed decode TcpCodecVersion payload = map_sum (\<lambda>e. e) CmCodecVersion (decode_pb (decode TcpCodecVersion) TcpCodecVersion payload)"
| "decode_typed decode TcpUserStats payload = map_sum (\<lambda>e. e) CmUserStats (decode_pb (decode TcpUserStats) TcpUserStats payload)"
| "decode_typed decode TcpRequestBlob payload = map_sum (\<lambda>e. e) CmRequestBlob (decode_pb (decode TcpRequestBlob) TcpRequestBlob payload)"
| "decode_typed decode TcpServerConfig payload = map_sum (\<lambda>e. e) CmServerConfig (decode_pb (decode TcpServerConfig) TcpServerConfig payload)"
| "decode_typed decode TcpSuggestConfig payload = map_sum (\<lambda>e. e) CmSuggestConfig (decode_pb (decode TcpSuggestConfig) TcpSuggestConfig payload)"
| "decode_typed decode TcpPluginDataTransmission payload = map_sum (\<lambda>e. e) CmPluginDataTransmission (decode_pb (decode TcpPluginDataTransmission) TcpPluginDataTransmission payload)"

definition decode_control ::
    "(tcp_message_type \<Rightarrow> u8 list \<Rightarrow> ('e, 'm) result) \<Rightarrow> u16 \<Rightarrow> u8 list \<Rightarrow> ('e decode_error, 'm wire_message) result" where
  "decode_control decode message_type payload =
     (case type_try_from message_type of
        Inl e \<Rightarrow> Inl (DecodeFraming e)
      | Inr t \<Rightarrow> decode_typed decode t payload)"

definition decode_frame :: "(tcp_message_type \<Rightarrow> u8 list \<Rightarrow> ('e, 'm) result) \<Rightarrow> frame \<Rightarrow> ('e decode_error, 'm wire_message) result" where
  "decode_frame decode f = decode_control decode (fr_type f) (fr_payload f)"

fun encode_control :: "(tcp_message_type \<Rightarrow> 'm \<Rightarrow> u8 list) \<Rightarrow> 'm wire_message \<Rightarrow> u16 \<times> u8 list" where
  "encode_control encode (CmVersion m) = encode_pb (encode TcpVersion) TcpVersion m"
| "encode_control encode (CmUdpTunnel bytes) = (type_code TcpUdpTunnel, bytes)"
| "encode_control encode (CmAuthenticate m) = encode_pb (encode TcpAuthenticate) TcpAuthenticate m"
| "encode_control encode (CmPing m) = encode_pb (encode TcpPing) TcpPing m"
| "encode_control encode (CmReject m) = encode_pb (encode TcpReject) TcpReject m"
| "encode_control encode (CmServerSync m) = encode_pb (encode TcpServerSync) TcpServerSync m"
| "encode_control encode (CmChannelRemove m) = encode_pb (encode TcpChannelRemove) TcpChannelRemove m"
| "encode_control encode (CmChannelState m) = encode_pb (encode TcpChannelState) TcpChannelState m"
| "encode_control encode (CmUserRemove m) = encode_pb (encode TcpUserRemove) TcpUserRemove m"
| "encode_control encode (CmUserState m) = encode_pb (encode TcpUserState) TcpUserState m"
| "encode_control encode (CmBanList m) = encode_pb (encode TcpBanList) TcpBanList m"
| "encode_control encode (CmTextMessage m) = encode_pb (encode TcpTextMessage) TcpTextMessage m"
| "encode_control encode (CmPermissionDenied m) = encode_pb (encode TcpPermissionDenied) TcpPermissionDenied m"
| "encode_control encode (CmAcl m) = encode_pb (encode TcpAcl) TcpAcl m"
| "encode_control encode (CmQueryUsers m) = encode_pb (encode TcpQueryUsers) TcpQueryUsers m"
| "encode_control encode (CmCryptSetup m) = encode_pb (encode TcpCryptSetup) TcpCryptSetup m"
| "encode_control encode (CmContextActionModify m) = encode_pb (encode TcpContextActionModify) TcpContextActionModify m"
| "encode_control encode (CmContextAction m) = encode_pb (encode TcpContextAction) TcpContextAction m"
| "encode_control encode (CmUserList m) = encode_pb (encode TcpUserList) TcpUserList m"
| "encode_control encode (CmVoiceTarget m) = encode_pb (encode TcpVoiceTarget) TcpVoiceTarget m"
| "encode_control encode (CmPermissionQuery m) = encode_pb (encode TcpPermissionQuery) TcpPermissionQuery m"
| "encode_control encode (CmCodecVersion m) = encode_pb (encode TcpCodecVersion) TcpCodecVersion m"
| "encode_control encode (CmUserStats m) = encode_pb (encode TcpUserStats) TcpUserStats m"
| "encode_control encode (CmRequestBlob m) = encode_pb (encode TcpRequestBlob) TcpRequestBlob m"
| "encode_control encode (CmServerConfig m) = encode_pb (encode TcpServerConfig) TcpServerConfig m"
| "encode_control encode (CmSuggestConfig m) = encode_pb (encode TcpSuggestConfig) TcpSuggestConfig m"
| "encode_control encode (CmPluginDataTransmission m) = encode_pb (encode TcpPluginDataTransmission) TcpPluginDataTransmission m"

definition encode_frame :: "(tcp_message_type \<Rightarrow> 'm \<Rightarrow> u8 list) \<Rightarrow> 'm wire_message \<Rightarrow> u8 list \<Rightarrow> (framing_error, u8 list) result" where
  "encode_frame encode m out = (let (message_type, payload) = encode_control encode m in write_frame message_type payload out)"

subsection \<open>The voice envelope\<close>

datatype udp_message_type = UdpAudioType | UdpPingType

fun udp_code :: "udp_message_type \<Rightarrow> u8" where
  "udp_code UdpAudioType = 0"
| "udp_code UdpPingType = 1"

datatype ('a, 'p) udp_message = UdpAudio 'a | UdpPing 'p

datatype 'e udp_decode_error = UdpTooShort nat | UnsupportedType u8 | UdpProtobuf udp_message_type nat 'e

definition decode_udp ::
    "(u8 list \<Rightarrow> ('e, 'a) result) \<Rightarrow> (u8 list \<Rightarrow> ('e, 'p) result) \<Rightarrow> u8 list \<Rightarrow> ('e udp_decode_error, ('a, 'p) udp_message) result" where
  "decode_udp audio ping packet =
     (case packet of
        header # payload \<Rightarrow>
          if payload = [] then Inl (UdpTooShort (length packet))
          else if header = 0 then
            (case audio payload of Inl e \<Rightarrow> Inl (UdpProtobuf UdpAudioType (length payload) e) | Inr m \<Rightarrow> Inr (UdpAudio m))
          else if header = 1 then
            (case ping payload of Inl e \<Rightarrow> Inl (UdpProtobuf UdpPingType (length payload) e) | Inr m \<Rightarrow> Inr (UdpPing m))
          else Inl (UnsupportedType header)
      | [] \<Rightarrow> Inl (UdpTooShort 0))"

fun encode_udp :: "('a \<Rightarrow> u8 list) \<Rightarrow> ('p \<Rightarrow> u8 list) \<Rightarrow> ('a, 'p) udp_message \<Rightarrow> u8 list" where
  "encode_udp audio ping (UdpAudio m) = udp_code UdpAudioType # audio m"
| "encode_udp audio ping (UdpPing m) = udp_code UdpPingType # ping m"

subsection \<open>The reader of a connection\<close>

datatype 'e reader_error = ReaderFraming framing_error | ReaderDecode "'e decode_error" | ClosedMidFrame nat

definition try_parse ::
    "(tcp_message_type \<Rightarrow> u8 list \<Rightarrow> ('e, 'm) result) \<Rightarrow> u8 list \<Rightarrow> ('e reader_error, ('m wire_message \<times> nat) option) result" where
  "try_parse decode buffer =
     (case parse_frame buffer of
        Inl e \<Rightarrow> Inl (ReaderFraming e)
      | Inr None \<Rightarrow> Inr None
      | Inr (Some f) \<Rightarrow>
          (case decode_frame decode f of
             Inl e \<Rightarrow> Inl (ReaderDecode e)
           | Inr m \<Rightarrow> Inr (Some (m, total_len f))))"

text \<open>
  One call of \<open>next\<close>. What the socket still delivers is the list of chunks; an empty chunk, or none
  left, is the end of the stream. It gives the message with the reader's buffer and the chunks left.
\<close>

fun next_message ::
    "(tcp_message_type \<Rightarrow> u8 list \<Rightarrow> ('e, 'm) result) \<Rightarrow> u8 list \<Rightarrow> u8 list list \<Rightarrow>
     ('e reader_error, ('m wire_message \<times> u8 list \<times> u8 list list) option) result" where
  "next_message decode buffer chunks =
     (case try_parse decode buffer of
        Inl e \<Rightarrow> Inl e
      | Inr (Some (m, consumed)) \<Rightarrow> Inr (Some (m, drop consumed buffer, chunks))
      | Inr None \<Rightarrow>
          (case chunks of
             [] \<Rightarrow> if buffer = [] then Inr None else Inl (ClosedMidFrame (length buffer))
           | chunk # chunks \<Rightarrow>
               if chunk = [] then (if buffer = [] then Inr None else Inl (ClosedMidFrame (length buffer)))
               else next_message decode (buffer @ chunk) chunks))"

declare next_message.simps [simp del]

text \<open>The messages of a connection: calls of \<open>next\<close> until the stream ends or fails, at most \<open>n\<close> of them.\<close>

fun read_messages ::
    "nat \<Rightarrow> (tcp_message_type \<Rightarrow> u8 list \<Rightarrow> ('e, 'm) result) \<Rightarrow> u8 list \<Rightarrow> u8 list list \<Rightarrow> 'm wire_message list \<times> ('e reader_error, bool) result" where
  "read_messages 0 decode buffer chunks = ([], Inr False)"
| "read_messages (Suc n) decode buffer chunks =
     (case next_message decode buffer chunks of
        Inl e \<Rightarrow> ([], Inl e)
      | Inr None \<Rightarrow> ([], Inr True)
      | Inr (Some (m, buffer, chunks)) \<Rightarrow>
          (case read_messages n decode buffer chunks of (ms, end) \<Rightarrow> (m # ms, end)))"

subsection \<open>Frames round trip\<close>

lemma u16_be: "u16_from_be (u16_to_be w ! 0) (u16_to_be w ! 1) = w"
  unfolding u16_to_be_def u16_from_be_def by (rule bit_word_eqI) (auto simp: bit_simps)

lemma u32_be: "u32_from_be (u32_to_be w ! 0) (u32_to_be w ! 1) (u32_to_be w ! 2) (u32_to_be w ! 3) = w"
proof (rule bit_word_eqI)
  fix n
  assume "n < LENGTH(32)"
  then consider "n < 8" | "8 \<le> n" "n < 16" | "16 \<le> n" "n < 24" | "24 \<le> n" "n < 32" by fastforce
  then show "bit (u32_from_be (u32_to_be w ! 0) (u32_to_be w ! 1) (u32_to_be w ! 2) (u32_to_be w ! 3)) n = bit w n"
    by cases (auto simp: u32_to_be_def u32_from_be_def bit_simps less_diff_conv2)
qed

lemma write_frame_parts:
  assumes "write_frame t payload out = Inr out'"
  shows "out' = out @ u16_to_be t @ u32_to_be (of_nat (length payload)) @ payload"
    and "unat (of_nat (length payload) :: u32) = length payload" and "\<not> MAX_PAYLOAD_LEN < of_nat (length payload)"
proof -
  show "out' = out @ u16_to_be t @ u32_to_be (of_nat (length payload)) @ payload" "\<not> MAX_PAYLOAD_LEN < of_nat (length payload)"
    using assms by (auto simp: write_frame_def Let_def split: if_splits)
  have "length payload < 2 ^ LENGTH(32)" using assms by (auto simp: write_frame_def split: if_splits)
  then show "unat (of_nat (length payload) :: u32) = length payload" by (simp add: unsigned_of_nat take_bit_eq_mod)
qed

lemma parse_frame_written:
  assumes "write_frame t payload [] = Inr framed"
  shows "parse_frame (framed @ suf) = Inr (Some \<lparr>fr_type = t, fr_payload = payload\<rparr>)"
    and "length framed = total_len \<lparr>fr_type = t, fr_payload = payload\<rparr>"
    and "k < length framed \<Longrightarrow> parse_frame (take k framed) = Inr None"
proof -
  note w = write_frame_parts [OF assms]
  let ?d = "of_nat (length payload) :: u32"
  have framed: "framed = u16_to_be t @ u32_to_be ?d @ payload" using w(1) by simp
  have nths: "\<And>rest. (framed @ rest) ! 0 = u16_to_be t ! 0" "\<And>rest. (framed @ rest) ! 1 = u16_to_be t ! 1"
    "\<And>rest. (framed @ rest) ! 2 = u32_to_be ?d ! 0" "\<And>rest. (framed @ rest) ! 3 = u32_to_be ?d ! 1"
    "\<And>rest. (framed @ rest) ! 4 = u32_to_be ?d ! 2" "\<And>rest. (framed @ rest) ! 5 = u32_to_be ?d ! 3"
    unfolding framed by (simp_all add: u16_to_be_def u32_to_be_def)
  have len: "length framed = 6 + length payload" unfolding framed by (simp add: u16_to_be_def u32_to_be_def)
  have dr: "drop 6 (framed @ suf) = payload @ suf" unfolding framed by (simp add: u16_to_be_def u32_to_be_def)
  show "parse_frame (framed @ suf) = Inr (Some \<lparr>fr_type = t, fr_payload = payload\<rparr>)"
    unfolding parse_frame_def nths u16_be u32_be using w(2,3) len dr by (simp add: HEADER_LEN_def)
  show "length framed = total_len \<lparr>fr_type = t, fr_payload = payload\<rparr>"
    using len by (simp add: total_len_def HEADER_LEN_def)
  assume k: "k < length framed"
  show "parse_frame (take k framed) = Inr None"
  proof (cases "k < 6")
    case False
    have "take k framed ! i = framed ! i" if "i < 6" for i using that False by simp
    then show ?thesis
      unfolding parse_frame_def using nths [of "[]"] u32_be [of ?d] k len w(2,3) False by (simp add: HEADER_LEN_def Let_def)
  qed (use len in \<open>simp add: parse_frame_def HEADER_LEN_def\<close>)
qed

text \<open>More bytes never change a frame or a refusal already found.\<close>

lemma parse_frame_stable:
  assumes "parse_frame buf \<noteq> Inr None"
  shows "parse_frame (buf @ suf) = parse_frame buf"
proof -
  have "6 \<le> length buf" using assms by (auto simp: parse_frame_def HEADER_LEN_def split: if_splits)
  then have nths: "(buf @ suf) ! i = buf ! i" if "i < 6" for i using that by (simp add: nth_append)
  show ?thesis
    using assms nths \<open>6 \<le> length buf\<close> by (auto simp: parse_frame_def HEADER_LEN_def Let_def split: if_splits)
qed

subsection \<open>Messages round trip\<close>

lemma type_round_trip: "type_try_from (type_code t) = Inr t"
  by (cases t) (simp_all add: type_try_from_def)

lemma type_known: "type_try_from v = Inr t \<Longrightarrow> type_code t = v"
  by (auto simp: type_try_from_def split: if_splits)

lemma type_unknown: "26 < v \<Longrightarrow> type_try_from v = Inl (UnknownMessageType v)"
  by (auto simp: type_try_from_def)

definition codec_ok :: "(tcp_message_type \<Rightarrow> 'm \<Rightarrow> u8 list) \<Rightarrow> (tcp_message_type \<Rightarrow> u8 list \<Rightarrow> ('e, 'm) result) \<Rightarrow> bool" where
  "codec_ok encode decode \<longleftrightarrow> (\<forall>t m. decode t (encode t m) = Inr m)"

lemma decode_encode_control:
  assumes "codec_ok encode decode"
  shows "decode_control decode (fst (encode_control encode m)) (snd (encode_control encode m)) = Inr m"
  using assms by (cases m) (simp_all add: decode_control_def encode_pb_def decode_pb_def codec_ok_def type_round_trip del: type_code.simps)

lemma try_parse_written:
  assumes "codec_ok encode decode" and "encode_frame encode m [] = Inr framed"
  shows "try_parse decode (framed @ suf) = Inr (Some (m, length framed))"
    and "k < length framed \<Longrightarrow> try_parse decode (take k framed) = Inr None"
proof -
  have w: "write_frame (fst (encode_control encode m)) (snd (encode_control encode m)) [] = Inr framed"
    using assms(2) by (simp add: encode_frame_def case_prod_beta)
  show "try_parse decode (framed @ suf) = Inr (Some (m, length framed))"
    using parse_frame_written(1,2) [OF w] decode_encode_control [OF assms(1), of m] by (simp add: try_parse_def decode_frame_def)
  show "k < length framed \<Longrightarrow> try_parse decode (take k framed) = Inr None"
    using parse_frame_written(3) [OF w] by (simp add: try_parse_def)
qed

text \<open>Whatever way the bytes of a frame are split, the reader finds the message and stops behind it.\<close>

lemma next_message_written:
  assumes "codec_ok encode decode" and "encode_frame encode m [] = Inr framed" and "list_all (\<lambda>c. c \<noteq> []) chunks"
    and "buffer @ concat chunks = framed @ rest"
  shows "\<exists>buffer' chunks'. next_message decode buffer chunks = Inr (Some (m, buffer', chunks')) \<and>
     buffer' @ concat chunks' = rest \<and> list_all (\<lambda>c. c \<noteq> []) chunks'"
  using assms(3,4)
proof (induction chunks arbitrary: buffer)
  case Nil
  then have "try_parse decode buffer = Inr (Some (m, length framed))" using try_parse_written(1) [OF assms(1,2)] by simp
  then show ?case using Nil by (simp add: next_message.simps)
next
  case (Cons chunk chunks)
  show ?case
  proof (cases "length framed \<le> length buffer")
    case True
    then obtain suf where b: "buffer = framed @ suf" using Cons.prems(2)
      by (metis append_eq_append_conv_if append_take_drop_id)
    then have "try_parse decode buffer = Inr (Some (m, length framed))" using try_parse_written(1) [OF assms(1,2)] by simp
    then show ?thesis using b Cons.prems by (auto simp: next_message.simps)
  next
    case False
    then have "buffer = take (length buffer) framed" using Cons.prems(2) by (simp add: append_eq_append_conv_if)
    then have "try_parse decode buffer = Inr None" using try_parse_written(2) [OF assms(1,2), of "length buffer"] False by simp
    then have "next_message decode buffer (chunk # chunks) = next_message decode (buffer @ chunk) chunks"
      using Cons.prems(1) by (simp add: next_message.simps [of decode buffer])
    then show ?thesis using Cons.IH [of "buffer @ chunk"] Cons.prems by simp
  qed
qed

lemma next_message_end: "list_all (\<lambda>c. c \<noteq> []) chunks \<Longrightarrow> concat chunks = [] \<Longrightarrow> next_message decode [] chunks = Inr None"
  by (cases chunks) (simp_all add: next_message.simps try_parse_def parse_frame_def HEADER_LEN_def)

lemma read_written:
  assumes "codec_ok encode decode" and "list_all2 (\<lambda>m framed. encode_frame encode m [] = Inr framed) ms frames"
    and "list_all (\<lambda>c. c \<noteq> []) chunks" and "buffer @ concat chunks = concat frames"
  shows "read_messages (Suc (length ms)) decode buffer chunks = (ms, Inr True)"
  using assms(2-4)
proof (induction ms frames arbitrary: buffer chunks rule: list_all2_induct)
  case Nil
  then show ?case using next_message_end [of chunks decode] by simp
next
  case (Cons m ms framed frames)
  obtain buffer' chunks' where "next_message decode buffer chunks = Inr (Some (m, buffer', chunks'))"
    "buffer' @ concat chunks' = concat frames" "list_all (\<lambda>c. c \<noteq> []) chunks'"
    using next_message_written [OF assms(1) Cons(1) Cons(4), of buffer "concat frames"] Cons(5) by auto
  then show ?case using Cons(3) [of chunks' buffer'] by simp
qed

subsection \<open>Voice envelopes round trip\<close>

lemma decode_encode_udp:
  assumes "\<And>a. audio_of (audio a) = Inr a" and "\<And>p. ping_of (ping p) = Inr p"
    and "(case m of UdpAudio a \<Rightarrow> audio a | UdpPing p \<Rightarrow> ping p) \<noteq> []"
  shows "decode_udp audio_of ping_of (encode_udp audio ping m) = Inr m"
  using assms by (cases m) (simp_all add: decode_udp_def)

end
