(* ===== verification/Ocb2.thy ===== *)
theory Ocb2
  imports Prelude
begin

text \<open>
  The voice cipher of \<open>runtime/crates/crypto/src/ocb2.rs\<close>: OCB2 over a block cipher, with the
  counter-measures against the XEX* forgery. The block cipher itself is the \<open>aes\<close> package and stays a
  parameter, a pair of functions on blocks; \<open>cipher_ok\<close> states what is used of it.
\<close>

subsection \<open>Blocks\<close>

type_synonym block = "u8 list"

definition BLOCK_SIZE :: nat where "BLOCK_SIZE = 16"

record cipher =
  ci_encrypt :: "block \<Rightarrow> block"
  ci_decrypt :: "block \<Rightarrow> block"

definition cipher_ok :: "cipher \<Rightarrow> bool" where
  "cipher_ok ci \<longleftrightarrow> (\<forall>b. length b = BLOCK_SIZE \<longrightarrow>
     length (ci_encrypt ci b) = BLOCK_SIZE \<and> ci_decrypt ci (ci_encrypt ci b) = b)"

definition xor_block :: "block \<Rightarrow> block \<Rightarrow> block" where
  "xor_block a b = map2 (XOR) a b"

definition times2 :: "block \<Rightarrow> block" where
  "times2 block =
     (let carry = drop_bit 7 (block ! 0) in
      map (\<lambda>i. push_bit 1 (block ! i) OR drop_bit 7 (block ! (i + 1))) [0..<BLOCK_SIZE - 1]
        @ [push_bit 1 (block ! (BLOCK_SIZE - 1)) XOR (carry * 0x87)])"

definition times3 :: "block \<Rightarrow> block" where
  "times3 block = map2 (XOR) block (times2 block)"

definition length_block :: "nat \<Rightarrow> block" where
  "length_block len = (let bits = (of_nat len :: 128 word) * 8
     in map (\<lambda>i. ucast (drop_bit (8 * (15 - i)) bits)) [0..<BLOCK_SIZE])"

definition read_block :: "u8 list \<Rightarrow> nat \<Rightarrow> block" where
  "read_block data offset =
     (if offset + BLOCK_SIZE \<le> length data then take BLOCK_SIZE (drop offset data) else replicate BLOCK_SIZE 0)"

definition flip_low :: "block \<Rightarrow> block" where
  "flip_low block = block[0 := block ! 0 XOR 1]"

subsection \<open>Encryption and decryption of one message\<close>

text \<open>Whether a block is critical for the forgery: the second to last one, zero but for its last byte.\<close>

definition critical :: "nat \<Rightarrow> block \<Rightarrow> bool" where
  "critical remaining block \<longleftrightarrow> remaining - BLOCK_SIZE \<le> BLOCK_SIZE \<and>
     fold (\<lambda>byte sum. sum OR byte) (take (BLOCK_SIZE - 1) block) 0 = (0 :: u8)"

record ocb =
  oc_authentic :: bool
  oc_delta :: block
  oc_checksum :: block
  oc_output :: "u8 list"

definition encrypt_block :: "cipher \<Rightarrow> bool \<Rightarrow> nat \<Rightarrow> block \<Rightarrow> ocb \<Rightarrow> ocb" where
  "encrypt_block ci modify remaining block s =
     (let flip = (critical remaining block \<and> modify);
          authentic = (if critical remaining block \<and> \<not> modify then False else oc_authentic s);
          delta = times2 (oc_delta s);
          tmp = xor_block delta block;
          tmp = (if flip then flip_low tmp else tmp);
          tmp = ci_encrypt ci tmp;
          checksum = xor_block (oc_checksum s) block;
          checksum = (if flip then flip_low checksum else checksum)
      in \<lparr>oc_authentic = authentic, oc_delta = delta, oc_checksum = checksum,
          oc_output = oc_output s @ xor_block delta tmp\<rparr>)"

function encrypt_blocks :: "cipher \<Rightarrow> bool \<Rightarrow> u8 list \<Rightarrow> nat \<Rightarrow> nat \<Rightarrow> ocb \<Rightarrow> nat \<times> nat \<times> ocb" where
  "encrypt_blocks ci modify plain offset remaining s =
     (if BLOCK_SIZE < remaining
      then encrypt_blocks ci modify plain (offset + BLOCK_SIZE) (remaining - BLOCK_SIZE)
             (encrypt_block ci modify remaining (read_block plain offset) s)
      else (offset, remaining, s))"
  by pat_completeness auto
termination by (relation "measure (\<lambda>(_, _, _, _, remaining, _). remaining)") (auto simp: BLOCK_SIZE_def)

definition ocb_start :: "cipher \<Rightarrow> block \<Rightarrow> ocb" where
  "ocb_start ci nonce = \<lparr>oc_authentic = True, oc_delta = ci_encrypt ci nonce,
     oc_checksum = replicate BLOCK_SIZE 0, oc_output = []\<rparr>"

definition ocb_encrypt :: "cipher \<Rightarrow> u8 list \<Rightarrow> block \<Rightarrow> bool \<Rightarrow> bool \<times> u8 list \<times> block" where
  "ocb_encrypt ci plain nonce modify =
     (let (offset, remaining, s) = encrypt_blocks ci modify plain 0 (length plain) (ocb_start ci nonce);
          delta = times2 (oc_delta s);
          pad = ci_encrypt ci (xor_block (length_block remaining) delta);
          tail = take remaining (drop offset plain) @ drop remaining pad;
          checksum = xor_block (oc_checksum s) tail;
          out_tail = xor_block pad tail;
          tag = ci_encrypt ci (xor_block (times3 delta) checksum)
      in (oc_authentic s, oc_output s @ take remaining out_tail, tag))"

definition decrypt_block :: "cipher \<Rightarrow> block \<Rightarrow> ocb \<Rightarrow> ocb" where
  "decrypt_block ci block s =
     (let delta = times2 (oc_delta s);
          tmp = ci_decrypt ci (xor_block delta block);
          decoded = xor_block delta tmp
      in s\<lparr>oc_delta := delta, oc_checksum := xor_block (oc_checksum s) decoded, oc_output := oc_output s @ decoded\<rparr>)"

function decrypt_blocks :: "cipher \<Rightarrow> u8 list \<Rightarrow> nat \<Rightarrow> nat \<Rightarrow> ocb \<Rightarrow> nat \<times> nat \<times> ocb" where
  "decrypt_blocks ci encrypted offset remaining s =
     (if BLOCK_SIZE < remaining
      then decrypt_blocks ci encrypted (offset + BLOCK_SIZE) (remaining - BLOCK_SIZE)
             (decrypt_block ci (read_block encrypted offset) s)
      else (offset, remaining, s))"
  by pat_completeness auto
termination by (relation "measure (\<lambda>(_, _, _, remaining, _). remaining)") (auto simp: BLOCK_SIZE_def)

definition ocb_decrypt :: "cipher \<Rightarrow> u8 list \<Rightarrow> block \<Rightarrow> bool \<times> u8 list \<times> block" where
  "ocb_decrypt ci encrypted nonce =
     (let (offset, remaining, s) = decrypt_blocks ci encrypted 0 (length encrypted) (ocb_start ci nonce);
          delta = times2 (oc_delta s);
          pad = ci_encrypt ci (xor_block (length_block remaining) delta);
          tail = xor_block (take remaining (drop offset encrypted) @ replicate (BLOCK_SIZE - remaining) 0) pad;
          checksum = xor_block (oc_checksum s) tail;
          authentic = (if take (BLOCK_SIZE - 1) tail = take (BLOCK_SIZE - 1) delta then False else oc_authentic s);
          tag = ci_encrypt ci (xor_block (times3 delta) checksum)
      in (authentic, oc_output s @ take remaining tail, tag))"

declare encrypt_blocks.simps [simp del] decrypt_blocks.simps [simp del]

subsection \<open>Algebra of blocks\<close>

lemma length_blocks [simp]:
  "length (xor_block a b) = min (length a) (length b)" "length (times2 a) = BLOCK_SIZE"
  "length (times3 a) = min (length a) BLOCK_SIZE" "length (length_block n) = BLOCK_SIZE"
  "length (read_block d off) = BLOCK_SIZE" "length (flip_low a) = length a"
  by (simp_all add: xor_block_def times2_def times3_def length_block_def read_block_def flip_low_def BLOCK_SIZE_def Let_def)

lemma nth_xor_block: "i < length a \<Longrightarrow> i < length b \<Longrightarrow> xor_block a b ! i = a ! i XOR b ! i"
  by (simp add: xor_block_def)

lemma xor_block_cancel: "length a = length b \<Longrightarrow> xor_block a (xor_block a b) = b"
  by (rule nth_equalityI) (simp_all add: nth_xor_block flip: xor.assoc)

lemma xor_block_assoc: "xor_block (xor_block a b) c = xor_block a (xor_block b c)"
  by (rule nth_equalityI) (simp_all add: nth_xor_block xor.assoc)

lemma xor_block_commute: "xor_block a b = xor_block b a"
  by (rule nth_equalityI) (simp_all add: nth_xor_block xor.commute)

lemma flip_xor: "length a = length b \<Longrightarrow> flip_low (xor_block a b) = xor_block a (flip_low b)"
proof (rule nth_equalityI)
  fix i
  assume l: "length a = length b" and "i < length (flip_low (xor_block a b))"
  then have "0 < length b" "i < length b" by auto
  then show "flip_low (xor_block a b) ! i = xor_block a (flip_low b) ! i"
    using l by (cases i) (simp_all add: flip_low_def nth_xor_block xor.assoc)
qed simp

subsection \<open>The loops, on what is left of the message\<close>

text \<open>The state of both loops after the blocks of \<open>rest\<close>, and the part of \<open>rest\<close> left for the final block.\<close>

function sealed :: "cipher \<Rightarrow> bool \<Rightarrow> u8 list \<Rightarrow> ocb \<Rightarrow> ocb" where
  "sealed ci modify rest s =
     (if BLOCK_SIZE < length rest
      then sealed ci modify (drop BLOCK_SIZE rest) (encrypt_block ci modify (length rest) (take BLOCK_SIZE rest) s)
      else s)"
  by pat_completeness auto
termination by (relation "measure (\<lambda>(_, _, rest, _). length rest)") (auto simp: BLOCK_SIZE_def)

function opened :: "cipher \<Rightarrow> u8 list \<Rightarrow> ocb \<Rightarrow> ocb" where
  "opened ci rest s =
     (if BLOCK_SIZE < length rest
      then opened ci (drop BLOCK_SIZE rest) (decrypt_block ci (take BLOCK_SIZE rest) s)
      else s)"
  by pat_completeness auto
termination by (relation "measure (\<lambda>(_, rest, _). length rest)") (auto simp: BLOCK_SIZE_def)

function last_part :: "'a list \<Rightarrow> 'a list" where
  "last_part rest = (if BLOCK_SIZE < length rest then last_part (drop BLOCK_SIZE rest) else rest)"
  by pat_completeness auto
termination by (relation "measure length") (auto simp: BLOCK_SIZE_def)

declare sealed.simps [simp del] opened.simps [simp del] last_part.simps [simp del]

lemma encrypt_blocks_sealed:
  assumes "offset + remaining = length plain"
  shows "encrypt_blocks ci modify plain offset remaining s =
     (length plain - length (last_part (drop offset plain)), length (last_part (drop offset plain)),
      sealed ci modify (drop offset plain) s)"
  using assms
proof (induction remaining arbitrary: offset s rule: less_induct)
  case (less remaining)
  show ?case
  proof (cases "BLOCK_SIZE < remaining")
    case True
    then have r: "read_block plain offset = take BLOCK_SIZE (drop offset plain)" using less(2) by (simp add: read_block_def)
    have "remaining - BLOCK_SIZE < remaining" using True by (simp add: BLOCK_SIZE_def)
    note IH = less(1) [OF this, of "offset + BLOCK_SIZE"]
    have l: "length (drop offset plain) = remaining" using less(2) by simp
    show ?thesis
      using IH less(2) True l r
      by (simp add: encrypt_blocks.simps [of ci modify plain offset remaining s] sealed.simps [of ci modify "drop offset plain" s]
          last_part.simps [of "drop offset plain"] add.commute)
  next
    case False
    moreover have "remaining = length plain - offset" using less(2) by simp
    ultimately show ?thesis using less(2)
      by (simp add: encrypt_blocks.simps sealed.simps [of _ _ "drop offset plain"] last_part.simps [of "drop offset plain"])
  qed
qed

lemma decrypt_blocks_opened:
  assumes "offset + remaining = length encrypted"
  shows "decrypt_blocks ci encrypted offset remaining s =
     (length encrypted - length (last_part (drop offset encrypted)), length (last_part (drop offset encrypted)),
      opened ci (drop offset encrypted) s)"
  using assms
proof (induction remaining arbitrary: offset s rule: less_induct)
  case (less remaining)
  show ?case
  proof (cases "BLOCK_SIZE < remaining")
    case True
    then have r: "read_block encrypted offset = take BLOCK_SIZE (drop offset encrypted)" using less(2) by (simp add: read_block_def)
    have "remaining - BLOCK_SIZE < remaining" using True by (simp add: BLOCK_SIZE_def)
    note IH = less(1) [OF this, of "offset + BLOCK_SIZE"]
    have l: "length (drop offset encrypted) = remaining" using less(2) by simp
    show ?thesis
      using IH less(2) True l r
      by (simp add: decrypt_blocks.simps [of ci encrypted offset remaining s] opened.simps [of ci "drop offset encrypted" s]
          last_part.simps [of "drop offset encrypted"] add.commute)
  next
    case False
    moreover have "remaining = length encrypted - offset" using less(2) by simp
    ultimately show ?thesis using less(2)
      by (simp add: decrypt_blocks.simps opened.simps [of _ "drop offset encrypted"] last_part.simps [of "drop offset encrypted"])
  qed
qed

lemma last_part_suffix: "\<exists>pre. rest = pre @ last_part rest"
proof (induction rest rule: last_part.induct)
  case (1 rest)
  show ?case
  proof (cases "BLOCK_SIZE < length rest")
    case True
    then obtain pre where "drop BLOCK_SIZE rest = pre @ last_part (drop BLOCK_SIZE rest)" using 1 by blast
    then have "rest = (take BLOCK_SIZE rest @ pre) @ last_part rest"
      using True by (metis append.assoc append_take_drop_id last_part.simps)
    then show ?thesis by blast
  qed (simp add: last_part.simps)
qed

lemma last_part_drop: "drop (length rest - length (last_part rest)) rest = last_part rest"
  using last_part_suffix [of rest] by (metis append_eq_conv_conj diff_add_inverse2 length_append)

lemma last_part_short: "length (last_part rest) \<le> BLOCK_SIZE"
  by (induction rest rule: last_part.induct) (subst last_part.simps, simp)

subsection \<open>Decryption undoes encryption\<close>

text \<open>
  What a receiver reads of a message: the message itself, but for the bit that the counter-measure
  flips in a critical block.
\<close>

function hardened :: "bool \<Rightarrow> u8 list \<Rightarrow> u8 list" where
  "hardened modify rest =
     (if BLOCK_SIZE < length rest
      then (if critical (length rest) (take BLOCK_SIZE rest) \<and> modify then flip_low (take BLOCK_SIZE rest) else take BLOCK_SIZE rest)
             @ hardened modify (drop BLOCK_SIZE rest)
      else rest)"
  by pat_completeness auto
termination by (relation "measure (\<lambda>(_, rest). length rest)") (auto simp: BLOCK_SIZE_def)

function has_critical :: "u8 list \<Rightarrow> bool" where
  "has_critical rest =
     (if BLOCK_SIZE < length rest
      then critical (length rest) (take BLOCK_SIZE rest) \<or> has_critical (drop BLOCK_SIZE rest) else False)"
  by pat_completeness auto
termination by (relation "measure length") (auto simp: BLOCK_SIZE_def)

declare hardened.simps [simp del] has_critical.simps [simp del]

lemma hardened_plain: "\<not> modify \<or> \<not> has_critical rest \<Longrightarrow> hardened modify rest = rest"
proof (induction modify rest rule: hardened.induct)
  case (1 modify rest)
  then show ?case using hardened.simps [of modify rest] has_critical.simps [of rest] by auto
qed

lemma length_hardened: "length (hardened modify rest) = length rest"
proof (induction modify rest rule: hardened.induct)
  case (1 modify rest)
  then show ?case using hardened.simps [of modify rest] by auto
qed

definition ocb_ok :: "ocb \<Rightarrow> bool" where
  "ocb_ok s \<longleftrightarrow> length (oc_delta s) = BLOCK_SIZE \<and> length (oc_checksum s) = BLOCK_SIZE"

lemma cipher_length: "cipher_ok ci \<Longrightarrow> length b = BLOCK_SIZE \<Longrightarrow> length (ci_encrypt ci b) = BLOCK_SIZE"
  by (simp add: cipher_ok_def)

lemma ocb_ok_start: "cipher_ok ci \<Longrightarrow> length nonce = BLOCK_SIZE \<Longrightarrow> ocb_ok (ocb_start ci nonce)"
  by (simp add: ocb_ok_def ocb_start_def cipher_length)

lemma ocb_ok_block: "ocb_ok s \<Longrightarrow> length b = BLOCK_SIZE \<Longrightarrow> ocb_ok (encrypt_block ci modify n b s)"
  by (simp add: ocb_ok_def encrypt_block_def Let_def)

text \<open>One block: what is written decrypts to the block, and both sides carry on with the same state.\<close>

lemma decrypt_encrypt_block:
  assumes "cipher_ok ci" and "ocb_ok s" and "ocb_ok t" and "length b = BLOCK_SIZE"
    and "oc_delta t = oc_delta s" and "oc_checksum t = oc_checksum s"
    and read_def: "read = (if critical n b \<and> modify then flip_low b else b)"
  obtains out where "oc_output (encrypt_block ci modify n b s) = oc_output s @ out" "length out = BLOCK_SIZE"
    "decrypt_block ci out t = t\<lparr>oc_delta := oc_delta (encrypt_block ci modify n b s),
       oc_checksum := oc_checksum (encrypt_block ci modify n b s), oc_output := oc_output t @ read\<rparr>"
proof -
  let ?d = "times2 (oc_delta s)"
  let ?in = "xor_block ?d read"
  have lr: "length read = BLOCK_SIZE" using assms(4) by (simp add: read_def)
  have "ci_decrypt ci (ci_encrypt ci ?in) = ?in" "length (ci_encrypt ci ?in) = BLOCK_SIZE"
    using assms(1) lr by (simp_all add: cipher_ok_def)
  then have dec: "decrypt_block ci (xor_block ?d (ci_encrypt ci ?in)) t = t\<lparr>oc_delta := ?d,
       oc_checksum := xor_block (oc_checksum s) read, oc_output := oc_output t @ read\<rparr>"
    using assms(5,6) lr by (simp add: decrypt_block_def Let_def xor_block_cancel)
  have "length (oc_checksum s) = BLOCK_SIZE" using assms(2) by (simp add: ocb_ok_def)
  then have e: "encrypt_block ci modify n b s = \<lparr>oc_authentic = (if critical n b \<and> \<not> modify then False else oc_authentic s),
      oc_delta = ?d, oc_checksum = xor_block (oc_checksum s) read,
      oc_output = oc_output s @ xor_block ?d (ci_encrypt ci ?in)\<rparr>"
    using assms(4) by (simp add: encrypt_block_def Let_def read_def flip_xor)
  show ?thesis
    using that [of "xor_block ?d (ci_encrypt ci ?in)"] dec e \<open>length (ci_encrypt ci ?in) = BLOCK_SIZE\<close> by simp
qed

text \<open>All the full blocks, whatever follows them.\<close>

lemma open_sealed:
  assumes "cipher_ok ci" and "ocb_ok s" and "ocb_ok t" and "oc_delta t = oc_delta s" and "oc_checksum t = oc_checksum s"
    and "length end = length (last_part rest)"
  shows "\<exists>out. oc_output (sealed ci modify rest s) = oc_output s @ out \<and> length out = length rest - length (last_part rest) \<and>
     ocb_ok (sealed ci modify rest s) \<and> last_part (out @ end) = end \<and>
     opened ci (out @ end) t = t\<lparr>oc_delta := oc_delta (sealed ci modify rest s),
        oc_checksum := oc_checksum (sealed ci modify rest s),
        oc_output := oc_output t @ take (length rest - length (last_part rest)) (hardened modify rest)\<rparr>"
  using assms(2-6)
proof (induction rest arbitrary: s t rule: last_part.induct)
  case (1 rest)
  show ?case
  proof (cases "BLOCK_SIZE < length rest")
    case False
    then show ?thesis using 1(2-6)
      by (simp add: last_part.simps [of rest] sealed.simps [of _ _ rest] opened.simps [of _ "end"] last_part.simps [of "end"])
  next
    case True
    let ?b = "take BLOCK_SIZE rest" and ?rest = "drop BLOCK_SIZE rest"
    let ?s = "encrypt_block ci modify (length rest) ?b s"
    let ?read = "if critical (length rest) ?b \<and> modify then flip_low ?b else ?b"
    have lb: "length ?b = BLOCK_SIZE" using True by simp
    obtain b where b: "oc_output ?s = oc_output s @ b" "length b = BLOCK_SIZE"
      and t: "decrypt_block ci b t = t\<lparr>oc_delta := oc_delta ?s, oc_checksum := oc_checksum ?s, oc_output := oc_output t @ ?read\<rparr>"
      by (rule decrypt_encrypt_block [OF assms(1) 1(2,3) lb 1(4,5) refl])
    have lp: "last_part rest = last_part ?rest" using True by (simp add: last_part.simps [of rest])
    have s_ok: "ocb_ok ?s" using 1(2) lb by (rule ocb_ok_block)
    obtain out where out: "oc_output (sealed ci modify ?rest ?s) = oc_output ?s @ out"
        "length out = length ?rest - length (last_part ?rest)" "ocb_ok (sealed ci modify ?rest ?s)" "last_part (out @ end) = end"
      and o: "opened ci (out @ end) (decrypt_block ci b t) = (decrypt_block ci b t)\<lparr>oc_delta := oc_delta (sealed ci modify ?rest ?s),
        oc_checksum := oc_checksum (sealed ci modify ?rest ?s),
        oc_output := oc_output (decrypt_block ci b t) @ take (length ?rest - length (last_part ?rest)) (hardened modify ?rest)\<rparr>"
      using 1(1) [OF True s_ok, of "decrypt_block ci b t"] s_ok 1(6) lp t by (auto simp: ocb_ok_def)
    have se: "sealed ci modify rest s = sealed ci modify ?rest ?s" using True by (simp add: sealed.simps [of _ _ rest])
    have le: "length (last_part ?rest) \<le> length ?rest" using last_part_suffix [of ?rest] by (metis length_append le_add2)
    have "0 < length ?rest" using True by simp
    then have "0 < length (out @ end)" using out(2) 1(6) lp le by auto
    then have big: "BLOCK_SIZE < length ((b @ out) @ end)" using b(2) by simp
    have op: "opened ci ((b @ out) @ end) t = opened ci (out @ end) (decrypt_block ci b t)"
      using big b(2) by (simp add: opened.simps [of ci "b @ out @ end" t])
    have en: "last_part ((b @ out) @ end) = end" using big b(2) out(4) by (simp add: last_part.simps [of "b @ out @ end"])
    have har: "take (length rest - length (last_part rest)) (hardened modify rest) =
        ?read @ take (length ?rest - length (last_part ?rest)) (hardened modify ?rest)"
    proof -
      let ?n = "length ?rest - length (last_part ?rest)"
      have "length rest - length (last_part rest) = BLOCK_SIZE + ?n" using True le lp by simp
      moreover have "hardened modify rest = ?read @ hardened modify ?rest" using True by (simp add: hardened.simps [of modify rest])
      moreover have "length ?read = BLOCK_SIZE" using lb by simp
      ultimately show ?thesis by (simp only: take_append) simp
    qed
    show ?thesis
      unfolding se
      by (rule exI [of _ "b @ out"]) (use b out o op en har t le True lp in simp)
  qed
qed

lemma sealed_authentic:
  "oc_authentic (sealed ci modify rest s) \<longleftrightarrow> oc_authentic s \<and> (modify \<or> \<not> has_critical rest)"
proof (induction ci modify rest s rule: sealed.induct)
  case (1 ci modify rest s)
  then show ?case
    using sealed.simps [of ci modify rest s] has_critical.simps [of rest] by (auto simp: encrypt_block_def Let_def)
qed

lemma hardened_last: "drop (length rest - length (last_part rest)) (hardened modify rest) = last_part rest"
proof (induction rest rule: last_part.induct)
  case (1 rest)
  show ?case
  proof (cases "BLOCK_SIZE < length rest")
    case True
    let ?rest = "drop BLOCK_SIZE rest"
    let ?read = "if critical (length rest) (take BLOCK_SIZE rest) \<and> modify then flip_low (take BLOCK_SIZE rest) else take BLOCK_SIZE rest"
    have lp: "last_part rest = last_part ?rest" using True by (simp add: last_part.simps [of rest])
    have le: "length (last_part ?rest) \<le> length ?rest" using last_part_suffix [of ?rest] by (metis length_append le_add2)
    have "length rest - length (last_part rest) = length ?read + (length ?rest - length (last_part ?rest))"
      using True le lp by simp
    moreover have "hardened modify rest = ?read @ hardened modify ?rest" using True by (simp add: hardened.simps [of modify rest])
    ultimately show ?thesis using 1(1) [OF True] lp by (simp only: drop_append) simp
  qed (simp add: last_part.simps [of rest] hardened.simps [of modify rest])
qed

text \<open>The final block, padded by the stream both sides compute.\<close>

definition final_tail :: "cipher \<Rightarrow> block \<Rightarrow> u8 list \<Rightarrow> block" where
  "final_tail ci delta part = part @ drop (length part) (ci_encrypt ci (xor_block (length_block (length part)) delta))"

lemma tail_recovered:
  assumes "length pad = BLOCK_SIZE" and "length part \<le> BLOCK_SIZE" and "tail = part @ drop (length part) pad"
  shows "xor_block (take (length part) (xor_block pad tail) @ replicate (BLOCK_SIZE - length part) 0) pad = tail"
proof (rule nth_equalityI)
  fix i
  assume "i < length (xor_block (take (length part) (xor_block pad tail) @ replicate (BLOCK_SIZE - length part) 0) pad)"
  then have i: "i < BLOCK_SIZE" using assms by simp
  have cancel: "(a XOR b) XOR a = b" for a b :: u8 by (simp add: xor.commute flip: xor.assoc)
  show "xor_block (take (length part) (xor_block pad tail) @ replicate (BLOCK_SIZE - length part) 0) pad ! i = tail ! i"
    using i assms by (cases "i < length part") (simp_all add: nth_xor_block nth_append cancel)
qed (use assms in simp)

lemma ocb_decrypt_encrypt:
  assumes "cipher_ok ci" and "length nonce = BLOCK_SIZE" and "ocb_encrypt ci plain nonce modify = (authentic, encrypted, tag)"
  defines "delta \<equiv> times2 (oc_delta (sealed ci modify plain (ocb_start ci nonce)))"
  shows "authentic \<longleftrightarrow> modify \<or> \<not> has_critical plain"
    and "length encrypted = length plain"
    and "ocb_decrypt ci encrypted nonce =
       (take (BLOCK_SIZE - 1) (final_tail ci delta (last_part plain)) \<noteq> take (BLOCK_SIZE - 1) delta, hardened modify plain, tag)"
proof -
  let ?init = "ocb_start ci nonce" and ?fin = "last_part plain"
  let ?s = "sealed ci modify plain ?init"
  let ?pad = "ci_encrypt ci (xor_block (length_block (length ?fin)) delta)"
  let ?tail = "?fin @ drop (length ?fin) ?pad"
  let ?last = "take (length ?fin) (xor_block ?pad ?tail)"
  have ok0: "ocb_ok ?init" by (rule ocb_ok_start [OF assms(1,2)])
  have pad: "length ?pad = BLOCK_SIZE" using assms(1) by (simp add: cipher_length delta_def)
  have short: "length ?fin \<le> BLOCK_SIZE" by (rule last_part_short)
  have last: "length ?last = length ?fin" using pad short by simp
  obtain out where out: "oc_output ?s = out" "length out = length plain - length ?fin" "last_part (out @ ?last) = ?last"
    and o: "opened ci (out @ ?last) ?init = ?init\<lparr>oc_delta := oc_delta ?s, oc_checksum := oc_checksum ?s,
       oc_output := take (length plain - length ?fin) (hardened modify plain)\<rparr>"
    using open_sealed [OF assms(1) ok0 ok0 refl refl last, of modify] by (auto simp: ocb_start_def)
  have le: "length ?fin \<le> length plain" using last_part_suffix [of plain] by (metis length_append le_add2)
  have e: "(authentic, encrypted, tag) = (oc_authentic ?s, out @ ?last,
      ci_encrypt ci (xor_block (times3 delta) (xor_block (oc_checksum ?s) ?tail)))"
    using assms(3) out(1) by (simp add: ocb_encrypt_def encrypt_blocks_sealed Let_def last_part_drop delta_def)
  then show "authentic \<longleftrightarrow> modify \<or> \<not> has_critical plain" by (simp add: sealed_authentic ocb_start_def)
  show len: "length encrypted = length plain" using e out(2) last le by simp
  have parts: "decrypt_blocks ci encrypted 0 (length encrypted) ?init = (length plain - length ?fin, length ?fin, opened ci (out @ ?last) ?init)"
    using decrypt_blocks_opened [of 0 "length encrypted" encrypted ci ?init] e out(3) last len by simp
  have dr: "drop (length plain - length ?fin) encrypted = ?last" using e out(2) by simp
  have rec: "xor_block (?last @ replicate (BLOCK_SIZE - length ?fin) 0) ?pad = ?tail"
    by (rule tail_recovered [OF pad short refl])
  have whole: "take (length plain - length ?fin) (hardened modify plain) @ ?fin = hardened modify plain"
    using hardened_last [of plain modify] by (metis append_take_drop_id)
  have "take (length ?fin) ?tail = ?fin" by simp
  then show "ocb_decrypt ci encrypted nonce =
       (take (BLOCK_SIZE - 1) (final_tail ci delta ?fin) \<noteq> take (BLOCK_SIZE - 1) delta, hardened modify plain, tag)"
    unfolding ocb_decrypt_def parts Let_def prod.case dr o final_tail_def
    using rec whole e last by (simp add: delta_def [symmetric]) (simp add: ocb_start_def)
qed

end
