(* ===== verification/Crypt_State.thy ===== *)
theory Crypt_State
  imports Ocb2
begin

text \<open>
  The crypt state of one client in \<open>ocb2.rs\<close>: the two nonces, the replay history and the statistics,
  with \<open>encrypt\<close> and \<open>decrypt\<close>. A nonce is a little-endian counter of sixteen bytes, of which a packet
  carries the lowest; \<open>recover_iv\<close> is the part of \<open>decrypt\<close> that finds the others again.
\<close>

subsection \<open>Nonces\<close>

fun increment_bytes :: "u8 list \<Rightarrow> u8 list" where
  "increment_bytes [] = []"
| "increment_bytes (b # bs) = (if b + 1 \<noteq> 0 then (b + 1) # bs else (b + 1) # increment_bytes bs)"

fun decrement_bytes :: "u8 list \<Rightarrow> u8 list" where
  "decrement_bytes [] = []"
| "decrement_bytes (b # bs) = (if b \<noteq> 0 then (b - 1) # bs else (b - 1) # decrement_bytes bs)"

definition increment_iv_from :: "nat \<Rightarrow> block \<Rightarrow> block" where
  "increment_iv_from start iv = take start iv @ increment_bytes (drop start iv)"

definition increment_iv :: "block \<Rightarrow> block" where
  "increment_iv iv = increment_iv_from 0 iv"

definition decrement_iv_from :: "nat \<Rightarrow> block \<Rightarrow> block" where
  "decrement_iv_from start iv = take start iv @ decrement_bytes (drop start iv)"

subsection \<open>The state\<close>

record crypt_state =
  cs_cipher :: cipher
  cs_encrypt_iv :: block
  cs_decrypt_iv :: block
  cs_history :: "u8 list"
  cs_good :: u32
  cs_late :: u32
  cs_lost :: u32

definition crypt_new :: "cipher \<Rightarrow> block \<Rightarrow> block \<Rightarrow> crypt_state" where
  "crypt_new ci encrypt_iv decrypt_iv = \<lparr>cs_cipher = ci, cs_encrypt_iv = encrypt_iv, cs_decrypt_iv = decrypt_iv,
     cs_history = replicate 256 0, cs_good = 0, cs_late = 0, cs_lost = 0\<rparr>"

definition set_decrypt_iv :: "block \<Rightarrow> crypt_state \<Rightarrow> crypt_state" where
  "set_decrypt_iv iv st = st\<lparr>cs_decrypt_iv := iv\<rparr>"

definition crypt_encrypt :: "u8 list \<Rightarrow> crypt_state \<Rightarrow> u8 list option \<times> crypt_state" where
  "crypt_encrypt plain st =
     (let st = st\<lparr>cs_encrypt_iv := increment_iv (cs_encrypt_iv st)\<rparr>;
          (authentic, ciphertext, tag) = ocb_encrypt (cs_cipher st) plain (cs_encrypt_iv st) True
      in if \<not> authentic then (None, st)
         else (Some ((cs_encrypt_iv st ! 0) # take 3 tag @ ciphertext), st))"

definition apply_stat :: "int \<Rightarrow> u32 \<Rightarrow> u32" where
  "apply_stat delta counter =
     (if 0 < delta then counter + word_of_int delta
      else if \<bar>delta\<bar> < sint counter then counter - word_of_int \<bar>delta\<bar>
      else counter)"

text \<open>
  The nonce a packet was made with, from the receiver's nonce and the packet's first byte; whether the
  packet came in order, whether the receiver's nonce comes back afterwards, and the changes of the
  late and lost counts.
\<close>

record recovery =
  rc_iv :: block
  rc_in_order :: bool
  rc_restore :: bool
  rc_late :: int
  rc_lost :: int

definition recover_iv :: "block \<Rightarrow> u8 \<Rightarrow> recovery option" where
  "recover_iv iv ivbyte =
     (let own = iv ! 0; moved = iv[0 := ivbyte] in
      if own + 1 = ivbyte then
        (if own < ivbyte then Some \<lparr>rc_iv = moved, rc_in_order = True, rc_restore = False, rc_late = 0, rc_lost = 0\<rparr>
         else if ivbyte < own
         then Some \<lparr>rc_iv = increment_iv_from 1 moved, rc_in_order = True, rc_restore = False, rc_late = 0, rc_lost = 0\<rparr>
         else None)
      else
        let diff = uint ivbyte - uint own;
            diff = (if 128 < diff then diff - 256 else if diff < -128 then diff + 256 else diff)
        in if ivbyte < own \<and> -30 < diff \<and> diff < 0
           then Some \<lparr>rc_iv = moved, rc_in_order = False, rc_restore = True, rc_late = 1, rc_lost = -1\<rparr>
           else if own < ivbyte \<and> -30 < diff \<and> diff < 0
           then Some \<lparr>rc_iv = decrement_iv_from 1 moved, rc_in_order = False, rc_restore = True, rc_late = 1, rc_lost = -1\<rparr>
           else if own < ivbyte \<and> 0 < diff
           then Some \<lparr>rc_iv = moved, rc_in_order = False, rc_restore = False, rc_late = 0, rc_lost = uint ivbyte - uint own - 1\<rparr>
           else if ivbyte < own \<and> 0 < diff
           then Some \<lparr>rc_iv = increment_iv_from 1 moved, rc_in_order = False, rc_restore = False, rc_late = 0,
                  rc_lost = 256 - uint own + uint ivbyte - 1\<rparr>
           else None)"

definition crypt_decrypt :: "u8 list \<Rightarrow> crypt_state \<Rightarrow> u8 list option \<times> crypt_state" where
  "crypt_decrypt source st =
     (if length source < 4 then (None, st)
      else let header = take 4 source; ciphertext = drop 4 source in
        (case recover_iv (cs_decrypt_iv st) (header ! 0) of
           None \<Rightarrow> (None, st)
         | Some rc \<Rightarrow>
             let iv = rc_iv rc in
             if \<not> rc_in_order rc \<and> cs_history st ! unat (iv ! 0) = iv ! 1 then (None, st)
             else let (authentic, plain, tag) = ocb_decrypt (cs_cipher st) ciphertext iv in
               if \<not> authentic \<or> take 3 tag \<noteq> drop 1 header then (None, st)
               else (Some plain, st\<lparr>cs_decrypt_iv := if rc_restore rc then cs_decrypt_iv st else iv,
                       cs_history := (cs_history st)[unat (iv ! 0) := iv ! 1],
                       cs_good := cs_good st + 1,
                       cs_late := apply_stat (rc_late rc) (cs_late st),
                       cs_lost := apply_stat (rc_lost rc) (cs_lost st)\<rparr>)))"

subsection \<open>Nonces as counters\<close>

fun counter :: "u8 list \<Rightarrow> nat" where
  "counter [] = 0"
| "counter (b # bs) = unat b + 256 * counter bs"

lemma unat8: "unat (b :: u8) < 256"
proof -
  have "unat b < 2 ^ LENGTH(8)" by (rule unsigned_less)
  then show ?thesis by simp
qed

lemma uint8: "0 \<le> uint (b :: u8)" "uint (b :: u8) < 256"
  using unat8 [of b] by (simp, metis int_nat_eq of_nat_less_iff of_nat_numeral uint_nat)

lemma counter_less: "counter bs < 256 ^ length bs"
proof (induction bs)
  case (Cons b bs)
  then have "Suc (counter bs) \<le> 256 ^ length bs" by simp
  then have "256 * Suc (counter bs) \<le> 256 ^ length (b # bs)" by simp
  then show ?case using unat8 [of b] by simp
qed simp

lemma counter_inject: "length bs = length cs \<Longrightarrow> counter bs = counter cs \<Longrightarrow> bs = cs"
proof (induction bs cs rule: list_induct2)
  case (Cons b bs c cs)
  then have "unat b + 256 * counter bs = unat c + 256 * counter cs" by simp
  then have "(unat b + 256 * counter bs) mod 256 = (unat c + 256 * counter cs) mod 256"
    "(unat b + 256 * counter bs) div 256 = (unat c + 256 * counter cs) div 256" by simp_all
  then have "unat b = unat c" "counter bs = counter cs" using unat8 [of b] unat8 [of c] by simp_all
  then show ?case using Cons by (simp add: word_unat_eq_iff)
qed simp

lemma unat_succ8: "unat (b + 1 :: u8) = (if b = -1 then 0 else unat b + 1)"
proof -
  have "unat b = 255 \<longleftrightarrow> b = -1" by (simp add: word_unat_eq_iff unat_minus_one_word)
  then show ?thesis using unat8 [of b] by (auto simp: unat_word_ariths unat_minus_one_word)
qed

lemma unat_pred8: "unat (b - 1 :: u8) = (if b = 0 then 255 else unat b - 1)"
proof (cases "b = 0")
  case False
  then have "0 < unat b" by (simp add: unat_gt_0)
  have "unat (b - 1 + 1) = unat b" by simp
  then show ?thesis using unat_succ8 [of "b - 1"] False by (auto split: if_splits)
qed (simp add: unat_minus_one_word)

lemma length_bytes [simp]: "length (increment_bytes bs) = length bs" "length (decrement_bytes bs) = length bs"
  by (induction bs) auto

lemma counter_increment: "counter (increment_bytes bs) = (counter bs + 1) mod 256 ^ length bs"
proof (induction bs)
  case (Cons b bs)
  show ?case
  proof (cases "b = -1")
    case True
    have "256 * ((counter bs + 1) mod 256 ^ length bs) = (256 * (counter bs + 1)) mod (256 * 256 ^ length bs)"
      by (rule mult_mod_right)
    then show ?thesis using Cons True by (simp add: unat_minus_one_word)
  next
    case False
    then have "b + 1 \<noteq> 0" by (metis eq_neg_iff_add_eq_0)
    moreover have "counter ((b + 1) # bs) < 256 ^ length (b # bs)"
      using counter_less [of "(b + 1) # bs"] by simp
    ultimately show ?thesis using False by (simp add: unat_succ8)
  qed
qed simp

lemma increment_decrement: "increment_bytes (decrement_bytes bs) = bs"
  by (induction bs) auto

lemma counter_decrement: "counter bs = (counter (decrement_bytes bs) + 1) mod 256 ^ length bs"
  using counter_increment [of "decrement_bytes bs"] by (simp add: increment_decrement)

text \<open>Which nonces a receiver finds: those up to 29 before its own and up to 127 after it.\<close>

definition shifted :: "block \<Rightarrow> int \<Rightarrow> int" where
  "shifted iv d = (int (counter iv) + d) mod 2 ^ 128"

lemma carry_up:
  assumes "length bs = 15"
  shows "\<exists>k. int (counter (increment_bytes bs)) = int (counter bs) + 1 - k * 2 ^ 120"
proof -
  have "int (counter (increment_bytes bs)) = (int (counter bs) + 1) mod 2 ^ 120"
    using assms by (simp add: counter_increment zmod_int add.commute)
  then show ?thesis by (metis minus_mult_div_eq_mod mult.commute)
qed

lemma carry_down:
  assumes "length bs = 15"
  shows "\<exists>k. int (counter (decrement_bytes bs)) = int (counter bs) - 1 + k * 2 ^ 120"
proof -
  obtain k where "int (counter bs) = int (counter (decrement_bytes bs)) + 1 - k * 2 ^ 120"
    using carry_up [of "decrement_bytes bs"] assms by (auto simp: increment_decrement)
  then show ?thesis by (intro exI [of _ k]) simp
qed

lemma counter_shifted:
  assumes "length n = BLOCK_SIZE" and "int (counter n) = int (counter iv) + d + k * 2 ^ 128"
  shows "int (counter n) = shifted iv d"
proof -
  have "0 \<le> int (counter n)" "int (counter n) < 2 ^ 128"
    using counter_less [of n] assms(1) by (simp_all add: BLOCK_SIZE_def)
  then have "int (counter n) = int (counter n) mod 2 ^ 128" by (metis mod_pos_pos_trivial)
  also have "\<dots> = shifted iv d" unfolding assms(2) shifted_def by (rule mod_mult_self1)
  finally show ?thesis .
qed

lemma shifted_low:
  assumes "int (counter (c # cs)) = shifted (b # bs) d"
  shows "uint c = (uint b + d) mod 256"
proof -
  have "int (counter (c # cs)) mod 256 = (int (counter (b # bs)) + d) mod 2 ^ 128 mod 256"
    using assms by (simp add: shifted_def)
  also have "\<dots> = (int (counter (b # bs)) + d) mod 256" by (rule mod_mod_cancel) simp
  also have "int (counter (b # bs)) + d = (uint b + d) + int (counter bs) * 256" by simp
  also have "\<dots> mod 256 = (uint b + d) mod 256" by (rule mod_mult_self1)
  finally show ?thesis using uint8 [of c] by simp
qed

lemma recover_finds:
  assumes "length iv = BLOCK_SIZE" and "length n = BLOCK_SIZE" and "int (counter n) = shifted iv d"
    and "-30 < d" and "d < 128" and "d \<noteq> 0"
  shows "recover_iv iv (n ! 0) = Some \<lparr>rc_iv = n, rc_in_order = (d = 1), rc_restore = (d < 0),
     rc_late = (if d < 0 then 1 else 0), rc_lost = (if d < 0 then -1 else d - 1)\<rparr>"
proof -
  obtain b bs where iv: "iv = b # bs" "length bs = 15" using assms(1) by (cases iv) (auto simp: BLOCK_SIZE_def)
  obtain c cs where n: "n = c # cs" "length cs = 15" using assms(2) by (cases n) (auto simp: BLOCK_SIZE_def)
  have low: "uint c = (uint b + d) mod 256" using assms(3) shifted_low iv n by simp
  have b: "0 \<le> uint b" "uint b < 256" using uint8 [of b] by simp_all
  have same: "n = c # xs" if "length xs = 15" "int (counter xs) = int (counter bs) + e + k * 2 ^ 120"
      "uint c + 256 * e = uint b + d" for xs e k
  proof (rule counter_inject)
    have "int (counter (c # xs)) = int (counter iv) + d + k * 2 ^ 128" using that iv by (simp add: algebra_simps)
    then have "int (counter (c # xs)) = shifted iv d" using that(1) by (intro counter_shifted) (simp_all add: BLOCK_SIZE_def)
    then show "counter n = counter (c # xs)" using assms(3) by (simp only: of_nat_eq_iff [symmetric, where 'a = int])
  qed (use n that in simp)
  have ord: "c < b \<longleftrightarrow> uint c < uint b" "b < c \<longleftrightarrow> uint b < uint c" "b + 1 = c \<longleftrightarrow> (uint b + 1) mod 256 = uint c"
    by (simp_all add: word_less_def word_uint_eq_iff uint_word_ariths)
  consider (down) "uint b + d < 0" | (flat) "0 \<le> uint b + d" "uint b + d < 256" | (up) "256 \<le> uint b + d" by linarith
  then show ?thesis
  proof cases
    case down
    have "(uint b + d) mod 256 = (uint b + d + 256) mod 256" by simp
    also have "\<dots> = uint b + d + 256" using down b assms(4) by (intro mod_pos_pos_trivial) linarith+
    finally have c: "uint c = uint b + d + 256" using low by simp
    obtain k where "int (counter (decrement_bytes bs)) = int (counter bs) - 1 + k * 2 ^ 120" using carry_down [OF iv(2)] by blast
    then have "n = c # decrement_bytes bs" using c iv(2) by (intro same [of _ "-1" k]) simp_all
    moreover have "(uint b + 1) mod 256 \<noteq> uint c" using c down b assms(4) by (subst mod_pos_pos_trivial) linarith+
    ultimately show ?thesis
      using c down b assms(4) n iv
      by (simp add: recover_iv_def Let_def ord decrement_iv_from_def) (use down b(1) in linarith)
  next
    case flat
    then have c: "uint c = uint b + d" using low by simp
    have "n = c # bs" using c iv(2) by (intro same [of _ 0 0]) simp_all
    moreover have "(uint b + 1) mod 256 = uint c \<longleftrightarrow> d = 1"
      using c flat b assms(4) by (cases "uint b = 255") (auto simp: mod_pos_pos_trivial)
    ultimately show ?thesis
      using c flat b assms(4-6) n iv by (simp add: recover_iv_def Let_def ord)
  next
    case up
    have "(uint b + d) mod 256 = (uint b + d - 256) mod 256" by (simp only: minus_mod_self2)
    also have "\<dots> = uint b + d - 256" using up b assms(5) by (intro mod_pos_pos_trivial) linarith+
    finally have c: "uint c = uint b + d - 256" using low by simp
    obtain k where "int (counter (increment_bytes bs)) = int (counter bs) + 1 - k * 2 ^ 120" using carry_up [OF iv(2)] by blast
    then have "n = c # increment_bytes bs" using c iv(2) by (intro same [of _ 1 "-k"]) simp_all
    moreover have "(uint b + 1) mod 256 = uint c \<longleftrightarrow> d = 1"
    proof (cases "uint b = 255")
      case False
      then have "(uint b + 1) mod 256 = uint b + 1" using b by (intro mod_pos_pos_trivial) linarith+
      then show ?thesis using c up b assms(5) False by linarith
    qed (use c in simp)
    ultimately show ?thesis
      using c up b assms(4-6) n iv
      by (simp add: recover_iv_def Let_def ord increment_iv_from_def)
  qed
qed

lemma recover_own: "recover_iv iv (iv ! 0) = None"
  by (simp add: recover_iv_def)

definition nonce_at :: "block \<Rightarrow> nat \<Rightarrow> block" where
  "nonce_at iv i = (increment_iv ^^ i) iv"

lemma nonce_at_simps [simp]: "nonce_at iv 0 = iv" "nonce_at iv (Suc i) = increment_iv (nonce_at iv i)"
  "nonce_at (increment_iv iv) i = increment_iv (nonce_at iv i)" "length (nonce_at iv i) = length iv"
proof -
  show "length (nonce_at iv i) = length iv"
    by (induction i) (simp_all add: nonce_at_def increment_iv_def increment_iv_from_def)
qed (simp_all add: nonce_at_def funpow_swap1)

lemma counter_nonce: "length iv = BLOCK_SIZE \<Longrightarrow> counter (nonce_at iv i) = (counter iv + i) mod 2 ^ 128"
proof (induction i)
  case 0
  then show ?case using counter_less [of iv] by (simp add: BLOCK_SIZE_def)
next
  case (Suc i)
  have "length (nonce_at iv i) = 16" using Suc(2) by (simp add: BLOCK_SIZE_def)
  then have "counter (nonce_at iv (Suc i)) = (counter (nonce_at iv i) + 1) mod 2 ^ 128"
    using counter_increment [of "nonce_at iv i"] by (simp add: increment_iv_def increment_iv_from_def)
  then show ?case using Suc by (simp add: mod_Suc_eq)
qed

text \<open>The nonces of one sender, seen from each other.\<close>

lemma nonce_shifted:
  assumes "length iv = BLOCK_SIZE"
  shows "int (counter (nonce_at iv j)) = shifted (nonce_at iv i) (int j - int i)"
  using counter_nonce [OF assms] by (simp add: shifted_def zmod_int mod_simps)

lemma nonce_low:
  assumes "length iv = BLOCK_SIZE"
  shows "unat (nonce_at iv i ! 0) = (unat (iv ! 0) + i) mod 256"
proof -
  have low: "counter bs mod 256 = unat (bs ! 0)" if "length bs = BLOCK_SIZE" for bs
    using that unat8 by (cases bs) (auto simp: BLOCK_SIZE_def)
  have "unat (nonce_at iv i ! 0) = (counter iv + i) mod 2 ^ 128 mod 256"
    using low [of "nonce_at iv i"] counter_nonce [OF assms] assms by simp
  also have "\<dots> = (counter iv + i) mod 256" by (rule mod_mod_cancel) simp
  also have "\<dots> = (counter iv mod 256 + i) mod 256" by (simp add: mod_simps)
  finally show ?thesis using low [OF assms] by simp
qed

lemma nonce_low_distinct:
  assumes "length iv = BLOCK_SIZE" and "i < j" and "j < i + 256"
  shows "nonce_at iv i ! 0 \<noteq> nonce_at iv j ! 0"
proof
  assume "nonce_at iv i ! 0 = nonce_at iv j ! 0"
  then have "(unat (iv ! 0) + i) mod 256 = (unat (iv ! 0) + j) mod 256" using nonce_low [OF assms(1)] by metis
  then have "256 dvd (unat (iv ! 0) + j) - (unat (iv ! 0) + i)" using assms(2) by (intro mod_eq_dvd_iff_nat [THEN iffD1]) auto
  then have "256 dvd j - i" by simp
  then show False using assms(2,3) by (auto dest!: dvd_imp_le)
qed

subsection \<open>Packets\<close>

definition packet :: "cipher \<Rightarrow> block \<Rightarrow> u8 list \<Rightarrow> u8 list" where
  "packet ci n plain = (case ocb_encrypt ci plain n True of (_, ciphertext, tag) \<Rightarrow> (n ! 0) # take 3 tag @ ciphertext)"

text \<open>The receiver's own test against the forgery does not fire on this message.\<close>

definition unsuspicious :: "cipher \<Rightarrow> block \<Rightarrow> u8 list \<Rightarrow> bool" where
  "unsuspicious ci n plain \<longleftrightarrow>
     (let delta = times2 (oc_delta (sealed ci True plain (ocb_start ci n)))
      in take (BLOCK_SIZE - 1) (final_tail ci delta (last_part plain)) \<noteq> take (BLOCK_SIZE - 1) delta)"

lemma encrypt_packet:
  assumes "cipher_ok (cs_cipher st)" and "length (cs_encrypt_iv st) = BLOCK_SIZE"
  shows "crypt_encrypt plain st = (Some (packet (cs_cipher st) (increment_iv (cs_encrypt_iv st)) plain),
     st\<lparr>cs_encrypt_iv := increment_iv (cs_encrypt_iv st)\<rparr>)"
proof -
  let ?n = "increment_iv (cs_encrypt_iv st)"
  obtain a ct tag where e: "ocb_encrypt (cs_cipher st) plain ?n True = (a, ct, tag)" by (cases "ocb_encrypt (cs_cipher st) plain ?n True") auto
  have "length ?n = BLOCK_SIZE" using assms(2) nonce_at_simps(4) [of "cs_encrypt_iv st" 1] by simp
  then have a using ocb_decrypt_encrypt(1) [OF assms(1) _ e] by simp
  then show ?thesis using e by (simp add: crypt_encrypt_def packet_def)
qed

lemma decrypt_packet:
  assumes "cipher_ok (cs_cipher st)" and n: "length n = BLOCK_SIZE"
    and rc: "recover_iv (cs_decrypt_iv st) (n ! 0) = Some rc" "rc_iv rc = n"
    and fresh: "rc_in_order rc \<or> cs_history st ! unat (n ! 0) \<noteq> n ! 1"
    and "unsuspicious (cs_cipher st) n plain"
  shows "crypt_decrypt (packet (cs_cipher st) n plain) st = (Some (hardened True plain),
     st\<lparr>cs_decrypt_iv := if rc_restore rc then cs_decrypt_iv st else n, cs_history := (cs_history st)[unat (n ! 0) := n ! 1],
        cs_good := cs_good st + 1, cs_late := apply_stat (rc_late rc) (cs_late st), cs_lost := apply_stat (rc_lost rc) (cs_lost st)\<rparr>)"
proof -
  obtain a ct tag where e: "ocb_encrypt (cs_cipher st) plain n True = (a, ct, tag)" by (cases "ocb_encrypt (cs_cipher st) plain n True") auto
  note d = ocb_decrypt_encrypt(3) [OF assms(1) n e]
  have "length tag = BLOCK_SIZE"
  proof -
    have "ocb_ok (sealed (cs_cipher st) True plain (ocb_start (cs_cipher st) n))"
      using open_sealed [OF assms(1) ocb_ok_start [OF assms(1) n] ocb_ok_start [OF assms(1) n] refl refl refl] by blast
    then show ?thesis
      using e assms(1) by (auto simp: ocb_encrypt_def encrypt_blocks_sealed Let_def ocb_ok_def last_part_drop last_part_short cipher_length BLOCK_SIZE_def)
  qed
  then have p: "packet (cs_cipher st) n plain = n ! 0 # take 3 tag @ ct" "length (take 3 tag) = 3"
    using e by (simp_all add: packet_def BLOCK_SIZE_def)
  have hd: "take 4 (packet (cs_cipher st) n plain) = n ! 0 # take 3 tag" "drop 4 (packet (cs_cipher st) n plain) = ct"
    "\<not> length (packet (cs_cipher st) n plain) < 4"
    using p by (simp_all add: numeral_eq_Suc)
  show ?thesis
    unfolding crypt_decrypt_def hd
    using hd(3) rc fresh d assms(6) by (simp add: unsuspicious_def Let_def)
qed

lemma decrypt_replayed:
  assumes "recover_iv (cs_decrypt_iv st) (p ! 0) = Some rc" and "\<not> rc_in_order rc"
    and "cs_history st ! unat (rc_iv rc ! 0) = rc_iv rc ! 1"
  shows "crypt_decrypt p st = (None, st)"
  using assms by (cases p) (auto simp: crypt_decrypt_def Let_def)

lemma decrypt_lost: "recover_iv (cs_decrypt_iv st) (p ! 0) = None \<Longrightarrow> crypt_decrypt p st = (None, st)"
  by (cases p) (auto simp: crypt_decrypt_def Let_def)

subsection \<open>A stream of packets\<close>

fun send_all :: "u8 list list \<Rightarrow> crypt_state \<Rightarrow> u8 list option list \<times> crypt_state" where
  "send_all [] st = ([], st)"
| "send_all (m # ms) st = (let (p, st) = crypt_encrypt m st; (ps, st) = send_all ms st in (p # ps, st))"

fun receive_all :: "u8 list list \<Rightarrow> crypt_state \<Rightarrow> u8 list option list \<times> crypt_state" where
  "receive_all [] st = ([], st)"
| "receive_all (p # ps) st = (let (m, st) = crypt_decrypt p st; (ms, st) = receive_all ps st in (m # ms, st))"

definition packets :: "cipher \<Rightarrow> block \<Rightarrow> u8 list list \<Rightarrow> u8 list list" where
  "packets ci iv ms = map (\<lambda>i. packet ci (nonce_at iv (Suc i)) (ms ! i)) [0..<length ms]"

lemma packets_Cons: "packets ci iv (m # ms) = packet ci (increment_iv iv) m # packets ci (increment_iv iv) ms"
proof -
  have "[0..<length (m # ms)] = 0 # map Suc [0..<length ms]" by (simp add: upt_conv_Cons map_Suc_upt del: upt_Suc)
  then show ?thesis unfolding packets_def by (simp del: upt_Suc add: o_def)
qed

lemma send_stream:
  assumes "cipher_ok (cs_cipher st)" and "length (cs_encrypt_iv st) = BLOCK_SIZE"
  shows "send_all ms st = (map Some (packets (cs_cipher st) (cs_encrypt_iv st) ms),
     st\<lparr>cs_encrypt_iv := nonce_at (cs_encrypt_iv st) (length ms)\<rparr>)"
  using assms
proof (induction ms arbitrary: st)
  case (Cons m ms)
  let ?st = "st\<lparr>cs_encrypt_iv := increment_iv (cs_encrypt_iv st)\<rparr>"
  have "length (increment_iv (cs_encrypt_iv st)) = BLOCK_SIZE" using Cons(3) nonce_at_simps(4) [of _ 1] by simp
  then show ?case using Cons.IH [of ?st] Cons.prems encrypt_packet [OF Cons.prems] by (simp add: packets_Cons)
qed (simp add: packets_def)

fun remembered :: "block \<Rightarrow> nat \<Rightarrow> u8 list \<Rightarrow> u8 list" where
  "remembered iv 0 h = h"
| "remembered iv (Suc k) h = (remembered iv k h)[unat (nonce_at iv (Suc k) ! 0) := nonce_at iv (Suc k) ! 1]"

lemma remembered_shift: "remembered (increment_iv iv) k (h[unat (increment_iv iv ! 0) := increment_iv iv ! 1]) = remembered iv (Suc k) h"
  by (induction k) simp_all

lemma length_remembered [simp]: "length (remembered iv k h) = length h"
  by (induction k) simp_all

lemma remembered_lookup:
  assumes "length iv = BLOCK_SIZE" and "length h = 256" and "0 < j" and "j \<le> k" and "k < j + 256"
  shows "remembered iv k h ! unat (nonce_at iv j ! 0) = nonce_at iv j ! 1"
  using assms(4,5)
proof (induction k)
  case (Suc k)
  show ?case
  proof (cases "j = Suc k")
    case False
    then have "unat (nonce_at iv j ! 0) \<noteq> unat (nonce_at iv (Suc k) ! 0)"
      using nonce_low_distinct [OF assms(1), of j "Suc k"] Suc.prems by (simp add: word_unat_eq_iff)
    then show ?thesis using Suc False by simp
  qed (use assms unat8 in simp)
qed (use assms in simp)

lemma apply_stat_0 [simp]: "apply_stat 0 c = c"
  by (simp add: apply_stat_def)

lemma receive_stream:
  assumes "cipher_ok (cs_cipher st)" and "length (cs_decrypt_iv st) = BLOCK_SIZE"
    and "\<And>i. i < length ms \<Longrightarrow> unsuspicious (cs_cipher st) (nonce_at (cs_decrypt_iv st) (Suc i)) (ms ! i)"
  shows "receive_all (packets (cs_cipher st) (cs_decrypt_iv st) ms) st = (map (\<lambda>m. Some (hardened True m)) ms,
     st\<lparr>cs_decrypt_iv := nonce_at (cs_decrypt_iv st) (length ms),
        cs_history := remembered (cs_decrypt_iv st) (length ms) (cs_history st),
        cs_good := cs_good st + of_nat (length ms)\<rparr>)"
  using assms
proof (induction ms arbitrary: st)
  case (Cons m ms)
  let ?n = "increment_iv (cs_decrypt_iv st)"
  let ?st = "st\<lparr>cs_decrypt_iv := ?n, cs_history := (cs_history st)[unat (?n ! 0) := ?n ! 1], cs_good := cs_good st + 1\<rparr>"
  have n: "length ?n = BLOCK_SIZE" using Cons(3) nonce_at_simps(4) [of _ 1] by simp
  have "int (counter ?n) = shifted (cs_decrypt_iv st) 1"
    using nonce_shifted [OF Cons(3), of 1 0] by simp
  then have "recover_iv (cs_decrypt_iv st) (?n ! 0) = Some \<lparr>rc_iv = ?n, rc_in_order = True, rc_restore = False, rc_late = 0, rc_lost = 0\<rparr>"
    using recover_finds [OF Cons(3) n, of 1] by simp
  moreover have "unsuspicious (cs_cipher st) ?n m" using Cons(4) [of 0] by simp
  ultimately have "crypt_decrypt (packet (cs_cipher st) ?n m) st = (Some (hardened True m), ?st)"
    using decrypt_packet [OF Cons(2) n] by simp
  moreover have "receive_all (packets (cs_cipher ?st) (cs_decrypt_iv ?st) ms) ?st = (map (\<lambda>m. Some (hardened True m)) ms,
     ?st\<lparr>cs_decrypt_iv := nonce_at (cs_decrypt_iv ?st) (length ms),
        cs_history := remembered (cs_decrypt_iv ?st) (length ms) (cs_history ?st),
        cs_good := cs_good ?st + of_nat (length ms)\<rparr>)"
    using Cons(2) n Cons(4) [of "Suc _"] by (intro Cons.IH) simp_all
  ultimately show ?case by (simp add: packets_Cons remembered_shift [unfolded One_nat_def] add.assoc)
qed (simp add: packets_def)

text \<open>None of the last thirty packets is accepted twice.\<close>

lemma stream_replay:
  assumes ok: "cipher_ok (cs_cipher st)" and iv: "length (cs_decrypt_iv st) = BLOCK_SIZE" and h: "length (cs_history st) = 256"
    and "\<And>i. i < length ms \<Longrightarrow> unsuspicious (cs_cipher st) (nonce_at (cs_decrypt_iv st) (Suc i)) (ms ! i)"
    and i: "i < length ms" "length ms \<le> i + 30"
  defines "st' \<equiv> snd (receive_all (packets (cs_cipher st) (cs_decrypt_iv st) ms) st)"
  shows "crypt_decrypt (packets (cs_cipher st) (cs_decrypt_iv st) ms ! i) st' = (None, st')"
proof -
  let ?iv = "cs_decrypt_iv st" and ?k = "length ms"
  let ?n = "nonce_at ?iv (Suc i)"
  have st': "cs_decrypt_iv st' = nonce_at ?iv ?k" "cs_history st' = remembered ?iv ?k (cs_history st)"
    using receive_stream [OF ok iv, of ms] assms(4) by (simp_all add: st'_def)
  have first: "packets (cs_cipher st) ?iv ms ! i ! 0 = ?n ! 0"
    using i by (simp add: packets_def packet_def split: prod.split)
  show ?thesis
  proof (cases "Suc i = ?k")
    case True
    then show ?thesis using recover_own [of "nonce_at ?iv ?k"] st' first by (intro decrypt_lost) simp
  next
    case False
    let ?d = "int (Suc i) - int ?k"
    have d: "-30 < ?d" "?d < 0" using i False by auto
    let ?rc = "\<lparr>rc_iv = ?n, rc_in_order = False, rc_restore = True, rc_late = 1, rc_lost = -1\<rparr>"
    have "length (nonce_at ?iv ?k) = BLOCK_SIZE" "length ?n = BLOCK_SIZE" using iv by (simp_all del: nonce_at_simps(2))
    from recover_finds [OF this nonce_shifted [OF iv]] d
    have "recover_iv (cs_decrypt_iv st') (packets (cs_cipher st) ?iv ms ! i ! 0) = Some ?rc" using st' first by simp
    moreover have "cs_history st' ! unat (rc_iv ?rc ! 0) = rc_iv ?rc ! 1"
      unfolding st' using i by (simp only: recovery.simps, intro remembered_lookup [OF iv h]) auto
    ultimately show ?thesis by (intro decrypt_replayed [of st' _ ?rc]) simp_all
  qed
qed

end
