(* ===== verification/Limits.thy ===== *)
theory Limits
  imports Prelude
begin

text \<open>
  The data-plane limits of \<open>runtime/crates/gateway/src/limits.rs\<close>: the token buckets in front of voice and
  text and the one-second bandwidth window. An \<open>Instant\<close> is a number of nanoseconds, the 32-bit counts
  are natural numbers with the saturation of the code written out.
\<close>

subsection \<open>Constants and sizes\<close>

definition MAX_UDP_PACKET_SIZE :: nat where "MAX_UDP_PACKET_SIZE = 1024"
definition MIN_UDP_PACKET_SIZE :: nat where "MIN_UDP_PACKET_SIZE = 2"
definition PACKETS_PER_SECOND :: nat where "PACKETS_PER_SECOND = 200"
definition BURST :: nat where "BURST = 400"
definition PACKET_OVERHEAD :: nat where "PACKET_OVERHEAD = 20 + 8 + 4"
definition BANDWIDTH_BUCKETS :: nat where "BANDWIDTH_BUCKETS = 10"
definition BUCKET :: nat where "BUCKET = 100 * 10 ^ 6"
definition WINDOW :: nat where "WINDOW = 1000 * 10 ^ 6"
definition MESSAGES_PER_SECOND :: nat where "MESSAGES_PER_SECOND = 1"
definition MESSAGE_BURST :: nat where "MESSAGE_BURST = 5"

definition U32_MAX :: nat where "U32_MAX = 2 ^ 32 - 1"
definition U64_MAX :: nat where "U64_MAX = 2 ^ 64 - 1"
definition U128_MAX :: nat where "U128_MAX = 2 ^ 128 - 1"

definition as_millis :: "nat \<Rightarrow> nat" where
  "as_millis ns = ns div 10 ^ 6"

definition sat_add32 :: "nat \<Rightarrow> nat \<Rightarrow> nat" where
  "sat_add32 a b = min (a + b) U32_MAX"

definition is_acceptable_size :: "nat \<Rightarrow> bool" where
  "is_acceptable_size len \<longleftrightarrow> MIN_UDP_PACKET_SIZE \<le> len \<and> len \<le> MAX_UDP_PACKET_SIZE"

subsection \<open>The voice budget\<close>

record voice_budget =
  vb_tokens :: nat
  vb_last_refill :: nat
  vb_billed :: "nat list"
  vb_bucket :: nat
  vb_bucket_started :: nat
  vb_last_active :: nat

definition voice_budget_new :: "nat \<Rightarrow> voice_budget" where
  "voice_budget_new now = \<lparr>vb_tokens = BURST, vb_last_refill = now, vb_billed = replicate BANDWIDTH_BUCKETS 0,
     vb_bucket = 0, vb_bucket_started = now, vb_last_active = now\<rparr>"

definition refill :: "nat \<Rightarrow> voice_budget \<Rightarrow> voice_budget" where
  "refill now vb =
     (let elapsed = now - vb_last_refill vb in
      if elapsed < 10 ^ 6 then vb
      else let earned = min (min (as_millis elapsed * PACKETS_PER_SECOND) U128_MAX div 1000) U32_MAX in
        if earned = 0 then vb
        else vb\<lparr>vb_tokens := min (sat_add32 (vb_tokens vb) earned) BURST, vb_last_refill := now\<rparr>)"

text \<open>The loop that clears the buckets passed, for steps \<open>1..=steps\<close>.\<close>

definition clear_passed :: "nat \<Rightarrow> nat \<Rightarrow> nat list \<Rightarrow> nat list" where
  "clear_passed bucket steps billed =
     fold (\<lambda>step billed. billed[(bucket + step) mod BANDWIDTH_BUCKETS := 0]) [1..<Suc steps] billed"

definition steps_to :: "nat \<Rightarrow> voice_budget \<Rightarrow> nat" where
  "steps_to now vb = min (as_millis (now - vb_bucket_started vb) div as_millis BUCKET) U64_MAX"

definition roll :: "nat \<Rightarrow> voice_budget \<Rightarrow> voice_budget" where
  "roll now vb =
     (let steps = steps_to now vb
      in if steps = 0 then vb
         else let vb = (if BANDWIDTH_BUCKETS \<le> steps
                        then vb\<lparr>vb_billed := replicate BANDWIDTH_BUCKETS 0, vb_bucket := 0\<rparr>
                        else vb\<lparr>vb_billed := clear_passed (vb_bucket vb) steps (vb_billed vb),
                                vb_bucket := (vb_bucket vb + steps) mod BANDWIDTH_BUCKETS\<rparr>);
                  vb = vb\<lparr>vb_bucket_started := vb_bucket_started vb + BUCKET * min steps U32_MAX\<rparr>
              in if WINDOW < now - vb_bucket_started vb then vb\<lparr>vb_bucket_started := now\<rparr> else vb)"

definition voice_allow :: "nat \<Rightarrow> nat \<Rightarrow> voice_budget \<Rightarrow> bool \<times> voice_budget" where
  "voice_allow now bytes vb =
     (let vb = refill now vb in
      if vb_tokens vb = 0 then (False, vb)
      else let vb = roll now (vb\<lparr>vb_tokens := vb_tokens vb - 1\<rparr>);
               billed = min (min (bytes + PACKET_OVERHEAD) U64_MAX) U32_MAX;
               vb = (if vb_bucket vb < length (vb_billed vb)
                     then vb\<lparr>vb_billed := (vb_billed vb)[vb_bucket vb := sat_add32 (vb_billed vb ! vb_bucket vb) billed]\<rparr>
                     else vb)
           in (True, vb\<lparr>vb_last_active := now\<rparr>))"

definition touch :: "nat \<Rightarrow> voice_budget \<Rightarrow> voice_budget" where
  "touch now vb = vb\<lparr>vb_last_active := now\<rparr>"

definition bandwidth :: "nat \<Rightarrow> voice_budget \<Rightarrow> nat \<times> voice_budget" where
  "bandwidth now vb = (let vb = roll now vb in (fold (\<lambda>b total. sat_add32 total b) (vb_billed vb) 0, vb))"

definition idle :: "nat \<Rightarrow> voice_budget \<Rightarrow> nat" where
  "idle now vb = now - vb_last_active vb"

subsection \<open>The text budget\<close>

record text_budget =
  tb_tokens :: nat
  tb_last_refill :: nat

definition text_budget_new :: "nat \<Rightarrow> text_budget" where
  "text_budget_new now = \<lparr>tb_tokens = MESSAGE_BURST, tb_last_refill = now\<rparr>"

definition text_refill :: "nat \<Rightarrow> text_budget \<Rightarrow> text_budget" where
  "text_refill now tb =
     (let elapsed = now - tb_last_refill tb;
          earned = min (as_millis elapsed * MESSAGES_PER_SECOND) U128_MAX div 1000
      in if earned \<le> U32_MAX \<and> 0 < earned
         then tb\<lparr>tb_tokens := min (sat_add32 (tb_tokens tb) earned) MESSAGE_BURST, tb_last_refill := now\<rparr>
         else tb)"

definition text_allow :: "nat \<Rightarrow> text_budget \<Rightarrow> bool \<times> text_budget" where
  "text_allow now tb =
     (let tb = text_refill now tb
      in if tb_tokens tb = 0 then (False, tb) else (True, tb\<lparr>tb_tokens := tb_tokens tb - 1\<rparr>))"

subsection \<open>A token bucket\<close>

text \<open>
  What both budgets are: a count that never exceeds the burst, spends one per admission, and earns at most
  \<open>rate\<close> in a second of a clock that never runs past the caller's.
\<close>

locale token_bucket =
  fixes tokens :: "'b \<Rightarrow> nat" and clock :: "'b \<Rightarrow> nat" and admit :: "nat \<Rightarrow> 'x \<Rightarrow> 'b \<Rightarrow> bool \<times> 'b"
    and rate :: nat and burst :: nat
  assumes spend: "clock b \<le> now \<Longrightarrow> admit now x b = (ok, b') \<Longrightarrow>
      (tokens b' + (if ok then 1 else 0)) * 10 ^ 9 + rate * clock b \<le> tokens b * 10 ^ 9 + rate * clock b'"
    and clock_now: "clock b \<le> now \<Longrightarrow> admit now x b = (ok, b') \<Longrightarrow> clock b \<le> clock b' \<and> clock b' \<le> now"
    and capped: "tokens b \<le> burst \<Longrightarrow> admit now x b = (ok, b') \<Longrightarrow> tokens b' \<le> burst"
    and refused_empty: "admit now x b = (False, b') \<Longrightarrow> tokens b' = 0"
begin

fun admitted :: "(nat \<times> 'x) list \<Rightarrow> 'b \<Rightarrow> nat" where
  "admitted [] b = 0"
| "admitted ((now, x) # calls) b = (case admit now x b of (ok, b') \<Rightarrow> (if ok then 1 else 0) + admitted calls b')"

fun in_time :: "nat \<Rightarrow> (nat \<times> 'x) list \<Rightarrow> bool" where
  "in_time t [] \<longleftrightarrow> True"
| "in_time t ((now, x) # calls) \<longleftrightarrow> t \<le> now \<and> in_time now calls"

lemma in_time_mono: "in_time t calls \<Longrightarrow> s \<le> t \<Longrightarrow> in_time s calls"
  by (cases calls) auto

lemma admitted_rate:
  assumes "in_time t calls" and "clock b \<le> t" and "\<forall>(now, x) \<in> set calls. now \<le> stop" and "t \<le> stop"
  shows "(admitted calls b) * 10 ^ 9 + rate * clock b \<le> tokens b * 10 ^ 9 + rate * stop"
  using assms
proof (induction calls arbitrary: t b)
  case (Cons call calls)
  obtain now x where call: "call = (now, x)" by fastforce
  obtain ok b' where a: "admit now x b = (ok, b')" by fastforce
  have b: "clock b \<le> now" using Cons.prems call by simp
  have c: "clock b' \<le> now" using clock_now [OF b a] by simp
  have "admitted calls b' * 10 ^ 9 + rate * clock b' \<le> tokens b' * 10 ^ 9 + rate * stop"
    using Cons.IH [OF _ c] Cons.prems call by auto
  then show ?case using spend [OF b a] call a by (simp add: algebra_simps split: if_splits)
next
  case Nil
  then have "rate * clock b \<le> rate * stop" by (intro mult_le_mono2) simp
  then show ?case unfolding admitted.simps by linarith
qed

text \<open>The sustained rate: beyond the burst, at most \<open>rate\<close> admissions in a second.\<close>

lemma admitted_bound:
  assumes "in_time (clock b) calls" and "\<forall>(now, x) \<in> set calls. now \<le> clock b + span" and "tokens b \<le> burst"
  shows "admitted calls b \<le> burst + rate * span div 10 ^ 9"
proof -
  have "admitted calls b * 10 ^ 9 + rate * clock b \<le> tokens b * 10 ^ 9 + rate * (clock b + span)"
    using admitted_rate [OF assms(1) order_refl assms(2)] by simp
  then have "admitted calls b * 10 ^ 9 \<le> burst * 10 ^ 9 + rate * span"
    using assms(3) by (simp add: algebra_simps)
  then have "admitted calls b \<le> (burst * 10 ^ 9 + rate * span) div 10 ^ 9" by (simp add: less_eq_div_iff_mult_less_eq)
  then show ?thesis by simp
qed

end

subsection \<open>Both budgets are token buckets\<close>

lemma roll_keeps [simp]: "vb_tokens (roll now vb) = vb_tokens vb" "vb_last_refill (roll now vb) = vb_last_refill vb"
  by (simp_all add: roll_def Let_def)

lemma sat_add32_le: "min (sat_add32 a b) c \<le> a + b"
  by (simp add: sat_add32_def min_le_iff_disj)

lemma earned_le: "as_millis e * r div 1000 * 10 ^ 9 \<le> r * e"
proof -
  have "as_millis e * r div 1000 * 1000 * 10 ^ 6 \<le> as_millis e * r * 10 ^ 6" by (intro mult_le_mono1) simp
  also have "as_millis e * r * 10 ^ 6 = r * (as_millis e * 10 ^ 6)" by (simp only: mult.assoc mult.commute mult.left_commute)
  also have "\<dots> \<le> r * e" by (intro mult_le_mono2) (simp add: as_millis_def)
  finally show ?thesis by simp
qed

lemma earn_arith:
  fixes x k r e a l now t :: nat
  assumes "x * k \<le> r * e" and "now = l + e" and "t \<le> a + x"
  shows "t * k + r * l \<le> a * k + r * now"
proof -
  have "t * k \<le> (a + x) * k" using assms(3) by (rule mult_le_mono1)
  then show ?thesis using assms(1,2) by (simp add: algebra_simps)
qed

lemma refill_cases:
  obtains (same) "refill now vb = vb"
  | (earned) t x where "refill now vb = vb\<lparr>vb_tokens := t, vb_last_refill := now\<rparr>" "t \<le> BURST" "t \<le> vb_tokens vb + x"
      "x * 10 ^ 9 \<le> PACKETS_PER_SECOND * (now - vb_last_refill vb)"
proof -
  let ?e = "now - vb_last_refill vb"
  let ?x = "min (min (as_millis ?e * PACKETS_PER_SECOND) U128_MAX div 1000) U32_MAX"
  let ?t = "min (sat_add32 (vb_tokens vb) ?x) BURST"
  have "?x \<le> as_millis ?e * PACKETS_PER_SECOND div 1000" by (simp add: div_le_mono min.coboundedI1)
  then have "?x * 10 ^ 9 \<le> as_millis ?e * PACKETS_PER_SECOND div 1000 * 10 ^ 9" by (rule mult_le_mono1)
  also have "\<dots> \<le> PACKETS_PER_SECOND * ?e" by (rule earned_le)
  finally have x: "?x * 10 ^ 9 \<le> PACKETS_PER_SECOND * ?e" .
  have "refill now vb = vb \<or> refill now vb = vb\<lparr>vb_tokens := ?t, vb_last_refill := now\<rparr>"
    unfolding refill_def Let_def by auto
  then show ?thesis using same earned [OF _ min.cobounded2 sat_add32_le x] by blast
qed

lemma voice_allow_cases:
  assumes "voice_allow now x vb = (ok, vb')"
  shows "vb_last_refill vb' = vb_last_refill (refill now vb)"
    and "vb_tokens vb' + (if ok then 1 else 0) = vb_tokens (refill now vb)" and "\<not> ok \<Longrightarrow> vb_tokens vb' = 0"
  using assms by (auto simp: voice_allow_def Let_def split: if_splits)

interpretation voice: token_bucket vb_tokens vb_last_refill voice_allow PACKETS_PER_SECOND BURST
proof
  fix vb vb' now x ok
  assume a: "voice_allow now x vb = (ok, vb')"
  note c = voice_allow_cases [OF a]
  show "(vb_tokens vb' + (if ok then 1 else 0)) * 10 ^ 9 + PACKETS_PER_SECOND * vb_last_refill vb
      \<le> vb_tokens vb * 10 ^ 9 + PACKETS_PER_SECOND * vb_last_refill vb'" if "vb_last_refill vb \<le> now"
    unfolding c(1,2)
  proof (cases rule: refill_cases [of now vb])
    case (earned t x)
    have "t * 10 ^ 9 + PACKETS_PER_SECOND * vb_last_refill vb \<le> vb_tokens vb * 10 ^ 9 + PACKETS_PER_SECOND * now"
      by (rule earn_arith [OF earned(4) _ earned(3)]) (use that in simp)
    then show "vb_tokens (refill now vb) * 10 ^ 9 + PACKETS_PER_SECOND * vb_last_refill vb
      \<le> vb_tokens vb * 10 ^ 9 + PACKETS_PER_SECOND * vb_last_refill (refill now vb)" unfolding earned(1) by simp
  qed simp
  show "vb_last_refill vb \<le> vb_last_refill vb' \<and> vb_last_refill vb' \<le> now" if "vb_last_refill vb \<le> now"
    unfolding c(1) using that by (cases rule: refill_cases [of now vb]) simp_all
  show "vb_tokens vb' \<le> BURST" if "vb_tokens vb \<le> BURST"
  proof -
    have "vb_tokens (refill now vb) \<le> BURST" using that by (cases rule: refill_cases [of now vb]) simp_all
    then show ?thesis using c(2) by simp
  qed
next
  fix vb vb' now x
  assume "voice_allow now x vb = (False, vb')"
  then show "vb_tokens vb' = 0" using voice_allow_cases(3) by blast
qed

definition text_admit :: "nat \<Rightarrow> unit \<Rightarrow> text_budget \<Rightarrow> bool \<times> text_budget" where
  "text_admit now _ tb = text_allow now tb"

lemma text_refill_cases:
  obtains (same) "text_refill now tb = tb"
  | (earned) t x where "text_refill now tb = tb\<lparr>tb_tokens := t, tb_last_refill := now\<rparr>" "t \<le> MESSAGE_BURST" "t \<le> tb_tokens tb + x"
      "x * 10 ^ 9 \<le> MESSAGES_PER_SECOND * (now - tb_last_refill tb)"
proof -
  let ?e = "now - tb_last_refill tb"
  let ?x = "min (as_millis ?e * MESSAGES_PER_SECOND) U128_MAX div 1000"
  let ?t = "min (sat_add32 (tb_tokens tb) ?x) MESSAGE_BURST"
  have "?x \<le> as_millis ?e * MESSAGES_PER_SECOND div 1000" by (simp add: div_le_mono)
  then have "?x * 10 ^ 9 \<le> as_millis ?e * MESSAGES_PER_SECOND div 1000 * 10 ^ 9" by (rule mult_le_mono1)
  also have "\<dots> \<le> MESSAGES_PER_SECOND * ?e" by (rule earned_le)
  finally have x: "?x * 10 ^ 9 \<le> MESSAGES_PER_SECOND * ?e" .
  have "text_refill now tb = tb \<or> text_refill now tb = tb\<lparr>tb_tokens := ?t, tb_last_refill := now\<rparr>"
    unfolding text_refill_def Let_def by auto
  then show ?thesis using same earned [OF _ min.cobounded2 sat_add32_le x] by blast
qed

lemma text_admit_cases:
  assumes "text_admit now x tb = (ok, tb')"
  shows "tb_last_refill tb' = tb_last_refill (text_refill now tb)"
    and "tb_tokens tb' + (if ok then 1 else 0) = tb_tokens (text_refill now tb)" and "\<not> ok \<Longrightarrow> tb_tokens tb' = 0"
  using assms by (auto simp: text_admit_def text_allow_def Let_def split: if_splits)

interpretation typed: token_bucket tb_tokens tb_last_refill text_admit MESSAGES_PER_SECOND MESSAGE_BURST
proof
  fix tb tb' now x ok
  assume a: "text_admit now x tb = (ok, tb')"
  note c = text_admit_cases [OF a]
  show "(tb_tokens tb' + (if ok then 1 else 0)) * 10 ^ 9 + MESSAGES_PER_SECOND * tb_last_refill tb
      \<le> tb_tokens tb * 10 ^ 9 + MESSAGES_PER_SECOND * tb_last_refill tb'" if "tb_last_refill tb \<le> now"
    unfolding c(1,2)
  proof (cases rule: text_refill_cases [of now tb])
    case (earned t x)
    have "t * 10 ^ 9 + MESSAGES_PER_SECOND * tb_last_refill tb \<le> tb_tokens tb * 10 ^ 9 + MESSAGES_PER_SECOND * now"
      by (rule earn_arith [OF earned(4) _ earned(3)]) (use that in simp)
    then show "tb_tokens (text_refill now tb) * 10 ^ 9 + MESSAGES_PER_SECOND * tb_last_refill tb
      \<le> tb_tokens tb * 10 ^ 9 + MESSAGES_PER_SECOND * tb_last_refill (text_refill now tb)" unfolding earned(1) by simp
  qed simp
  show "tb_last_refill tb \<le> tb_last_refill tb' \<and> tb_last_refill tb' \<le> now" if "tb_last_refill tb \<le> now"
    unfolding c(1) using that by (cases rule: text_refill_cases [of now tb]) simp_all
  show "tb_tokens tb' \<le> MESSAGE_BURST" if "tb_tokens tb \<le> MESSAGE_BURST"
  proof -
    have "tb_tokens (text_refill now tb) \<le> MESSAGE_BURST" using that by (cases rule: text_refill_cases [of now tb]) simp_all
    then show ?thesis using c(2) by simp
  qed
next
  fix tb tb' now x
  assume "text_admit now x tb = (False, tb')"
  then show "tb_tokens tb' = 0" using text_admit_cases(3) by blast
qed

subsection \<open>The ring of buckets is a shift register\<close>

text \<open>The buckets from the current one backwards in time.\<close>

definition recent :: "voice_budget \<Rightarrow> nat list" where
  "recent vb = map (\<lambda>j. vb_billed vb ! ((vb_bucket vb + BANDWIDTH_BUCKETS - j) mod BANDWIDTH_BUCKETS)) [0..<BANDWIDTH_BUCKETS]"

definition ring_ok :: "voice_budget \<Rightarrow> bool" where
  "ring_ok vb \<longleftrightarrow> length (vb_billed vb) = BANDWIDTH_BUCKETS \<and> vb_bucket vb < BANDWIDTH_BUCKETS \<and> (\<forall>b \<in> set (vb_billed vb). b \<le> U32_MAX)"

lemma length_recent [simp]: "length (recent vb) = BANDWIDTH_BUCKETS"
  by (simp add: recent_def)

lemma recent_nth:
  "j < BANDWIDTH_BUCKETS \<Longrightarrow> recent vb ! j = vb_billed vb ! ((vb_bucket vb + BANDWIDTH_BUCKETS - j) mod BANDWIDTH_BUCKETS)"
  by (simp add: recent_def)

lemma clear_passed_nth:
  assumes "length billed = BANDWIDTH_BUCKETS" and "i < BANDWIDTH_BUCKETS"
  shows "clear_passed bucket steps billed ! i = (if \<exists>step. 1 \<le> step \<and> step \<le> steps \<and> i = (bucket + step) mod BANDWIDTH_BUCKETS then 0 else billed ! i)"
    and "length (clear_passed bucket steps billed) = BANDWIDTH_BUCKETS"
proof (induction steps)
  case (Suc steps)
  have step: "clear_passed bucket (Suc steps) billed = (clear_passed bucket steps billed)[(bucket + Suc steps) mod BANDWIDTH_BUCKETS := 0]"
    by (simp add: clear_passed_def)
  have b: "(bucket + Suc steps) mod BANDWIDTH_BUCKETS < BANDWIDTH_BUCKETS" by (simp add: BANDWIDTH_BUCKETS_def)
  case 1
  show ?case
    unfolding step using Suc b by (auto simp: nth_list_update le_Suc_eq)
  case 2
  show ?case unfolding step using Suc by simp
qed (simp_all add: clear_passed_def assms)

lemma ring_index_new:
  fixes b s j :: nat
  assumes "j < s" and "s < 10"
  shows "\<exists>step. 1 \<le> step \<and> step \<le> s \<and> ((b + s) mod 10 + 10 - j) mod 10 = (b + step) mod 10"
proof (intro exI [of _ "s - j"] conjI)
  have "((b + s) mod 10 + 10 - j) mod 10 = ((b + s) mod 10 + (10 - j)) mod 10" using assms by simp
  also have "\<dots> = (b + s + (10 - j)) mod 10" by (simp add: mod_simps)
  also have "b + s + (10 - j) = b + (s - j) + 10" using assms by simp
  finally show "((b + s) mod 10 + 10 - j) mod 10 = (b + (s - j)) mod 10" by simp
qed (use assms in auto)

lemma ring_index_old:
  fixes b s j :: nat
  assumes "s \<le> j" and "j < 10"
  shows "((b + s) mod 10 + 10 - j) mod 10 = (b + 10 - (j - s)) mod 10"
    and "\<not> (\<exists>step. 1 \<le> step \<and> step \<le> s \<and> ((b + s) mod 10 + 10 - j) mod 10 = (b + step) mod 10)"
proof -
  have "((b + s) mod 10 + 10 - j) mod 10 = ((b + s) mod 10 + (10 - j)) mod 10" using assms by simp
  also have "\<dots> = (b + s + (10 - j)) mod 10" by (simp add: mod_simps)
  also have "b + s + (10 - j) = b + 10 - (j - s)" using assms by simp
  finally show *: "((b + s) mod 10 + 10 - j) mod 10 = (b + 10 - (j - s)) mod 10" .
  show "\<not> (\<exists>step. 1 \<le> step \<and> step \<le> s \<and> ((b + s) mod 10 + 10 - j) mod 10 = (b + step) mod 10)"
  proof
    assume "\<exists>step. 1 \<le> step \<and> step \<le> s \<and> ((b + s) mod 10 + 10 - j) mod 10 = (b + step) mod 10"
    then obtain step where st: "1 \<le> step" "step \<le> s" and "(b + 10 - (j - s)) mod 10 = (b + step) mod 10" unfolding * by blast
    then have "10 dvd b + 10 - (j - s) - (b + step)" using assms by (intro mod_eq_dvd_iff_nat [THEN iffD1]) auto
    then have "10 dvd 10 - (j - s) - step" using assms by (simp add: diff_diff_left)
    then show False using st assms by (auto dest!: dvd_imp_le)
  qed
qed

definition shift_in :: "nat \<Rightarrow> nat list \<Rightarrow> nat list" where
  "shift_in k xs = take (length xs) (replicate k 0 @ xs)"

lemma recent_stepped:
  assumes "ring_ok vb" and "steps < BANDWIDTH_BUCKETS"
    and "vb' = vb\<lparr>vb_billed := clear_passed (vb_bucket vb) steps (vb_billed vb), vb_bucket := (vb_bucket vb + steps) mod BANDWIDTH_BUCKETS\<rparr>"
  shows "recent vb' = shift_in steps (recent vb)" and "ring_ok vb'"
proof -
  have len: "length (vb_billed vb) = BANDWIDTH_BUCKETS" using assms(1) by (simp add: ring_ok_def)
  note clear = clear_passed_nth [OF len]
  show "recent vb' = shift_in steps (recent vb)"
  proof (rule nth_equalityI)
    fix j
    assume "j < length (recent vb')"
    then have j: "j < 10" by (simp add: BANDWIDTH_BUCKETS_def)
    let ?i = "((vb_bucket vb + steps) mod 10 + 10 - j) mod 10"
    have i: "?i < BANDWIDTH_BUCKETS" by (simp add: BANDWIDTH_BUCKETS_def)
    have c: "clear_passed (vb_bucket vb) steps (vb_billed vb) ! ?i =
        (if \<exists>step. 1 \<le> step \<and> step \<le> steps \<and> ?i = (vb_bucket vb + step) mod 10 then 0 else vb_billed vb ! ?i)"
      by (rule clear(1) [OF i, unfolded BANDWIDTH_BUCKETS_def])
    have "recent vb' ! j = clear_passed (vb_bucket vb) steps (vb_billed vb) ! ?i"
      using recent_nth [of j vb'] j assms(3) by (simp add: BANDWIDTH_BUCKETS_def)
    also have "\<dots> = shift_in steps (recent vb) ! j"
    proof (cases "j < steps")
      case True
      then have "\<exists>step. 1 \<le> step \<and> step \<le> steps \<and> ?i = (vb_bucket vb + step) mod 10"
        using assms(2) by (intro ring_index_new) (simp_all add: BANDWIDTH_BUCKETS_def)
      then have "clear_passed (vb_bucket vb) steps (vb_billed vb) ! ?i = 0" unfolding c by (simp only: if_True)
      then show ?thesis using True j by (simp add: shift_in_def nth_append BANDWIDTH_BUCKETS_def)
    next
      case False
      have "shift_in steps (recent vb) ! j = recent vb ! (j - steps)"
        using False j by (simp add: shift_in_def nth_append BANDWIDTH_BUCKETS_def)
      also have "\<dots> = vb_billed vb ! ((vb_bucket vb + 10 - (j - steps)) mod 10)"
        using recent_nth [of "j - steps" vb] j by (simp add: BANDWIDTH_BUCKETS_def)
      also have "\<dots> = vb_billed vb ! ?i" using ring_index_old(1) [of steps j "vb_bucket vb"] False j by simp
      also have "\<dots> = clear_passed (vb_bucket vb) steps (vb_billed vb) ! ?i"
        unfolding c using ring_index_old(2) [of steps j "vb_bucket vb"] False j by (simp only: if_False not_less)
      finally show ?thesis by (rule sym)
    qed
    finally show "recent vb' ! j = shift_in steps (recent vb) ! j" .
  qed (simp add: shift_in_def)
  have "\<forall>b \<in> set (clear_passed (vb_bucket vb) steps (vb_billed vb)). b \<le> U32_MAX"
  proof
    fix b
    assume "b \<in> set (clear_passed (vb_bucket vb) steps (vb_billed vb))"
    then obtain i where i: "i < BANDWIDTH_BUCKETS" "b = clear_passed (vb_bucket vb) steps (vb_billed vb) ! i"
      using clear(2) [of 0] by (auto simp: in_set_conv_nth BANDWIDTH_BUCKETS_def)
    have "vb_billed vb ! i \<le> U32_MAX" using i(1) len assms(1) by (simp add: ring_ok_def)
    then show "b \<le> U32_MAX" unfolding i(2) clear(1) [OF i(1)] by simp
  qed
  moreover have "length (clear_passed (vb_bucket vb) steps (vb_billed vb)) = BANDWIDTH_BUCKETS"
    by (rule clear(2) [of 0]) (simp add: BANDWIDTH_BUCKETS_def)
  ultimately show "ring_ok vb'" using assms(3) by (simp add: ring_ok_def) (simp add: BANDWIDTH_BUCKETS_def)
qed

lemma recent_zero: "vb_billed vb = replicate BANDWIDTH_BUCKETS 0 \<Longrightarrow> recent vb = replicate BANDWIDTH_BUCKETS 0"
  by (rule nth_equalityI) (simp_all add: recent_nth)

lemma recent_roll:
  assumes "ring_ok vb"
  shows "recent (roll now vb) = shift_in (steps_to now vb) (recent vb)" and "ring_ok (roll now vb)"
proof -
  let ?s = "steps_to now vb"
  let ?far = "vb\<lparr>vb_billed := replicate BANDWIDTH_BUCKETS 0, vb_bucket := 0\<rparr>"
  let ?near = "vb\<lparr>vb_billed := clear_passed (vb_bucket vb) ?s (vb_billed vb), vb_bucket := (vb_bucket vb + ?s) mod BANDWIDTH_BUCKETS\<rparr>"
  let ?vb = "if ?s = 0 then vb else if BANDWIDTH_BUCKETS \<le> ?s then ?far else ?near"
  have "vb_billed (roll now vb) = vb_billed ?vb" "vb_bucket (roll now vb) = vb_bucket ?vb"
    unfolding roll_def Let_def by simp_all
  then have same: "recent (roll now vb) = recent ?vb" "ring_ok (roll now vb) = ring_ok ?vb"
    unfolding recent_def ring_ok_def by metis+
  have far: "shift_in ?s (recent vb) = replicate BANDWIDTH_BUCKETS 0" if "BANDWIDTH_BUCKETS \<le> ?s"
    using that by (simp add: shift_in_def min_def)
  have zero: "recent ?far = replicate BANDWIDTH_BUCKETS 0" by (rule recent_zero) simp
  show "recent (roll now vb) = shift_in ?s (recent vb)"
    unfolding same(1) using far zero recent_stepped(1) [OF assms _ refl, of ?s] by (simp add: shift_in_def)
  show "ring_ok (roll now vb)"
    unfolding same(2) using assms recent_stepped(2) [OF assms _ refl, of ?s] by (simp add: ring_ok_def BANDWIDTH_BUCKETS_def)
qed

end
