(* ===== verification/Props_Wire.thy ===== *)
theory Props_Wire
  imports Framing Crypt_State Limits
begin

text \<open>
  Properties of what goes over the wire: control frames and their reassembly, voice envelopes, the voice
  cipher with its nonces and replay history, and the rate limits in front of both channels.
\<close>

subsection \<open>Control frames\<close>

text \<open>
  C9. A stream of control messages survives the wire: written as frames one after another and cut into any
  non-empty chunks, it is read back message by message and ends cleanly at the last frame boundary.
\<close>

theorem control_stream_round_trip:
  assumes "codec_ok encode decode" and "list_all2 (\<lambda>m framed. encode_frame encode m [] = Inr framed) ms frames"
    and "list_all (\<lambda>c. c \<noteq> []) chunks" and "concat chunks = concat frames"
  shows "read_messages (Suc (length ms)) decode [] chunks = (ms, Inr True)"
  using read_written [OF assms(1-3), of "[]"] assms(4) by simp

definition raw_encode :: "tcp_message_type \<Rightarrow> u8 list \<Rightarrow> u8 list" where
  "raw_encode _ m = m"

definition raw_decode :: "tcp_message_type \<Rightarrow> u8 list \<Rightarrow> (unit, u8 list) result" where
  "raw_decode _ bytes = Inr bytes"

lemma raw_codec: "codec_ok raw_encode raw_decode"
  by (simp add: codec_ok_def raw_encode_def raw_decode_def)

lemma raw_ping: "encode_frame raw_encode (CmPing [1, 2]) [] = Inr [0, 3, 0, 0, 0, 2, 1, 2]"
  "encode_frame raw_encode (CmUdpTunnel [9]) [] = Inr [0, 1, 0, 0, 0, 1, 9]"
  by (simp_all add: encode_frame_def encode_pb_def raw_encode_def write_frame_def u16_to_be_def u32_to_be_def MAX_PAYLOAD_LEN_def)

theorem control_stream_round_trip_witness:
  "read_messages 3 raw_decode [] [[0, 3, 0, 0], [0, 2, 1, 2, 0, 1, 0], [0, 0, 1, 9]] = ([CmPing [1, 2], CmUdpTunnel [9]], Inr True)"
  using control_stream_round_trip [OF raw_codec, of "[CmPing [1, 2], CmUdpTunnel [9]]" "[[0, 3, 0, 0, 0, 2, 1, 2], [0, 1, 0, 0, 0, 1, 9]]"
      "[[0, 3, 0, 0], [0, 2, 1, 2, 0, 1, 0], [0, 0, 1, 9]]"] raw_ping
  by (simp add: eval_nat_numeral)

text \<open>
  A frame is parsed the same however much of the stream is buffered behind it, a proper part of one is never
  taken for a frame or refused, and writing respects the size limit.
\<close>

lemma frame_boundaries:
  "(write_frame t payload [] = Inr framed \<longrightarrow>
      parse_frame (framed @ suf) = Inr (Some \<lparr>fr_type = t, fr_payload = payload\<rparr>) \<and>
      length framed = 6 + length payload \<and> (\<forall>k < length framed. parse_frame (take k framed) = Inr None)) \<and>
   (write_frame t payload [] \<noteq> Inl e \<or> unat MAX_PAYLOAD_LEN < length payload)"
proof
  show "write_frame t payload [] = Inr framed \<longrightarrow>
      parse_frame (framed @ suf) = Inr (Some \<lparr>fr_type = t, fr_payload = payload\<rparr>) \<and>
      length framed = 6 + length payload \<and> (\<forall>k < length framed. parse_frame (take k framed) = Inr None)"
    using parse_frame_written [of t payload framed] by (auto simp: total_len_def HEADER_LEN_def)
  show "write_frame t payload [] \<noteq> Inl e \<or> unat MAX_PAYLOAD_LEN < length payload"
  proof (cases "length payload < 2 ^ 32")
    case True
    then have "unat (of_nat (length payload) :: u32) = length payload" by (simp add: unsigned_of_nat take_bit_eq_mod)
    then show ?thesis using True by (auto simp: write_frame_def Let_def word_less_nat_alt split: if_splits)
  next
    case False
    then show ?thesis by (simp add: MAX_PAYLOAD_LEN_def)
  qed
qed

text \<open>
  Hostile control input fails closed: a declared length above the limit and an unknown type code are errors
  that name what was received, and nothing else of a header is.
\<close>

lemma hostile_frames_refused:
  "(parse_frame buf = Inl e \<longleftrightarrow> 6 \<le> length buf \<and>
      (let declared = u32_from_be (buf ! 2) (buf ! 3) (buf ! 4) (buf ! 5)
       in MAX_PAYLOAD_LEN < declared \<and> e = PayloadTooLarge declared MAX_PAYLOAD_LEN)) \<and>
   (type_try_from v = Inl f \<longleftrightarrow> 26 < v \<and> f = UnknownMessageType v)"
proof
  show "parse_frame buf = Inl e \<longleftrightarrow> 6 \<le> length buf \<and>
      (let declared = u32_from_be (buf ! 2) (buf ! 3) (buf ! 4) (buf ! 5)
       in MAX_PAYLOAD_LEN < declared \<and> e = PayloadTooLarge declared MAX_PAYLOAD_LEN)"
    by (auto simp: parse_frame_def HEADER_LEN_def Let_def)
  have "v \<le> 26 \<longleftrightarrow> (\<exists>t. type_try_from v = Inr t)"
  proof
    assume "\<exists>t. type_try_from v = Inr t"
    then obtain t where "type_code t = v" using type_known by blast
    then show "v \<le> 26" by (cases t) auto
  next
    assume "v \<le> 26"
    then have "unat v \<le> 26" by (simp add: word_le_nat_alt)
    then have "unat v \<in> set [0..<27]" by simp
    also have "set [0..<27] = {0,1,2,3,4,5,6,7,8,9,10,11,12,13,14,15,16,17,18,19,20,21,22,23,24,25,26 :: nat}" by code_simp
    finally have "unat v \<in> {0,1,2,3,4,5,6,7,8,9,10,11,12,13,14,15,16,17,18,19,20,21,22,23,24,25,26}" .
    then have "v \<in> {0,1,2,3,4,5,6,7,8,9,10,11,12,13,14,15,16,17,18,19,20,21,22,23,24,25,26}"
      by (auto simp: word_unat_eq_iff)
    then show "\<exists>t. type_try_from v = Inr t" by (auto simp: type_try_from_def)
  qed
  then show "type_try_from v = Inl f \<longleftrightarrow> 26 < v \<and> f = UnknownMessageType v"
    using type_unknown [of v] by (cases "type_try_from v") (auto simp: not_le)
qed

text \<open>
  C38. A voice packet with a payload decodes to the message that was encoded; but a message whose protobuf
  encoding is empty, as that of an all-default one is, does not come back: it is refused as too short.
\<close>

theorem udp_round_trip:
  assumes "\<And>a. audio_of (audio a) = Inr a" and "\<And>p. ping_of (ping p) = Inr p"
  shows "decode_udp audio_of ping_of (encode_udp audio ping m) =
    (if (case m of UdpAudio a \<Rightarrow> audio a | UdpPing p \<Rightarrow> ping p) = [] then Inl (UdpTooShort 1) else Inr m)"
  using assms decode_encode_udp [of audio_of audio ping_of ping m] by (cases m) (auto simp: decode_udp_def)

theorem udp_round_trip_witness:
  "decode_udp (Inr :: u8 list \<Rightarrow> (unit, u8 list) result) Inr (encode_udp (\<lambda>a. a) (\<lambda>p. p) (UdpAudio [4, 5])) = Inr (UdpAudio [4, 5]) \<and>
   decode_udp (Inr :: u8 list \<Rightarrow> (unit, u8 list) result) Inr (encode_udp (\<lambda>a. a) (\<lambda>p. p) (UdpPing [])) = Inl (UdpTooShort 1)"
  using udp_round_trip [of "Inr :: u8 list \<Rightarrow> (unit, u8 list) result" "\<lambda>a. a" Inr "\<lambda>p. p" "UdpAudio [4, 5]"]
    udp_round_trip [of "Inr :: u8 list \<Rightarrow> (unit, u8 list) result" "\<lambda>a. a" Inr "\<lambda>p. p" "UdpPing []"] by simp

subsection \<open>The voice cipher\<close>

text \<open>
  C10. Decryption undoes encryption: for every message and nonce the ciphertext has the length of the message,
  both sides compute the same tag, and the receiver reads the message, but for the one bit that the
  counter-measure flips in a critical block.
\<close>

theorem ocb_round_trip:
  assumes "cipher_ok ci" and "length nonce = BLOCK_SIZE" and "ocb_encrypt ci plain nonce True = (authentic, encrypted, tag)"
  shows "authentic \<and> length encrypted = length plain \<and>
    (\<exists>accepted. ocb_decrypt ci encrypted nonce = (accepted, hardened True plain, tag)) \<and>
    (\<not> has_critical plain \<longrightarrow> hardened True plain = plain)"
  using ocb_decrypt_encrypt [OF assms] hardened_plain [of True plain] by auto

definition rot_cipher :: cipher where
  "rot_cipher = \<lparr>ci_encrypt = rotate1, ci_decrypt = (\<lambda>b. last b # butlast b)\<rparr>"

lemma rot_cipher_ok: "cipher_ok rot_cipher"
proof -
  have "last (rotate1 b) # butlast (rotate1 b) = b" if "length b = BLOCK_SIZE" for b :: block
    using that by (cases b) (simp_all add: BLOCK_SIZE_def)
  then show ?thesis by (simp add: cipher_ok_def rot_cipher_def)
qed

theorem ocb_round_trip_witness:
  "\<exists>encrypted tag accepted. ocb_encrypt rot_cipher [1, 2, 3] (replicate 16 5) True = (True, encrypted, tag) \<and>
     ocb_decrypt rot_cipher encrypted (replicate 16 5) = (accepted, [1, 2, 3], tag)"
proof -
  obtain a encrypted tag where e: "ocb_encrypt rot_cipher [1, 2, 3] (replicate 16 5) True = (a, encrypted, tag)"
    by (cases "ocb_encrypt rot_cipher [1, 2, 3] (replicate 16 5) True") auto
  have "\<not> has_critical [1, 2, 3]" by (simp add: has_critical.simps BLOCK_SIZE_def)
  then show ?thesis using ocb_round_trip [OF rot_cipher_ok _ e] e by (auto simp: BLOCK_SIZE_def)
qed

text \<open>
  C12. A receiver recovers the sender's nonce from its lowest byte alone: for every packet at most 29 behind or
  127 ahead of its own counter, around any carry of the sixteen-byte counter, it finds exactly the
  sender's nonce and knows whether the packet is in order, late, or after a gap of a known length.
\<close>

theorem nonce_recovered:
  assumes "length iv = BLOCK_SIZE" and "length n = BLOCK_SIZE" and "int (counter n) = (int (counter iv) + d) mod 2 ^ 128"
    and "-30 < d" and "d < 128" and "d \<noteq> 0"
  shows "recover_iv iv (n ! 0) = Some \<lparr>rc_iv = n, rc_in_order = (d = 1), rc_restore = (d < 0),
     rc_late = (if d < 0 then 1 else 0), rc_lost = (if d < 0 then -1 else d - 1)\<rparr>"
  using assms(3) by (intro recover_finds assms) (simp add: shifted_def)

lemma counter_zero: "counter (replicate k 0) = 0"
  by (induction k) simp_all

lemma counter_full: "counter (replicate k 255) = 256 ^ k - 1"
proof (induction k)
  case (Suc k)
  have "(1 :: nat) \<le> 256 ^ k" by simp
  then have "(256 :: nat) \<le> 256 * 256 ^ k" by linarith
  then show ?case using Suc by (simp add: diff_mult_distrib2)
qed simp

theorem nonce_recovered_witness:
  "recover_iv (254 # replicate 15 255) 3 = Some \<lparr>rc_iv = 3 # replicate 15 0, rc_in_order = False, rc_restore = False, rc_late = 0, rc_lost = 4\<rparr>"
proof -
  have "int (counter (254 # replicate 15 (255 :: u8))) = 2 ^ 128 - 2" "counter (3 # replicate 15 0) = 3"
    unfolding counter.simps counter_full counter_zero by simp_all
  then have "int (counter (3 # replicate 15 0)) = (int (counter (254 # replicate 15 (255 :: u8))) + 5) mod 2 ^ 128" by simp
  then show ?thesis using nonce_recovered [of "254 # replicate 15 255" "3 # replicate 15 0" 5]
    by (simp only: length_Cons length_replicate BLOCK_SIZE_def nth_Cons_0) simp
qed

text \<open>
  The nonce of a sender is a 128-bit counter: after any number of packets it has advanced by that number,
  modulo the wrap-around, and keeps its length.
\<close>

lemma nonce_counts:
  assumes "cipher_ok (cs_cipher st)" and "length (cs_encrypt_iv st) = BLOCK_SIZE"
  shows "counter (cs_encrypt_iv (snd (send_all ms st))) = (counter (cs_encrypt_iv st) + length ms) mod 2 ^ 128 \<and>
    length (cs_encrypt_iv (snd (send_all ms st))) = BLOCK_SIZE"
  using counter_nonce [OF assms(2)] assms(2) by (simp add: send_stream [OF assms])

lemma nonce_counts_example:
  "counter (cs_encrypt_iv (snd (send_all [[1], [2]] (crypt_new rot_cipher (replicate 16 0) (replicate 16 0))))) = 2"
proof -
  show ?thesis
    using counter_zero [of 16] nonce_counts [of "crypt_new rot_cipher (replicate 16 0) (replicate 16 0)" "[[1], [2]]"] rot_cipher_ok
    by (simp add: crypt_new_def BLOCK_SIZE_def)
qed

text \<open>
  C11. A synchronised receiver reads a whole stream of packets: every message arrives as sent, the two nonces
  stay equal, the good count advances by the length of the stream and nothing counts as late or lost.
\<close>

theorem voice_stream_round_trip:
  assumes "cipher_ok (cs_cipher s)" and "cs_cipher r = cs_cipher s" and "length (cs_encrypt_iv s) = BLOCK_SIZE"
    and "cs_decrypt_iv r = cs_encrypt_iv s"
    and "\<And>i. i < length ms \<Longrightarrow> unsuspicious (cs_cipher s) (nonce_at (cs_encrypt_iv s) (Suc i)) (ms ! i)"
    and "send_all ms s = (map Some ps, s')" and "receive_all ps r = (got, r')"
  shows "got = map (\<lambda>m. Some (hardened True m)) ms \<and> cs_decrypt_iv r' = cs_encrypt_iv s' \<and>
    cs_good r' = cs_good r + of_nat (length ms) \<and> cs_late r' = cs_late r \<and> cs_lost r' = cs_lost r"
proof -
  have ps: "ps = packets (cs_cipher s) (cs_encrypt_iv s) ms" "cs_encrypt_iv s' = nonce_at (cs_encrypt_iv s) (length ms)"
    using assms(6) send_stream [OF assms(1,3), of ms] by (auto simp: inj_map_eq_map)
  show ?thesis using receive_stream [of r ms] assms ps by auto
qed

lemma sample_nonce: "nonce_at (replicate 16 0) (Suc 0) = 1 # replicate 15 0"
proof -
  have "replicate 16 (0 :: u8) = 0 # replicate 15 0" using replicate_Suc [of 15 "0 :: u8"] by simp
  then show ?thesis by (simp add: increment_iv_def increment_iv_from_def)
qed

lemma sample_unsuspicious: "unsuspicious rot_cipher (1 # replicate 15 0) [9]"
  by code_simp

theorem voice_stream_round_trip_witness:
  "fst (receive_all (map the (fst (send_all [[9]] (crypt_new rot_cipher (replicate 16 0) (replicate 16 0)))))
     (crypt_new rot_cipher (replicate 16 0) (replicate 16 0))) = [Some [9]]"
proof -
  let ?st = "crypt_new rot_cipher (replicate 16 0) (replicate 16 0)"
  have ok: "cipher_ok (cs_cipher ?st)" "length (cs_encrypt_iv ?st) = BLOCK_SIZE" "cs_decrypt_iv ?st = cs_encrypt_iv ?st"
    "cs_cipher ?st = rot_cipher" "cs_encrypt_iv ?st = replicate 16 0"
    using rot_cipher_ok by (simp_all add: crypt_new_def BLOCK_SIZE_def)
  obtain s' where s: "send_all [[9]] ?st = (map Some (packets rot_cipher (replicate 16 0) [[9]]), s')"
    using send_stream [OF ok(1,2), of "[[9]]"] ok(4,5) by simp
  obtain got r' where r: "receive_all (packets rot_cipher (replicate 16 0) [[9]]) ?st = (got, r')" by fastforce
  have u: "unsuspicious (cs_cipher ?st) (nonce_at (cs_encrypt_iv ?st) (Suc i)) ([[9]] ! i)" if "i < length [[9 :: u8]]" for i
    using that sample_unsuspicious sample_nonce ok(4,5) by simp
  have "hardened True [9] = [9]" by (simp add: hardened.simps BLOCK_SIZE_def)
  then show ?thesis
    using voice_stream_round_trip [OF ok(1) refl ok(2,3) u s r] s r by (simp add: o_def)
qed

text \<open>
  C13. Replays are refused: after a stream of packets, none of the last thirty is accepted a second time, and a
  refused replay leaves the receiver's state as it was.
\<close>

theorem replay_refused:
  assumes "cipher_ok (cs_cipher st)" and "length (cs_decrypt_iv st) = BLOCK_SIZE" and "length (cs_history st) = 256"
    and "\<And>i. i < length ms \<Longrightarrow> unsuspicious (cs_cipher st) (nonce_at (cs_decrypt_iv st) (Suc i)) (ms ! i)"
    and "i < length ms" and "length ms \<le> i + 30"
    and "receive_all (packets (cs_cipher st) (cs_decrypt_iv st) ms) st = (got, st')"
  shows "crypt_decrypt (packets (cs_cipher st) (cs_decrypt_iv st) ms ! i) st' = (None, st')"
  using stream_replay [OF assms(1-6)] assms(7) by simp

theorem replay_refused_witness:
  "\<exists>st'. crypt_decrypt (packet rot_cipher (1 # replicate 15 0) [9]) st' = (None, st') \<and>
     cs_good st' = 1 \<and> cs_decrypt_iv st' = 1 # replicate 15 0"
proof -
  let ?st = "crypt_new rot_cipher (replicate 16 0) (replicate 16 0)"
  have ok: "cipher_ok (cs_cipher ?st)" "length (cs_decrypt_iv ?st) = BLOCK_SIZE" "length (cs_history ?st) = 256"
    "cs_cipher ?st = rot_cipher" "cs_decrypt_iv ?st = replicate 16 0" "cs_good ?st = 0"
    using rot_cipher_ok by (simp_all add: crypt_new_def BLOCK_SIZE_def)
  obtain got st' where r: "receive_all (packets (cs_cipher ?st) (cs_decrypt_iv ?st) [[9]]) ?st = (got, st')" by fastforce
  have u: "unsuspicious (cs_cipher ?st) (nonce_at (cs_decrypt_iv ?st) (Suc i)) ([[9]] ! i)" if "i < length [[9 :: u8]]" for i
    using that sample_unsuspicious sample_nonce ok(4,5) by simp
  have st': "cs_good st' = 1" "cs_decrypt_iv st' = 1 # replicate 15 0"
    using receive_stream [OF ok(1,2) u] r sample_nonce ok(5,6) by auto
  have p: "packets (cs_cipher ?st) (cs_decrypt_iv ?st) [[9]] ! 0 = packet rot_cipher (1 # replicate 15 0) [9]"
    using sample_nonce ok(4,5) by (simp add: packets_def)
  show ?thesis
    using replay_refused [OF ok(1-3) u _ _ r, of 0] st' unfolding p by auto
qed


subsection \<open>Rate limits\<close>

text \<open>
  C37. The voice budget holds: whatever packets arrive and whenever, a connection is admitted at most the burst
  plus 200 packets for every second since its budget was created.
\<close>

theorem voice_rate_bounded:
  assumes "voice.in_time start calls" and "\<forall>(now, bytes) \<in> set calls. now \<le> start + span"
  shows "voice.admitted calls (voice_budget_new start) \<le> 400 + 200 * span div 10 ^ 9"
  using voice.admitted_bound [of "voice_budget_new start" calls span] assms
  by (simp add: voice_budget_new_def BURST_def PACKETS_PER_SECOND_def)

theorem voice_rate_bounded_witness:
  "voice.admitted [(0, 10), (5 * 10 ^ 6, 20)] (voice_budget_new 0) \<le> 400 + 200 * (5 * 10 ^ 6) div 10 ^ 9"
  using voice_rate_bounded [of 0 "[(0, 10), (5 * 10 ^ 6, 20)]" "5 * 10 ^ 6"] by simp

text \<open>The text budget holds: at most five messages, plus one for every second since it was created.\<close>

lemma text_rate_bounded:
  assumes "typed.in_time start calls" and "\<forall>(now, u) \<in> set calls. now \<le> start + span"
  shows "typed.admitted calls (text_budget_new start) \<le> 5 + span div 10 ^ 9"
  using typed.admitted_bound [of "text_budget_new start" calls span] assms
  by (simp add: text_budget_new_def MESSAGE_BURST_def MESSAGES_PER_SECOND_def)

text \<open>
  The bandwidth ring is a shift register of ten buckets: advancing the clock shifts in one empty bucket per
  tenth of a second passed and drops the oldest, wherever the ring's index stands.
\<close>

lemma bandwidth_ring_refines:
  assumes "ring_ok vb"
  shows "recent (roll now vb) = take 10 (replicate (steps_to now vb) 0 @ recent vb) \<and> ring_ok (roll now vb)"
  using recent_roll [OF assms] by (simp add: shift_in_def BANDWIDTH_BUCKETS_def)

lemma new_ring: "ring_ok (voice_budget_new t)"
  by (simp add: ring_ok_def voice_budget_new_def BANDWIDTH_BUCKETS_def)


end
