(* ===== verification/Build.thy ===== *)
theory Build
  imports Routing
begin

text \<open>
  The render builder, \<open>runtime/crates/shard/src/build.rs\<close>: the operations a flavor renders with,
  on the builder as a state record, the private builder of one connection, and the checks that
  close a render. A refusal is recorded, the first one wins, and \<open>finish\<close> returns it.
\<close>

definition MAX_ACTIONS :: nat where "MAX_ACTIONS = 64"

datatype narrow = Same | Into u32

datatype channel_ref = ChannelRef (cr_id: channel_id) (cr_scope: scope)

datatype user_ref = UserRef (ur_session: session_id)

text \<open>What the refused element was, for the message of \<open>ScopeTooDeep\<close>.\<close>

datatype build_context = CtxChannel string | CtxUser string

datatype build_error =
    MissingRoot
  | DuplicateRoot
  | DuplicateChannelKey channel_key
  | DuplicateOccupant occupant
  | ScopeTooDeep build_context
  | BuildExhausted exhausted
  | LinkAcrossScopes channel_id channel_id
  | SharedAndPrivateUser session_id connection_id
  | SharedAndPrivateChannel channel_id connection_id
  | OverlayChannelMissing connection_id channel_id
  | OverlayChannelInvisible connection_id channel_id
  | TooManyActions connection_id
  | ReceiverCannotSeeSender connection_id connection_id

type_synonym overlays = "(connection_id, overlay) fmap"
type_synonym observations = "(connection_id, scope_set) fmap"

record rendered =
  rd_view :: shard_view
  rd_overlays :: overlays
  rd_actions :: "(connection_id, actions) fmap"
  rd_audio :: audio_relation

record builder =
  bd_ids :: id_allocator
  bd_shard :: shard_id
  bd_connections :: "connection_id list"
  bd_view :: shard_view
  bd_overlays :: overlays
  bd_actions :: "(connection_id, actions) fmap"
  bd_audio :: audio_relation
  bd_keys_seen :: "channel_key fset"
  bd_occupants_seen :: "occupant fset"
  bd_rooted :: bool
  bd_error :: "build_error option"

definition builder_new :: "id_allocator \<Rightarrow> shard_id \<Rightarrow> connection_id list \<Rightarrow> builder" where
  "builder_new ids shard connections = \<lparr>bd_ids = ids, bd_shard = shard, bd_connections = connections,
     bd_view = empty_view, bd_overlays = fmempty, bd_actions = fmempty, bd_audio = relation_default,
     bd_keys_seen = {||}, bd_occupants_seen = {||}, bd_rooted = False, bd_error = None\<rparr>"

definition get_or_insert :: "'a \<Rightarrow> 'a option \<Rightarrow> 'a option" where
  "get_or_insert x slot = (case slot of Some y \<Rightarrow> Some y | None \<Rightarrow> Some x)"

definition fail :: "build_error \<Rightarrow> builder \<Rightarrow> builder" where
  "fail e bd = bd\<lparr>bd_error := get_or_insert e (bd_error bd)\<rparr>"

definition narrowed :: "scope \<Rightarrow> narrow \<Rightarrow> build_context \<Rightarrow> builder \<Rightarrow> scope option \<times> builder" where
  "narrowed parent n context bd =
     (case n of
        Same \<Rightarrow> (Some parent, bd)
      | Into segment \<Rightarrow>
          (case child parent segment of
             Some scope \<Rightarrow> (Some scope, bd)
           | None \<Rightarrow> (None, fail (ScopeTooDeep context) bd)))"

definition new_channel :: "channel_key \<Rightarrow> channel_id \<Rightarrow> channel_id \<Rightarrow> scope \<Rightarrow> string \<Rightarrow> channel" where
  "new_channel key i parent scope name = \<lparr>ch_key = key, ch_id = i, ch_parent = parent, ch_scope = scope,
     ch_name = name, ch_position = 0, ch_can_enter = True, ch_can_text = True, ch_links = {||}\<rparr>"

definition new_user :: "occupant \<Rightarrow> session_id \<Rightarrow> channel_id \<Rightarrow> scope \<Rightarrow> string \<Rightarrow> user" where
  "new_user who session channel scope name = \<lparr>us_occupant = who, us_session = session, us_channel = channel,
     us_scope = scope, us_name = name, us_flags = default_flags\<rparr>"

abbreviation put_channel :: "channel \<Rightarrow> builder \<Rightarrow> builder" where
  "put_channel c bd \<equiv> bd\<lparr>bd_view := (bd_view bd)\<lparr>sv_channels := fmupd (ch_id c) c (sv_channels (bd_view bd))\<rparr>\<rparr>"

abbreviation put_user :: "user \<Rightarrow> builder \<Rightarrow> builder" where
  "put_user u bd \<equiv> bd\<lparr>bd_view := (bd_view bd)\<lparr>sv_users := fmupd (us_session u) u (sv_users (bd_view bd))\<rparr>\<rparr>"

abbreviation edit_channel :: "channel_id \<Rightarrow> (channel \<Rightarrow> channel) \<Rightarrow> builder \<Rightarrow> builder" where
  "edit_channel i f bd \<equiv> bd\<lparr>bd_view := (bd_view bd)\<lparr>sv_channels := fm_adjust i f (sv_channels (bd_view bd))\<rparr>\<rparr>"

subsection \<open>The shared operations\<close>

definition build_root :: "string \<Rightarrow> builder \<Rightarrow> channel_ref \<times> builder" where
  "build_root name bd =
     (if bd_rooted bd then (ChannelRef ROOT_ID ROOT_SCOPE, fail DuplicateRoot bd)
      else (ChannelRef ROOT_ID ROOT_SCOPE,
            put_channel (new_channel ROOT_KEY ROOT_ID ROOT_ID ROOT_SCOPE name) (bd\<lparr>bd_rooted := True\<rparr>)))"

definition build_channel :: "channel_ref \<Rightarrow> channel_key \<Rightarrow> string \<Rightarrow> narrow \<Rightarrow> builder \<Rightarrow> channel_ref \<times> builder" where
  "build_channel parent key name n bd =
     (case narrowed (cr_scope parent) n (CtxChannel name) bd of
        (None, bd) \<Rightarrow> (parent, bd)
      | (Some scope, bd) \<Rightarrow>
          if key |\<in>| bd_keys_seen bd then (parent, fail (DuplicateChannelKey key) bd)
          else let bd = bd\<lparr>bd_keys_seen := finsert key (bd_keys_seen bd)\<rparr> in
            (case alloc_channel (bd_shard bd) key (bd_ids bd) of
               (Inl exhausted, ids) \<Rightarrow> (parent, fail (BuildExhausted exhausted) (bd\<lparr>bd_ids := ids\<rparr>))
             | (Inr i, ids) \<Rightarrow>
                 (ChannelRef i scope,
                  put_channel (new_channel key i (cr_id parent) scope name) (bd\<lparr>bd_ids := ids\<rparr>))))"

definition build_user :: "channel_ref \<Rightarrow> occupant \<Rightarrow> string \<Rightarrow> narrow \<Rightarrow> builder \<Rightarrow> user_ref \<times> builder" where
  "build_user channel who name n bd =
     (case narrowed (cr_scope channel) n (CtxUser name) bd of (scope, bd) \<Rightarrow>
        let scope = (case scope of Some s \<Rightarrow> s | None \<Rightarrow> cr_scope channel);
            (session, bd) =
              (case alloc_session who (bd_ids bd) of
                 (Inr session, ids) \<Rightarrow> (session, bd\<lparr>bd_ids := ids\<rparr>)
               | (Inl exhausted, ids) \<Rightarrow> (0, fail (BuildExhausted exhausted) (bd\<lparr>bd_ids := ids\<rparr>)))
        in if who |\<in>| bd_occupants_seen bd then (UserRef session, fail (DuplicateOccupant who) bd)
           else (UserRef session,
                 put_user (new_user who session (cr_id channel) scope name)
                   (bd\<lparr>bd_occupants_seen := finsert who (bd_occupants_seen bd)\<rparr>)))"

definition channel_position :: "channel_ref \<Rightarrow> i32 \<Rightarrow> builder \<Rightarrow> builder" where
  "channel_position channel position bd = edit_channel (cr_id channel) (\<lambda>c. c\<lparr>ch_position := position\<rparr>) bd"

definition channel_can_enter :: "channel_ref \<Rightarrow> bool \<Rightarrow> builder \<Rightarrow> builder" where
  "channel_can_enter channel yes bd = edit_channel (cr_id channel) (\<lambda>c. c\<lparr>ch_can_enter := yes\<rparr>) bd"

definition channel_can_text :: "channel_ref \<Rightarrow> bool \<Rightarrow> builder \<Rightarrow> builder" where
  "channel_can_text channel yes bd = edit_channel (cr_id channel) (\<lambda>c. c\<lparr>ch_can_text := yes\<rparr>) bd"

definition channel_link :: "channel_ref \<Rightarrow> channel_ref \<Rightarrow> builder \<Rightarrow> builder" where
  "channel_link a b bd =
     (if \<not> comparable (cr_scope a) (cr_scope b) then fail (LinkAcrossScopes (cr_id a) (cr_id b)) bd
      else let bd = edit_channel (cr_id a) (\<lambda>c. c\<lparr>ch_links := finsert (cr_id b) (ch_links c)\<rparr>) bd
           in edit_channel (cr_id b) (\<lambda>c. c\<lparr>ch_links := finsert (cr_id a) (ch_links c)\<rparr>) bd)"

definition build_user_flags :: "user_ref \<Rightarrow> user_flags \<Rightarrow> builder \<Rightarrow> builder" where
  "build_user_flags user flags bd = bd\<lparr>bd_view := (bd_view bd)\<lparr>sv_users :=
     fm_adjust (ur_session user) (\<lambda>u. u\<lparr>us_flags := flags\<rparr>) (sv_users (bd_view bd))\<rparr>\<rparr>"

definition build_audio_domain :: "domain_id \<Rightarrow> connection_id list \<Rightarrow> builder \<Rightarrow> builder" where
  "build_audio_domain d members bd = bd\<lparr>bd_audio := audio_domain d members (bd_audio bd)\<rparr>"

definition build_audio_listen :: "connection_id \<Rightarrow> domain_id \<Rightarrow> builder \<Rightarrow> builder" where
  "build_audio_listen listener d bd = bd\<lparr>bd_audio := audio_listen listener d (bd_audio bd)\<rparr>"

definition build_audio_edge :: "connection_id \<Rightarrow> connection_id \<Rightarrow> builder \<Rightarrow> builder" where
  "build_audio_edge sender receiver bd = bd\<lparr>bd_audio := audio_edge sender receiver (bd_audio bd)\<rparr>"

subsection \<open>The private builder\<close>

record private_builder =
  pb_ids :: id_allocator
  pb_shard :: shard_id
  pb_connection :: connection_id
  pb_overlay :: overlay
  pb_actions :: actions
  pb_error :: "build_error option"

definition private_fail :: "build_error \<Rightarrow> private_builder \<Rightarrow> private_builder" where
  "private_fail e pb = pb\<lparr>pb_error := get_or_insert e (pb_error pb)\<rparr>"

definition user_in :: "channel_ref \<Rightarrow> occupant \<Rightarrow> string \<Rightarrow> private_builder \<Rightarrow> user_ref \<times> private_builder" where
  "user_in channel who name pb =
     (let (session, pb) =
        (case alloc_session who (pb_ids pb) of
           (Inr session, ids) \<Rightarrow> (session, pb\<lparr>pb_ids := ids\<rparr>)
         | (Inl exhausted, ids) \<Rightarrow> (0, private_fail (BuildExhausted exhausted) (pb\<lparr>pb_ids := ids\<rparr>)))
      in (UserRef session,
          pb\<lparr>pb_overlay := (pb_overlay pb)\<lparr>ov_users :=
            fmupd session (new_user who session (cr_id channel) (cr_scope channel) name) (ov_users (pb_overlay pb))\<rparr>\<rparr>))"

definition private_channel :: "channel_ref \<Rightarrow> channel_key \<Rightarrow> string \<Rightarrow> private_builder \<Rightarrow> channel_ref \<times> private_builder" where
  "private_channel parent key name pb =
     (case alloc_channel (pb_shard pb) key (pb_ids pb) of
        (Inl exhausted, ids) \<Rightarrow> (parent, private_fail (BuildExhausted exhausted) (pb\<lparr>pb_ids := ids\<rparr>))
      | (Inr i, ids) \<Rightarrow>
          (ChannelRef i (cr_scope parent),
           pb\<lparr>pb_ids := ids, pb_overlay := (pb_overlay pb)\<lparr>ov_channels :=
             fmupd i (new_channel key i (cr_id parent) (cr_scope parent) name) (ov_channels (pb_overlay pb))\<rparr>\<rparr>))"

definition private_user_flags :: "user_ref \<Rightarrow> user_flags \<Rightarrow> private_builder \<Rightarrow> private_builder" where
  "private_user_flags user flags pb = pb\<lparr>pb_overlay := (pb_overlay pb)\<lparr>ov_users :=
     fm_adjust (ur_session user) (\<lambda>u. u\<lparr>us_flags := flags\<rparr>) (ov_users (pb_overlay pb))\<rparr>\<rparr>"

definition private_action :: "action_key \<Rightarrow> string \<Rightarrow> on_places \<Rightarrow> private_builder \<Rightarrow> private_builder" where
  "private_action key text on pb =
     (if MAX_ACTIONS \<le> fcard (fmdom (pb_actions pb)) \<and> \<not> fm_has (pb_actions pb) key
      then private_fail (TooManyActions (pb_connection pb)) pb
      else pb\<lparr>pb_actions := fmupd key \<lparr>ac_key = key, ac_text = text, ac_on = on\<rparr> (pb_actions pb)\<rparr>)"

text \<open>\<open>private\<close> hands the closure the connection's overlay and actions, made empty on first use.\<close>

definition private_open :: "connection_id \<Rightarrow> builder \<Rightarrow> private_builder" where
  "private_open connection bd = \<lparr>pb_ids = bd_ids bd, pb_shard = bd_shard bd, pb_connection = connection,
     pb_overlay = fm_get_or empty_overlay (bd_overlays bd) connection,
     pb_actions = fm_get_or fmempty (bd_actions bd) connection, pb_error = bd_error bd\<rparr>"

definition build_private :: "connection_id \<Rightarrow> (private_builder \<Rightarrow> private_builder) \<Rightarrow> builder \<Rightarrow> builder" where
  "build_private connection build bd =
     (let pb = build (private_open connection bd)
      in bd\<lparr>bd_ids := pb_ids pb,
            bd_overlays := fmupd connection (pb_overlay pb) (bd_overlays bd),
            bd_actions := fmupd connection (pb_actions pb) (bd_actions bd),
            bd_error := pb_error pb\<rparr>)"

subsection \<open>The closing checks\<close>

definition check_shared_xor_private :: "shard_view \<Rightarrow> overlays \<Rightarrow> (build_error, unit) result" where
  "check_shared_xor_private view overlays = for_all_ok (\<lambda>(connection, overlay).
     case find (\<lambda>session. fm_has (sv_users view) session) (fkeys (ov_users overlay)) of
       Some session \<Rightarrow> Inl (SharedAndPrivateUser session connection)
     | None \<Rightarrow>
         (case find (\<lambda>channel. fm_has (sv_channels view) channel) (fkeys (ov_channels overlay)) of
            Some channel \<Rightarrow> Inl (SharedAndPrivateChannel channel connection)
          | None \<Rightarrow> Inr ())) (items overlays)"

definition observed :: "observations \<Rightarrow> connection_id \<Rightarrow> scope_set" where
  "observed observations connection = fm_get_or NONE_SET observations connection"

text \<open>One reference of an overlay: to a channel of the overlay, or to a shared one in sight.\<close>

definition check_reference ::
    "shard_view \<Rightarrow> overlay \<Rightarrow> scope_set \<Rightarrow> connection_id \<Rightarrow> channel_id \<Rightarrow> (build_error, unit) result" where
  "check_reference view overlay see connection i =
     (if fm_has (ov_channels overlay) i then Inr ()
      else case fmlookup (sv_channels view) i of
             None \<Rightarrow> Inl (OverlayChannelMissing connection i)
           | Some channel \<Rightarrow>
               if \<not> sees see (ch_scope channel) then Inl (OverlayChannelInvisible connection i) else Inr ())"

definition check_overlay_references ::
    "shard_view \<Rightarrow> overlays \<Rightarrow> observations \<Rightarrow> (build_error, unit) result" where
  "check_overlay_references view overlays observations = for_all_ok (\<lambda>(connection, overlay).
     let see = observed observations connection in
     case for_all_ok (\<lambda>user. check_reference view overlay see connection (us_channel user)) (fvals (ov_users overlay)) of
       Inl e \<Rightarrow> Inl e
     | Inr _ \<Rightarrow> for_all_ok (\<lambda>channel. check_reference view overlay see connection (ch_parent channel))
                  (fvals (ov_channels overlay))) (items overlays)"

type_synonym shared_scopes = "(connection_id, scope) fmap"
type_synonym private_sight = "(connection_id, connection_id fset) fmap"

definition collect_map :: "('k \<times> 'v) list \<Rightarrow> ('k, 'v) fmap" where
  "collect_map kvs = fold (\<lambda>(k, v) m. fmupd k v m) kvs fmempty"

definition shared_scopes_of :: "shard_view \<Rightarrow> shared_scopes" where
  "shared_scopes_of view = collect_map (filter_map (\<lambda>user.
     map_option (\<lambda>c. (c, us_scope user)) (occupant_connection (us_occupant user))) (fvals (sv_users view)))"

definition privately_of :: "overlays \<Rightarrow> private_sight" where
  "privately_of overlays = collect_map (map (\<lambda>(connection, overlay).
     (connection, fset_of_list (filter_map (\<lambda>user. occupant_connection (us_occupant user)) (fvals (ov_users overlay)))))
     (items overlays))"

definition sees_privately :: "private_sight \<Rightarrow> connection_id \<Rightarrow> connection_id \<Rightarrow> bool" where
  "sees_privately privately receiver sender =
     (case fmlookup privately receiver of None \<Rightarrow> False | Some visible \<Rightarrow> sender |\<in>| visible)"

definition representative :: "connection_id fset \<Rightarrow> shared_scopes \<Rightarrow> scope \<Rightarrow> connection_id \<Rightarrow> connection_id" where
  "representative members shared_scope scope receiver =
     (case find (\<lambda>sender. sender \<noteq> receiver \<and> fmlookup shared_scope sender = Some scope) (sorted_list_of_fset members) of
        Some sender \<Rightarrow> sender | None \<Rightarrow> receiver)"

definition per_scope_of :: "shared_scopes \<Rightarrow> connection_id list \<Rightarrow> (scope, nat) fmap" where
  "per_scope_of shared_scope members = fold (\<lambda>sender m.
     case fmlookup shared_scope sender of
       Some scope \<Rightarrow> fmupd scope (fm_get_or 0 m scope + 1) m
     | None \<Rightarrow> m) members fmempty"

definition hidden_of :: "shared_scopes \<Rightarrow> connection_id list \<Rightarrow> connection_id list" where
  "hidden_of shared_scope members = filter (\<lambda>sender. fmlookup shared_scope sender = None) members"

definition check_receiver ::
    "connection_id fset \<Rightarrow> shared_scopes \<Rightarrow> private_sight \<Rightarrow> observations \<Rightarrow> connection_id \<Rightarrow> (build_error, unit) result" where
  "check_receiver members shared_scope privately observations receiver =
     (let per_scope = per_scope_of shared_scope (sorted_list_of_fset members);
          hidden = hidden_of shared_scope (sorted_list_of_fset members);
          see = observed observations receiver;
          own = fmlookup shared_scope receiver
      in case for_all_ok (\<lambda>(scope, count).
                let others = (if own = Some scope then count - 1 else count) in
                if others > 0 \<and> \<not> sees see scope
                then Inl (ReceiverCannotSeeSender (representative members shared_scope scope receiver) receiver)
                else Inr ()) (items per_scope) of
           Inl e \<Rightarrow> Inl e
         | Inr _ \<Rightarrow> for_all_ok (\<lambda>sender.
                if sender \<noteq> receiver \<and> \<not> sees_privately privately receiver sender
                then Inl (ReceiverCannotSeeSender sender receiver) else Inr ()) hidden)"

definition check_group ::
    "connection_id list \<Rightarrow> connection_id fset \<Rightarrow> shared_scopes \<Rightarrow> private_sight \<Rightarrow> observations \<Rightarrow> (build_error, unit) result" where
  "check_group hearers members shared_scope privately observations =
     for_all_ok (check_receiver members shared_scope privately observations) hearers"

definition can_see :: "connection_id \<Rightarrow> connection_id \<Rightarrow> shared_scopes \<Rightarrow> private_sight \<Rightarrow> observations \<Rightarrow> bool" where
  "can_see receiver sender shared_scope privately observations =
     (if sees_privately privately receiver sender then True
      else case fmlookup shared_scope sender of
             None \<Rightarrow> False
           | Some scope \<Rightarrow> sees (observed observations receiver) scope)"

definition check_receivers_see_senders ::
    "shard_view \<Rightarrow> overlays \<Rightarrow> audio_relation \<Rightarrow> observations \<Rightarrow> (build_error, unit) result" where
  "check_receivers_see_senders view overlays audio observations =
     (let shared_scope = shared_scopes_of view; privately = privately_of overlays in
      case for_all_ok (\<lambda>members. check_group (sorted_list_of_fset members) members shared_scope privately observations)
             (fvals (ar_domains audio)) of
        Inl e \<Rightarrow> Inl e
      | Inr _ \<Rightarrow>
          (case for_all_ok (\<lambda>(listener, members). check_group [listener] members shared_scope privately observations)
                  (listeners_of audio) of
             Inl e \<Rightarrow> Inl e
           | Inr _ \<Rightarrow> for_all_ok (\<lambda>(sender, receiver).
                 if \<not> can_see receiver sender shared_scope privately observations
                 then Inl (ReceiverCannotSeeSender sender receiver) else Inr ()) (explicit_edges audio)))"

definition finish :: "observations \<Rightarrow> builder \<Rightarrow> (build_error, rendered) result" where
  "finish observations bd =
     (case bd_error bd of
        Some error \<Rightarrow> Inl error
      | None \<Rightarrow>
          if \<not> bd_rooted bd then Inl MissingRoot
          else (case check_shared_xor_private (bd_view bd) (bd_overlays bd) of
                  Inl e \<Rightarrow> Inl e
                | Inr _ \<Rightarrow>
                    (case check_overlay_references (bd_view bd) (bd_overlays bd) observations of
                       Inl e \<Rightarrow> Inl e
                     | Inr _ \<Rightarrow>
                         (case check_receivers_see_senders (bd_view bd) (bd_overlays bd) (bd_audio bd) observations of
                            Inl e \<Rightarrow> Inl e
                          | Inr _ \<Rightarrow> Inr \<lparr>rd_view = bd_view bd, rd_overlays = bd_overlays bd,
                              rd_actions = bd_actions bd, rd_audio = bd_audio bd\<rparr>))))"

end
