(* ===== verification/Shard.thy ===== *)
theory Shard
  imports Build Compose Journal Queue Emit
begin

text \<open>
  The shard, \<open>runtime/crates/shard/src/shard.rs\<close>: one render, one journal, the attached
  connections with their committed state, the commands of the mailbox and the reconcile turn.
  The flavor is a parameter, a record of its three callbacks over a state of its own. What
  leaves the shard (a view handed over, an effect for the runtime, a connection that is let go)
  is appended to \<open>sh_out\<close>; the queue shared with a connection's writer is held in the
  connection's record. Operator logging is left out.
\<close>

subsection \<open>Events, commands and state\<close>

datatype action_target = OnServer | OnChannel channel_key | OnUser occupant

datatype voice_event =
    Connected connection_id
  | Disconnected connection_id string
  | Migrated connection_id shard_id
  | RequestedChannel connection_id channel_key
  | RequestedSelfState connection_id "bool option" "bool option"
  | InvokedAction connection_id action_key action_target
  | Said connection_id audience string

record 'l logic =
  lg_render :: "'l \<Rightarrow> builder \<Rightarrow> 'l \<times> builder"
  lg_observation :: "'l \<Rightarrow> connection_id \<Rightarrow> 'l \<times> scope_set"
  lg_observe :: "'l \<Rightarrow> voice_event \<Rightarrow> reply \<Rightarrow> 'l \<times> reply"

type_synonym out_queue = "control_message outbound_queue"

datatype shard_command =
    Attach connection_id out_queue u64 shard_view bool
  | Detach connection_id string "shard_id option"
  | Drained connection_id
  | Requested connection_id channel_id
  | AskedSelfState connection_id "bool option" "bool option"
  | QueriedPermissions connection_id channel_id
  | QueriedUserStats connection_id session_id
  | Invoked connection_id string "session_id option" "channel_id option"
  | Wrote connection_id text_target string

record attached =
  at_id :: connection_id
  at_session :: session_id
  at_cursor :: u64
  at_see :: scope_set
  at_overlay_sent :: overlay
  at_actions_sent :: actions
  at_held :: "shard_view option"
  at_ready :: bool
  at_ready_sent :: bool
  at_queue :: out_queue
  at_shared_cursor :: u64

datatype shard_output =
    Routed effect
  | HandedOver connection_id shard_view
  | Released attached
  | AttachRefused connection_id out_queue

record 'l shard =
  sh_id :: shard_id
  sh_logic :: 'l
  sh_ids :: id_allocator
  sh_view :: shard_view
  sh_journal :: journal
  sh_version :: u64
  sh_connections :: "(connection_id, attached) fmap"
  sh_since :: "(session_id, u64) fmap"
  sh_declared_audio :: audio_relation
  sh_declared_silence :: silence
  sh_session_of :: "(connection_id, session_id) fmap"
  sh_routing :: audio_routing
  sh_effects :: bool
  sh_out :: "shard_output list"

definition empty_routing :: audio_routing where
  "empty_routing = \<lparr>ro_receivers = fmempty, ro_since = fmempty, ro_silence = silence_default\<rparr>"

definition with_ids :: "shard_id \<Rightarrow> 'l \<Rightarrow> id_allocator \<Rightarrow> 'l shard" where
  "with_ids i logic ids = \<lparr>sh_id = i, sh_logic = logic, sh_ids = ids, sh_view = empty_view,
     sh_journal = journal_new, sh_version = 0, sh_connections = fmempty, sh_since = fmempty,
     sh_declared_audio = relation_default, sh_declared_silence = silence_default, sh_session_of = fmempty,
     sh_routing = empty_routing, sh_effects = False, sh_out = []\<rparr>"

definition shard_new :: "shard_id \<Rightarrow> 'l \<Rightarrow> 'l shard" where
  "shard_new i logic = with_ids i logic allocator_new"

definition route_effects :: "'l shard \<Rightarrow> 'l shard" where
  "route_effects sh = sh\<lparr>sh_effects := True\<rparr>"

definition attach_command :: "connection_id \<Rightarrow> out_queue \<Rightarrow> shard_command" where
  "attach_command connection queue = Attach connection queue 0 empty_view False"

definition detach_command :: "connection_id \<Rightarrow> string \<Rightarrow> shard_command" where
  "detach_command connection reason = Detach connection reason None"

subsection \<open>The committed state of a connection\<close>

definition commit :: "u64 \<Rightarrow> scope_set \<Rightarrow> overlay \<Rightarrow> actions \<Rightarrow> attached \<Rightarrow> attached" where
  "commit cursor see overlay acts at = at\<lparr>at_cursor := cursor, at_see := see, at_overlay_sent := overlay,
     at_actions_sent := acts, at_shared_cursor := cursor, at_held := None,
     at_ready := False, at_ready_sent := at_ready at \<or> at_ready_sent at\<rparr>"

definition composed :: "attached \<Rightarrow> shard_view \<Rightarrow> shard_view" where
  "composed at shared =
     (case at_held at of
        Some held \<Rightarrow> held
      | None \<Rightarrow> compose (restrict shared (at_see at)) (at_overlay_sent at))"

datatype outcome = Advanced | OutCongested | OutClose

definition retired_channels :: "plan_op list \<Rightarrow> channel_id fset" where
  "retired_channels ops = fset_of_list (filter_map (\<lambda>op. case op of RemoveChannel c \<Rightarrow> Some c | _ \<Rightarrow> None) ops)"

text \<open>The common tail of \<open>push\<close> and \<open>replan\<close>: hand the messages over and commit, or leave everything.\<close>

definition hand_over ::
    "plan_op list \<Rightarrow> u64 \<Rightarrow> scope_set \<Rightarrow> overlay \<Rightarrow> actions \<Rightarrow> attached \<Rightarrow> (outcome \<times> channel_id fset) \<times> attached" where
  "hand_over ops head see overlay acts at =
     (let messages = emit ops (at_session at) @ emit_actions (at_actions_sent at) acts in
      if messages = [] then ((Advanced, {||}), commit head see overlay acts at)
      else case try_send_all messages (at_queue at) of (res, queue) \<Rightarrow>
        let at = at\<lparr>at_queue := queue\<rparr> in
        (case res of
           Inr _ \<Rightarrow> ((Advanced, retired_channels ops), commit head see overlay acts at)
         | Inl (Congested _ _) \<Rightarrow> ((OutCongested, {||}), at)
         | Inl _ \<Rightarrow> ((OutClose, {||}), at)))"

definition push :: "journal \<Rightarrow> u64 \<Rightarrow> overlay \<Rightarrow> actions \<Rightarrow> attached \<Rightarrow> (outcome \<times> channel_id fset) \<times> attached" where
  "push journal head overlay acts at =
     (case replay (at_cursor at) head journal of
        Inl _ \<Rightarrow> ((OutClose, {||}), at)
      | Inr replayed \<Rightarrow>
          let shared = filter_ops replayed (at_see at);
              private = plan_elements (at_overlay_sent at) overlay;
              ops = collapse (splice_ops shared private)
          in hand_over ops head (at_see at) overlay acts at)"

definition replan ::
    "shard_view \<Rightarrow> shard_view \<Rightarrow> u64 \<Rightarrow> scope_set \<Rightarrow> overlay \<Rightarrow> actions \<Rightarrow> attached \<Rightarrow> (outcome \<times> channel_id fset) \<times> attached" where
  "replan before after head new_see overlay acts at =
     (let from = composed at before;
          to = compose (restrict after new_see) overlay;
          ops = collapse (map po_op (plan from to))
      in hand_over ops head new_see overlay acts at)"

subsection \<open>What a connection may name\<close>

definition or_else :: "'a option \<Rightarrow> 'a option \<Rightarrow> 'a option" where
  "or_else a b = (case a of Some x \<Rightarrow> Some x | None \<Rightarrow> b)"

definition opt_filter :: "('a \<Rightarrow> bool) \<Rightarrow> 'a option \<Rightarrow> 'a option" where
  "opt_filter P a = (case a of Some x \<Rightarrow> if P x then Some x else None | None \<Rightarrow> None)"

definition visible_channel :: "'l shard \<Rightarrow> attached \<Rightarrow> channel_id \<Rightarrow> channel option" where
  "visible_channel sh at i =
     or_else (or_else (opt_filter (\<lambda>c. sees (at_see at) (ch_scope c)) (fmlookup (sv_channels (sh_view sh)) i))
       (Option.bind (at_held at) (\<lambda>held. fmlookup (sv_channels held) i)))
       (fmlookup (ov_channels (at_overlay_sent at)) i)"

definition seen_user :: "'l shard \<Rightarrow> attached \<Rightarrow> session_id \<Rightarrow> user option" where
  "seen_user sh at s =
     or_else (or_else (opt_filter (\<lambda>u. sees (at_see at) (us_scope u)) (fmlookup (sv_users (sh_view sh)) s))
       (Option.bind (at_held at) (\<lambda>held. fmlookup (sv_users held) s)))
       (fmlookup (ov_users (at_overlay_sent at)) s)"

definition channel_of :: "'l shard \<Rightarrow> channel_key \<Rightarrow> channel_id option" where
  "channel_of sh key =
     or_else (map_option ch_id (find (\<lambda>c. ch_key c = key) (fvals (sv_channels (sh_view sh)))))
       (allocated_channel (sh_ids sh) (sh_id sh) key)"

definition resolve_audience :: "'l shard \<Rightarrow> audience \<Rightarrow> text_target option" where
  "resolve_audience sh aud =
     (case aud of
        AudUser who \<Rightarrow> map_option TTSession (allocated_session (sh_ids sh) who)
      | AudChannel key \<Rightarrow> map_option TTChannel (channel_of sh key)
      | AudTree key \<Rightarrow> map_option TTTree (channel_of sh key))"

text \<open>The walk to the root stops at the first channel that is its own parent or out of sight.\<close>

partial_function (option) descends_from :: "(channel_id \<Rightarrow> channel option) \<Rightarrow> channel_id \<Rightarrow> channel_id \<Rightarrow> bool option" where
  "descends_from visible root current =
     (if current = root then Some True
      else case visible current of
             None \<Rightarrow> Some False
           | Some rendered \<Rightarrow>
               if ch_parent rendered = current then Some False
               else descends_from visible root (ch_parent rendered))"

definition addressed :: "'l shard \<Rightarrow> attached \<Rightarrow> text_target \<Rightarrow> bool option" where
  "addressed sh at target =
     (case target of
        TTSession session \<Rightarrow> Some (session = at_session at)
      | TTChannel i \<Rightarrow> Some (case seen_user sh at (at_session at) of None \<Rightarrow> False | Some u \<Rightarrow> us_channel u = i)
      | TTTree root \<Rightarrow>
          (case seen_user sh at (at_session at) of
             None \<Rightarrow> Some False
           | Some u \<Rightarrow> descends_from (visible_channel sh at) root (us_channel u)))"

subsection \<open>Answers, words and relayed text\<close>

definition send_to :: "connection_id \<Rightarrow> control_message list \<Rightarrow> 'l shard \<Rightarrow> 'l shard" where
  "send_to connection messages sh = sh\<lparr>sh_connections :=
     fm_adjust connection (\<lambda>at. at\<lparr>at_queue := snd (try_send_all messages (at_queue at))\<rparr>) (sh_connections sh)\<rparr>"

definition answer :: "attached \<Rightarrow> control_message \<Rightarrow> 'l shard \<Rightarrow> 'l shard" where
  "answer at message sh = send_to (at_id at) [message] sh"

definition deliver_words :: "connection_id \<times> reply_word list \<Rightarrow> 'l shard \<Rightarrow> 'l shard" where
  "deliver_words e sh = (case e of (connection, words) \<Rightarrow>
     (case fmlookup (sh_connections sh) connection of
        None \<Rightarrow> sh
      | Some at \<Rightarrow> send_to connection (map (spoken (at_session at)) words) sh))"

definition deliver_one :: "spoken_text \<Rightarrow> session_id option \<Rightarrow> text_target \<Rightarrow> attached \<Rightarrow> 'l shard \<Rightarrow> 'l shard option" where
  "deliver_one sp speaker target at sh =
     (if Some (at_id at) = sp_from sp then Some sh
      else case addressed sh at target of
             None \<Rightarrow> None
           | Some False \<Rightarrow> Some sh
           | Some True \<Rightarrow>
               if (case speaker of Some session \<Rightarrow> seen_user sh at session = None | None \<Rightarrow> False) then Some sh
               else Some (send_to (at_id at) [relayed speaker target (sp_text sp)] sh))"

fun fold_option :: "('a \<Rightarrow> 's \<Rightarrow> 's option) \<Rightarrow> 'a list \<Rightarrow> 's \<Rightarrow> 's option" where
  "fold_option f [] s = Some s"
| "fold_option f (x # xs) s = (case f x s of None \<Rightarrow> None | Some s' \<Rightarrow> fold_option f xs s')"

definition deliver :: "spoken_text \<Rightarrow> 'l shard \<Rightarrow> 'l shard option" where
  "deliver sp sh =
     (let speaker = map_option at_session (Option.bind (sp_from sp) (\<lambda>c. fmlookup (sh_connections sh) c)) in
      if sp_from sp \<noteq> None \<and> speaker = None then Some sh
      else case resolve_audience sh (sp_to sp) of
             None \<Rightarrow> Some sh
           | Some target \<Rightarrow> fold_option (deliver_one sp speaker target) (fvals (sh_connections sh)) sh)"

definition route_effect :: "effect \<Rightarrow> 'l shard \<Rightarrow> 'l shard" where
  "route_effect e sh = (if sh_effects sh then sh\<lparr>sh_out := sh_out sh @ [Routed e]\<rparr> else sh)"

definition tell :: "'l logic \<Rightarrow> voice_event \<Rightarrow> 'l shard \<Rightarrow> 'l shard option" where
  "tell lg event sh =
     (let (l, rp) = lg_observe lg (sh_logic sh) event reply_default;
          (words, rp) = drain rp;
          sh = fold deliver_words (items words) (sh\<lparr>sh_logic := l\<rparr>);
          (texts, rp) = drain_spoken rp
      in case fold_option deliver texts sh of
           None \<Rightarrow> None
         | Some sh \<Rightarrow> let (effects, rp) = drain_effects rp in Some (fold route_effect effects sh))"

subsection \<open>Commands\<close>

definition attach :: "'l logic \<Rightarrow> connection_id \<Rightarrow> out_queue \<Rightarrow> u64 \<Rightarrow> shard_view \<Rightarrow> bool \<Rightarrow> 'l shard \<Rightarrow> 'l shard option" where
  "attach lg connection queue cursor held ready sh =
     (case alloc_session (Connection connection) (sh_ids sh) of
        (Inl _, ids) \<Rightarrow>
          Some (sh\<lparr>sh_ids := ids, sh_out := sh_out sh @ [AttachRefused connection (mark_fatal queue)]\<rparr>)
      | (Inr session, ids) \<Rightarrow>
          let at = \<lparr>at_id = connection, at_session = session, at_cursor = sh_version sh, at_see = NONE_SET,
                at_overlay_sent = empty_overlay, at_actions_sent = fmempty, at_held = Some held,
                at_ready = ready, at_ready_sent = False, at_queue = queue, at_shared_cursor = sh_version sh\<rparr>
          in tell lg (Connected connection)
               (sh\<lparr>sh_ids := ids, sh_connections := fmupd connection at (sh_connections sh)\<rparr>))"

definition teardown :: "shard_view \<Rightarrow> u64 \<Rightarrow> attached \<Rightarrow> attached" where
  "teardown held version at =
     (let ops = collapse (map po_op (plan held empty_view)) in
      if ops = [] then at
      else case try_send_all (emit ops (at_session at)) (at_queue at) of
             (Inr _, queue) \<Rightarrow> commit version NONE_SET empty_overlay fmempty (at\<lparr>at_queue := queue\<rparr>)
           | (Inl _, queue) \<Rightarrow> at\<lparr>at_queue := mark_fatal queue\<rparr>)"

definition detach :: "'l logic \<Rightarrow> connection_id \<Rightarrow> string \<Rightarrow> shard_id option \<Rightarrow> 'l shard \<Rightarrow> 'l shard option" where
  "detach lg connection reason handover sh =
     (case fmlookup (sh_connections sh) connection of
        None \<Rightarrow> Some sh
      | Some at \<Rightarrow>
          let sh = sh\<lparr>sh_connections := fmdrop connection (sh_connections sh)\<rparr>;
              held = composed at (sh_view sh)
          in (case handover of
                Some target \<Rightarrow>
                  let withdrawn = emit_actions (at_actions_sent at) fmempty;
                      at = (if withdrawn = [] then at
                            else at\<lparr>at_queue := snd (try_send_all withdrawn (at_queue at))\<rparr>)
                  in tell lg (Migrated connection target)
                       (sh\<lparr>sh_out := sh_out sh @ [Released at, HandedOver connection held]\<rparr>)
              | None \<Rightarrow>
                  tell lg (Disconnected connection reason)
                    (sh\<lparr>sh_out := sh_out sh @ [Released (teardown held (sh_version sh) at)]\<rparr>)))"

definition requested_channel :: "'l logic \<Rightarrow> connection_id \<Rightarrow> channel_id \<Rightarrow> 'l shard \<Rightarrow> 'l shard option" where
  "requested_channel lg connection i sh =
     (case fmlookup (sh_connections sh) connection of
        None \<Rightarrow> Some sh
      | Some at \<Rightarrow>
          (case map_option ch_key (visible_channel sh at i) of
             Some key \<Rightarrow> tell lg (RequestedChannel connection key) sh
           | None \<Rightarrow> Some sh))"

definition action_target_of ::
    "'l shard \<Rightarrow> attached \<Rightarrow> on_places \<Rightarrow> session_id option \<Rightarrow> channel_id option \<Rightarrow> action_target option" where
  "action_target_of sh at places session i =
     (case opt_filter (\<lambda>_. covers places ON_USER) session of
        Some s \<Rightarrow> map_option (\<lambda>u. OnUser (us_occupant u)) (seen_user sh at s)
      | None \<Rightarrow>
          (case opt_filter (\<lambda>_. covers places ON_CHANNEL) i of
             Some c \<Rightarrow> map_option (\<lambda>r. OnChannel (ch_key r)) (visible_channel sh at c)
           | None \<Rightarrow> if covers places ON_SERVER then Some OnServer else None))"

definition invoked ::
    "'l logic \<Rightarrow> connection_id \<Rightarrow> string \<Rightarrow> session_id option \<Rightarrow> channel_id option \<Rightarrow> 'l shard \<Rightarrow> 'l shard option" where
  "invoked lg connection act session i sh =
     (case fmlookup (sh_connections sh) connection of
        None \<Rightarrow> Some sh
      | Some at \<Rightarrow>
          (case action_key act of
             None \<Rightarrow> Some sh
           | Some key \<Rightarrow>
               (case fmlookup (at_actions_sent at) key of
                  None \<Rightarrow> Some sh
                | Some offered \<Rightarrow>
                    (case action_target_of sh at (ac_on offered) session i of
                       Some target \<Rightarrow> tell lg (InvokedAction connection key target) sh
                     | None \<Rightarrow> Some sh))))"

definition text_audience :: "'l shard \<Rightarrow> attached \<Rightarrow> text_target \<Rightarrow> (audience \<times> channel_id) option" where
  "text_audience sh at target =
     (case target of
        TTSession s \<Rightarrow> map_option (\<lambda>u. (AudUser (us_occupant u), us_channel u)) (seen_user sh at s)
      | TTChannel i \<Rightarrow> map_option (\<lambda>c. (AudChannel (ch_key c), i)) (visible_channel sh at i)
      | TTTree i \<Rightarrow> map_option (\<lambda>c. (AudTree (ch_key c), i)) (visible_channel sh at i))"

definition said :: "'l logic \<Rightarrow> connection_id \<Rightarrow> text_target \<Rightarrow> string \<Rightarrow> 'l shard \<Rightarrow> 'l shard option" where
  "said lg connection target message sh =
     (case fmlookup (sh_connections sh) connection of
        None \<Rightarrow> Some sh
      | Some at \<Rightarrow>
          (case text_audience sh at target of
             None \<Rightarrow> Some sh
           | Some (aud, writable_in) \<Rightarrow>
               if \<not> (case visible_channel sh at writable_in of None \<Rightarrow> False | Some c \<Rightarrow> ch_can_text c)
               then Some (answer at (denied_permission (at_session at) writable_in PERM_TEXT_MESSAGE) sh)
               else tell lg (Said connection aud message) sh))"

definition queried_permissions :: "connection_id \<Rightarrow> channel_id \<Rightarrow> 'l shard \<Rightarrow> 'l shard" where
  "queried_permissions connection i sh =
     (case fmlookup (sh_connections sh) connection of
        None \<Rightarrow> sh
      | Some at \<Rightarrow>
          (case visible_channel sh at i of
             Some c \<Rightarrow> answer at (permission_query c) sh
           | None \<Rightarrow> sh))"

definition queried_user_stats :: "connection_id \<Rightarrow> session_id \<Rightarrow> 'l shard \<Rightarrow> 'l shard" where
  "queried_user_stats connection target sh =
     (case fmlookup (sh_connections sh) connection of
        None \<Rightarrow> sh
      | Some at \<Rightarrow>
          (case seen_user sh at target of
             Some _ \<Rightarrow> answer at (user_stats target) sh
           | None \<Rightarrow> sh))"

definition requested_self_state ::
    "'l logic \<Rightarrow> connection_id \<Rightarrow> bool option \<Rightarrow> bool option \<Rightarrow> 'l shard \<Rightarrow> 'l shard option" where
  "requested_self_state lg connection mute deaf sh =
     (if \<not> fm_has (sh_connections sh) connection then Some sh
      else tell lg (RequestedSelfState connection mute deaf) sh)"

definition retry :: "connection_id \<Rightarrow> 'l shard \<Rightarrow> 'l shard" where
  "retry connection sh =
     (case fmlookup (sh_connections sh) connection of
        None \<Rightarrow> sh\<lparr>sh_ids := retire_channel_ids (sh_id sh) {||} (sh_ids sh)\<rparr>
      | Some at \<Rightarrow>
          if at_held at \<noteq> None then sh
          else (case push (sh_journal sh) (jn_head (sh_journal sh)) (at_overlay_sent at) (at_actions_sent at) at of
                  ((_, retired), at) \<Rightarrow>
                    sh\<lparr>sh_connections := fmupd connection at (sh_connections sh),
                       sh_ids := retire_channel_ids (sh_id sh) retired (sh_ids sh)\<rparr>))"

fun handle :: "'l logic \<Rightarrow> shard_command \<Rightarrow> 'l shard \<Rightarrow> 'l shard option" where
  "handle lg (Attach connection queue cursor held ready) sh = attach lg connection queue cursor held ready sh"
| "handle lg (Detach connection reason handover) sh = detach lg connection reason handover sh"
| "handle lg (Drained connection) sh = Some (retry connection sh)"
| "handle lg (Requested connection i) sh = requested_channel lg connection i sh"
| "handle lg (AskedSelfState connection mute deaf) sh = requested_self_state lg connection mute deaf sh"
| "handle lg (QueriedPermissions connection i) sh = Some (queried_permissions connection i sh)"
| "handle lg (QueriedUserStats connection target) sh = Some (queried_user_stats connection target sh)"
| "handle lg (Invoked connection act session i) sh = invoked lg connection act session i sh"
| "handle lg (Wrote connection target message) sh = said lg connection target message sh"

subsection \<open>The turn\<close>

record reconcile_report =
  rr_version :: u64
  rr_published :: bool
  rr_delta_len :: nat
  rr_replanned :: "connection_id list"
  rr_routing_recompiled :: bool
  rr_closed :: "connection_id list"
  rr_refused :: "build_error option"

definition report_default :: reconcile_report where
  "report_default = \<lparr>rr_version = 0, rr_published = False, rr_delta_len = 0, rr_replanned = [],
     rr_routing_recompiled = False, rr_closed = [], rr_refused = None\<rparr>"

text \<open>\<open>logic.observation\<close> for every attached connection, in id order.\<close>

definition observe_all :: "'l logic \<Rightarrow> connection_id list \<Rightarrow> 'l \<Rightarrow> 'l \<times> observations" where
  "observe_all lg cs l = fold (\<lambda>c (l, obs). let (l, see) = lg_observation lg l c in (l, fmupd c see obs)) cs (l, fmempty)"

definition moved_of :: "observations \<Rightarrow> (connection_id, attached) fmap \<Rightarrow> connection_id list" where
  "moved_of obs m = filter (\<lambda>c. case fmlookup m c of None \<Rightarrow> False
     | Some at \<Rightarrow> at_held at \<noteq> None \<or> at_see at \<noteq> observed obs c) (fkeys m)"

definition part_changed :: "('a \<Rightarrow> bool) \<Rightarrow> 'a option \<Rightarrow> 'a option \<Rightarrow> bool" where
  "part_changed is_empty fresh sent =
     (case (fresh, sent) of
        (Some fresh, Some sent) \<Rightarrow> fresh \<noteq> sent
      | (Some fresh, None) \<Rightarrow> \<not> is_empty fresh
      | (None, Some sent) \<Rightarrow> \<not> is_empty sent
      | (None, None) \<Rightarrow> False)"

definition overlays_changed :: "rendered \<Rightarrow> (connection_id, attached) fmap \<Rightarrow> bool" where
  "overlays_changed rd m = list_ex (\<lambda>c. part_changed overlay_is_empty (fmlookup (rd_overlays rd) c)
     (map_option at_overlay_sent (fmlookup m c))) (fkeys m)"

definition actions_changed :: "rendered \<Rightarrow> (connection_id, attached) fmap \<Rightarrow> bool" where
  "actions_changed rd m = list_ex (\<lambda>c. part_changed (\<lambda>a. items a = []) (fmlookup (rd_actions rd) c)
     (map_option at_actions_sent (fmlookup m c))) (fkeys m)"

definition retained_channels :: "rendered \<Rightarrow> channel_key fset" where
  "retained_channels rd = fset_of_list (map ch_key (filter (\<lambda>c. ch_id c \<noteq> ROOT_ID)
     (fvals (sv_channels (rd_view rd)) @ concat (map (\<lambda>ov. fvals (ov_channels ov)) (fvals (rd_overlays rd))))))"

definition date_sessions :: "u64 \<Rightarrow> session_id list \<Rightarrow> (session_id, u64) fmap \<Rightarrow> bool \<times> (session_id, u64) fmap" where
  "date_sessions version sessions since = fold (\<lambda>s (changed, since).
     if \<not> fm_has since s then (True, fmupd s version since) else (changed, since)) sessions (False, since)"

type_synonym presence = "(connection_id, session_id) fmap \<times> silence"

definition shared_presence :: "user \<Rightarrow> presence \<Rightarrow> presence" where
  "shared_presence u e = (case e of (session_of, si) \<Rightarrow>
     let si = silence_record (us_session u) (us_flags u) si in
     (case occupant_connection (us_occupant u) of
        Some c \<Rightarrow> (fmupd c (us_session u) session_of, si)
      | None \<Rightarrow> (session_of, si)))"

definition private_presence :: "connection_id \<times> overlay \<Rightarrow> presence \<Rightarrow> presence" where
  "private_presence e p = (case e of (c, ov) \<Rightarrow> case p of (session_of, si) \<Rightarrow>
     if fm_has session_of c then (session_of, si)
     else case find (\<lambda>u. us_occupant u = Connection c) (fvals (ov_users ov)) of
            Some u \<Rightarrow> (fmupd c (us_session u) session_of, silence_record (us_session u) (us_flags u) si)
          | None \<Rightarrow> (session_of, si))"

definition presence_of :: "rendered \<Rightarrow> presence" where
  "presence_of rd = fold private_presence (items (rd_overlays rd))
     (fold shared_presence (fvals (sv_users (rd_view rd))) (fmempty, silence_default))"

record turn =
  tn_connections :: "(connection_id, attached) fmap"
  tn_closed :: "connection_id list"
  tn_retired :: "channel_id fset"

text \<open>One connection's part of the turn: replan when it moved, replay the journal otherwise.\<close>

definition serve ::
    "observations \<Rightarrow> rendered \<Rightarrow> shard_view \<Rightarrow> journal \<Rightarrow> u64 \<Rightarrow> connection_id fset \<Rightarrow> attached \<Rightarrow> (outcome \<times> channel_id fset) \<times> attached" where
  "serve obs rd previous journal head moved at =
     (let overlay = fm_get_or empty_overlay (rd_overlays rd) (at_id at);
          acts = fm_get_or fmempty (rd_actions rd) (at_id at)
      in if at_id at |\<in>| moved
         then replan previous (rd_view rd) head (observed obs (at_id at)) overlay acts at
         else push journal head overlay acts at)"

definition serve_step ::
    "observations \<Rightarrow> rendered \<Rightarrow> shard_view \<Rightarrow> journal \<Rightarrow> u64 \<Rightarrow> connection_id fset \<Rightarrow> connection_id \<times> attached \<Rightarrow> turn \<Rightarrow> turn" where
  "serve_step obs rd previous journal head moved e t = (case e of (c, at) \<Rightarrow>
     case serve obs rd previous journal head moved at of ((outcome, retired), at) \<Rightarrow>
       let t = t\<lparr>tn_retired := tn_retired t |\<union>| retired\<rparr> in
       if outcome = OutClose
       then t\<lparr>tn_connections := fmupd c (at\<lparr>at_queue := mark_fatal (at_queue at)\<rparr>) (tn_connections t),
              tn_closed := tn_closed t @ [at_id at]\<rparr>
       else t\<lparr>tn_connections := fmupd c at (tn_connections t)\<rparr>)"

definition publish_routing :: "rendered \<Rightarrow> bool \<Rightarrow> 'l shard \<Rightarrow> bool \<times> 'l shard" where
  "publish_routing rd since_changed sh =
     (let (session_of, si) = presence_of rd;
          recompiled = (since_changed \<or> rd_audio rd \<noteq> sh_declared_audio sh
            \<or> session_of \<noteq> sh_session_of sh \<or> si \<noteq> sh_declared_silence sh)
      in (recompiled,
          if recompiled
          then sh\<lparr>sh_routing := compile (rd_audio rd) session_of (sh_since sh) si,
                  sh_declared_audio := rd_audio rd, sh_session_of := session_of, sh_declared_silence := si\<rparr>
          else sh))"

text \<open>The part of the turn after an accepted render that changes something.\<close>

definition advance :: "observations \<Rightarrow> rendered \<Rightarrow> planned_op list \<Rightarrow> connection_id list \<Rightarrow> 'l shard \<Rightarrow> reconcile_report \<times> 'l shard" where
  "advance obs rd ops moved sh =
     (let published = (ops \<noteq> []);
          sh = (if published
                then sh\<lparr>sh_version := saturating_add (sh_version sh) 1, sh_journal := snd (journal_push ops (sh_journal sh))\<rparr>
                else sh);
          previous = sh_view sh;
          sh = sh\<lparr>sh_view := rd_view rd,
                  sh_ids := retain_channels (sh_id sh) (retained_channels rd) (sh_ids sh)\<rparr>;
          (since_changed, since) = date_sessions (sh_version sh) (fkeys (sv_users (sh_view sh))) (sh_since sh);
          (recompiled, sh) = publish_routing rd since_changed (sh\<lparr>sh_since := since\<rparr>);
          head = sh_version sh;
          t = fold (serve_step obs rd previous (sh_journal sh) head (fset_of_list moved)) (items (sh_connections sh))
                \<lparr>tn_connections = sh_connections sh, tn_closed = [], tn_retired = {||}\<rparr>;
          sh = sh\<lparr>sh_connections := tn_connections t,
                  sh_ids := retire_channel_ids (sh_id sh) (tn_retired t) (sh_ids sh)\<rparr>
      in (\<lparr>rr_version = sh_version sh, rr_published = published, rr_delta_len = length ops,
            rr_replanned = moved, rr_routing_recompiled = recompiled, rr_closed = tn_closed t,
            rr_refused = None\<rparr>, sh))"

definition reconcile :: "'l logic \<Rightarrow> 'l shard \<Rightarrow> reconcile_report \<times> 'l shard" where
  "reconcile lg sh =
     (let cs = fkeys (sh_connections sh);
          (l, obs) = observe_all lg cs (sh_logic sh);
          (l, bd) = lg_render lg l (builder_new (sh_ids sh) (sh_id sh) cs);
          sh = sh\<lparr>sh_logic := l, sh_ids := bd_ids bd\<rparr>
      in case finish obs bd of
           Inl refused \<Rightarrow> (report_default\<lparr>rr_version := sh_version sh, rr_refused := Some refused\<rparr>, sh)
         | Inr rd \<Rightarrow>
             let ops = plan (sh_view sh) (rd_view rd);
                 moved = moved_of obs (sh_connections sh)
             in if ops = [] \<and> moved = [] \<and> \<not> overlays_changed rd (sh_connections sh)
                     \<and> \<not> actions_changed rd (sh_connections sh)
                then (report_default\<lparr>rr_version := sh_version sh\<rparr>, sh)
                else advance obs rd ops moved sh)"

definition MAILBOX_DEPTH :: nat where "MAILBOX_DEPTH = 256"

text \<open>
  One bounded burst of the mailbox, given as the commands waiting in it and whether every sender
  is gone; it says whether the mailbox may still yield commands.
\<close>

fun drain_burst :: "nat \<Rightarrow> 'l logic \<Rightarrow> bool \<Rightarrow> shard_command list \<Rightarrow> 'l shard \<Rightarrow> (bool \<times> shard_command list \<times> 'l shard) option" where
  "drain_burst 0 lg gone box sh = Some (True, box, sh)"
| "drain_burst (Suc n) lg gone [] sh = Some (\<not> gone, [], sh)"
| "drain_burst (Suc n) lg gone (c # box) sh =
     (case handle lg c sh of None \<Rightarrow> None | Some sh \<Rightarrow> drain_burst n lg gone box sh)"

definition drain_commands :: "'l logic \<Rightarrow> bool \<Rightarrow> shard_command list \<Rightarrow> 'l shard \<Rightarrow> (bool \<times> shard_command list \<times> 'l shard) option" where
  "drain_commands lg gone box sh = drain_burst MAILBOX_DEPTH lg gone box sh"

end
