(* ===== verification/Build_Check.thy ===== *)
theory Build_Check
  imports Build
begin

text \<open>
  What the closing checks of a render establish. The audio check counts senders per scope
  instead of forming pairs; it is compared with the pairwise statement it replaces.
\<close>

lemma then_ok [simp]:
  "(case a of Inl e \<Rightarrow> Inl e | Inr _ \<Rightarrow> b) = Inr u \<longleftrightarrow> is_ok a \<and> b = Inr u"
  by (cases a) (simp_all add: is_ok_def)

lemma is_ok_unit: "is_ok (a :: ('e, unit) result) \<longleftrightarrow> a = Inr ()"
  by (cases a) simp_all

subsection \<open>Collected maps\<close>

lemma fold_fmupd_lookup:
  "fmlookup (fold (\<lambda>(k, v) m. fmupd k v m) kvs m) x = (case map_of (rev kvs) x of None \<Rightarrow> fmlookup m x | Some v \<Rightarrow> Some v)"
  by (induction kvs arbitrary: m) (auto simp: map_add_def split: option.splits)

lemma collect_map_lookup: "fmlookup (collect_map kvs) x = map_of (rev kvs) x"
  by (simp add: collect_map_def fold_fmupd_lookup split: option.splits)

lemma collect_map_in: "fmlookup (collect_map kvs) k = Some v \<Longrightarrow> (k, v) \<in> set kvs"
  unfolding collect_map_lookup by (auto dest: map_of_SomeD)

lemma collect_map_dom: "(k, v) \<in> set kvs \<Longrightarrow> \<exists>w. fmlookup (collect_map kvs) k = Some w"
  unfolding collect_map_lookup
  by (metis image_eqI fst_conv map_of_eq_None_iff not_None_eq set_rev)

lemma shared_scope_user:
  assumes "fmlookup (shared_scopes_of view) c = Some scope"
  shows "\<exists>s u. fmlookup (sv_users view) s = Some u \<and> us_occupant u = Connection c \<and> us_scope u = scope"
proof -
  obtain u where "u \<in> set (fvals (sv_users view))" "us_occupant u = Connection c" "us_scope u = scope"
    using collect_map_in [OF assms [unfolded shared_scopes_of_def]] by (auto simp: in_set_filter_map)
  then show ?thesis unfolding in_set_fvals by blast
qed

lemma shared_scope_of_user:
  assumes "fmlookup (sv_users view) s = Some u" and "us_occupant u = Connection c"
  shows "\<exists>scope. fmlookup (shared_scopes_of view) c = Some scope"
proof -
  have "u \<in> set (fvals (sv_users view))" using assms(1) unfolding in_set_fvals by blast
  then have "(c, us_scope u) \<in> set (filter_map (\<lambda>user. map_option (\<lambda>c. (c, us_scope user))
      (occupant_connection (us_occupant user))) (fvals (sv_users view)))"
    unfolding in_set_filter_map by (rule rev_bexI) (simp add: assms(2))
  then show ?thesis unfolding shared_scopes_of_def by (rule collect_map_dom)
qed

lemma collect_items: "fmlookup (collect_map (map (\<lambda>(k, v). (k, f v)) (items m))) k = map_option f (fmlookup m k)"
proof (cases "fmlookup (collect_map (map (\<lambda>(k, v). (k, f v)) (items m))) k")
  case None
  then have "fmlookup m k = None"
    using collect_map_dom [of k _ "map (\<lambda>(k, v). (k, f v)) (items m)"] by (cases "fmlookup m k") (force simp: iter_simps)+
  then show ?thesis using None by simp
next
  case (Some w)
  then show ?thesis using collect_map_in [OF Some] by (auto simp: iter_simps)
qed

lemma bex_snd_items: "(\<exists>x \<in> set (items m). P (snd x)) \<longleftrightarrow> (\<exists>k v. fmlookup m k = Some v \<and> P v)"
  unfolding Bex_def split_paired_Ex by (simp add: iter_simps)

lemma sees_privately_iff:
  "sees_privately (privately_of overlays) r s \<longleftrightarrow>
     (\<exists>ov k u. fmlookup overlays r = Some ov \<and> fmlookup (ov_users ov) k = Some u \<and> us_occupant u = Connection s)"
  unfolding sees_privately_def privately_of_def collect_items
  using bex_snd_items [where P = "\<lambda>u. us_occupant u = Connection s"]
  by (cases "fmlookup overlays r") (simp_all add: fset_of_list_elem in_set_filter_map)

subsection \<open>Counting per scope\<close>

lemma per_scope_fold:
  "fm_get_or 0 (fold (\<lambda>sender m. case fmlookup sh sender of
       Some scope \<Rightarrow> fmupd scope (fm_get_or 0 m scope + 1) m | None \<Rightarrow> m) xs m) sc
     = fm_get_or 0 m sc + length (filter (\<lambda>s. fmlookup sh s = Some sc) xs)"
  by (induction xs arbitrary: m) (auto simp: fm_get_or_def split: option.splits)

lemma per_scope_count:
  "fm_get_or 0 (per_scope_of sh (sorted_list_of_fset M)) sc = card {s. s |\<in>| M \<and> fmlookup sh s = Some sc}"
proof -
  have "length (filter P (sorted_list_of_fset M)) = card {s. s |\<in>| M \<and> P s}" for P
  proof -
    have "length (filter P (sorted_list_of_fset M)) = card (set (filter P (sorted_list_of_fset M)))"
      by (rule distinct_card [symmetric]) (simp add: sorted_list_of_fset.rep_eq)
    then show ?thesis by simp
  qed
  then show ?thesis unfolding per_scope_of_def per_scope_fold by (simp add: fm_get_or_def)
qed

lemma scope_obligation:
  assumes "r |\<in>| M \<or> (\<forall>sc. fmlookup sh r = Some sc \<longrightarrow> P sc)"
  shows "(\<forall>sc n. fmlookup (per_scope_of sh (sorted_list_of_fset M)) sc = Some n \<longrightarrow>
             (if fmlookup sh r = Some sc then n - 1 else n) > 0 \<longrightarrow> P sc) \<longleftrightarrow>
         (\<forall>s sc. s |\<in>| M \<longrightarrow> s \<noteq> r \<longrightarrow> fmlookup sh s = Some sc \<longrightarrow> P sc)" (is "?L \<longleftrightarrow> ?R")
proof
  let ?at = "\<lambda>sc. {s. s |\<in>| M \<and> fmlookup sh s = Some sc}"
  have fin: "finite (?at sc)" for sc by (rule finite_subset [of _ "fset M"]) auto
  have count: "card (?at sc) = n" if "fmlookup (per_scope_of sh (sorted_list_of_fset M)) sc = Some n" for sc n
    using per_scope_count [of sh M sc] that by (simp add: fm_get_or_def)
  {
    assume L: ?L
    show ?R
    proof (intro allI impI)
      fix s sc
      assume s: "s |\<in>| M" "s \<noteq> r" "fmlookup sh s = Some sc"
      have pos: "0 < card (?at sc)" using s fin card_gt_0_iff by fastforce
      then obtain n where n: "fmlookup (per_scope_of sh (sorted_list_of_fset M)) sc = Some n"
        using per_scope_count [of sh M sc] by (auto simp: fm_get_or_def split: option.splits)
      show "P sc"
      proof (cases "fmlookup sh r = Some sc \<and> r |\<in>| M")
        case True
        then have "{r, s} \<subseteq> ?at sc" using s by auto
        then have "2 \<le> card (?at sc)" using card_mono [OF fin, of "{r, s}" sc] s(2) by simp
        then have "n - 1 > 0" using count [OF n] by simp
        then show ?thesis using L n True by auto
      next
        case False
        show ?thesis
        proof (cases "fmlookup sh r = Some sc")
          case True
          then show ?thesis using assms False by blast
        next
          case False
          then show ?thesis using L n count [OF n] pos by auto
        qed
      qed
    qed
  }
  {
    assume R: ?R
    show ?L
    proof (intro allI impI)
      fix sc n
      assume n: "fmlookup (per_scope_of sh (sorted_list_of_fset M)) sc = Some n"
        and pos: "(if fmlookup sh r = Some sc then n - 1 else n) > 0"
      have "\<exists>s. s \<in> ?at sc \<and> s \<noteq> r"
      proof (rule ccontr)
        assume "\<not> (\<exists>s. s \<in> ?at sc \<and> s \<noteq> r)"
        then have "?at sc \<subseteq> {r}" by blast
        then have "card (?at sc) \<le> (if fmlookup sh r = Some sc then 1 else 0)"
          using card_mono [of "{r}" "?at sc"] subset_singletonD by fastforce
        then show False using count [OF n] pos by (auto split: if_splits)
      qed
      then show "P sc" using R by blast
    qed
  }
qed

lemma check_receiver_iff:
  assumes "r |\<in>| M \<or> (\<forall>sc. fmlookup sh r = Some sc \<longrightarrow> sees (observed obs r) sc)"
    and "\<And>s. sees_privately pr r s \<Longrightarrow> fmlookup sh s = None"
  shows "check_receiver M sh pr obs r = Inr () \<longleftrightarrow> (\<forall>s. s |\<in>| M \<longrightarrow> s \<noteq> r \<longrightarrow> can_see r s sh pr obs)"
proof -
  let ?per = "per_scope_of sh (sorted_list_of_fset M)"
  have "check_receiver M sh pr obs r = Inr () \<longleftrightarrow>
      (\<forall>p \<in> set (items ?per). (if fmlookup sh r = Some (fst p) then snd p - 1 else snd p) > 0 \<longrightarrow>
         sees (observed obs r) (fst p)) \<and>
      (\<forall>s. s |\<in>| M \<longrightarrow> fmlookup sh s = None \<longrightarrow> s \<noteq> r \<longrightarrow> sees_privately pr r s)"
    unfolding check_receiver_def Let_def then_ok is_ok_unit for_all_ok_iff hidden_of_def by (auto simp: case_prod_beta)
  also have "\<dots> \<longleftrightarrow>
      (\<forall>sc n. fmlookup ?per sc = Some n \<longrightarrow>
             (if fmlookup sh r = Some sc then n - 1 else n) > 0 \<longrightarrow> sees (observed obs r) sc) \<and>
      (\<forall>s. s |\<in>| M \<longrightarrow> fmlookup sh s = None \<longrightarrow> s \<noteq> r \<longrightarrow> sees_privately pr r s)"
    unfolding Ball_def split_paired_All in_set_items fst_conv snd_conv ..
  also have "\<dots> \<longleftrightarrow> (\<forall>s. s |\<in>| M \<longrightarrow> s \<noteq> r \<longrightarrow> can_see r s sh pr obs)"
  proof -
    have "can_see r s sh pr obs \<longleftrightarrow> (\<forall>sc. fmlookup sh s = Some sc \<longrightarrow> sees (observed obs r) sc) \<and>
        (fmlookup sh s = None \<longrightarrow> sees_privately pr r s)" for s
      using assms(2) [of s] by (cases "fmlookup sh s") (auto simp: can_see_def)
    then show ?thesis unfolding scope_obligation [OF assms(1)] by (simp add: imp_conjR all_conj_distrib) blast
  qed
  finally show ?thesis .
qed

lemma check_group_iff:
  "check_group hs M sh pr obs = Inr () \<longleftrightarrow> (\<forall>r \<in> set hs. check_receiver M sh pr obs r = Inr ())"
  by (simp add: check_group_def for_all_ok_iff)

text \<open>
  \<open>sees_itself\<close>: a listener outside the domain it listens to observes the scope its own user is
  rendered at. The count of a scope subtracts the receiver whenever the receiver is rendered
  there, which is exact only when the receiver is one of the counted members.
\<close>

definition sees_itself :: "shard_view \<Rightarrow> audio_relation \<Rightarrow> observations \<Rightarrow> bool" where
  "sees_itself view audio obs \<longleftrightarrow>
     (\<forall>l d s u. (l, d) |\<in>| ar_listeners audio \<longrightarrow> fmlookup (sv_users view) s = Some u \<longrightarrow>
        us_occupant u = Connection l \<longrightarrow> sees (observed obs l) (us_scope u))"

definition xor_private :: "shard_view \<Rightarrow> overlays \<Rightarrow> bool" where
  "xor_private view overlays \<longleftrightarrow>
     (\<forall>r s. sees_privately (privately_of overlays) r s \<longrightarrow> fmlookup (shared_scopes_of view) s = None)"

lemma check_receivers_iff:
  assumes "sees_itself view audio obs" and "xor_private view overlays"
  shows "check_receivers_see_senders view overlays audio obs = Inr () \<longleftrightarrow>
     (\<forall>s r. (s, r) |\<in>| resolve audio \<longrightarrow> can_see r s (shared_scopes_of view) (privately_of overlays) obs)"
proof -
  let ?sh = "shared_scopes_of view" and ?pr = "privately_of overlays"
  let ?see = "\<lambda>r s. can_see r s ?sh ?pr obs"
  have hidden: "fmlookup ?sh s = None" if "sees_privately ?pr r s" for r s
    using assms(2) that by (simp add: xor_private_def)
  have domain: "check_group (sorted_list_of_fset M) M ?sh ?pr obs = Inr () \<longleftrightarrow>
      (\<forall>r s. r |\<in>| M \<longrightarrow> s |\<in>| M \<longrightarrow> s \<noteq> r \<longrightarrow> ?see r s)" for M
    using check_receiver_iff [of _ M ?sh obs ?pr] hidden by (auto simp: check_group_iff)
  have own: "sees (observed obs l) sc" if "(l, d) |\<in>| ar_listeners audio" "fmlookup ?sh l = Some sc" for l d sc
    using shared_scope_user [OF that(2)] that(1) assms(1) by (auto simp: sees_itself_def)
  have listen: "check_group [l] M ?sh ?pr obs = Inr () \<longleftrightarrow> (\<forall>s. s |\<in>| M \<longrightarrow> s \<noteq> l \<longrightarrow> ?see l s)"
    if "(l, M) \<in> set (listeners_of audio)" for l M
    using check_receiver_iff [of l M ?sh obs ?pr] hidden own that by (auto simp: check_group_iff in_listeners_of)
  have "check_receivers_see_senders view overlays audio obs = Inr () \<longleftrightarrow>
      (\<forall>M \<in> set (fvals (ar_domains audio)). \<forall>r s. r |\<in>| M \<longrightarrow> s |\<in>| M \<longrightarrow> s \<noteq> r \<longrightarrow> ?see r s) \<and>
      (\<forall>p \<in> set (listeners_of audio). \<forall>s. s |\<in>| snd p \<longrightarrow> s \<noteq> fst p \<longrightarrow> ?see (fst p) s) \<and>
      (\<forall>p \<in> set (explicit_edges audio). ?see (snd p) (fst p))"
  proof -
    have "(\<forall>p \<in> set (listeners_of audio). check_group [fst p] (snd p) ?sh ?pr obs = Inr ()) \<longleftrightarrow>
        (\<forall>p \<in> set (listeners_of audio). \<forall>s. s |\<in>| snd p \<longrightarrow> s \<noteq> fst p \<longrightarrow> ?see (fst p) s)"
      by (intro ball_cong refl listen) simp
    then show ?thesis
      unfolding check_receivers_see_senders_def Let_def then_ok is_ok_unit for_all_ok_iff case_prod_beta domain
      by simp
  qed
  also have "\<dots> \<longleftrightarrow> (\<forall>s r. hears audio s r \<longrightarrow> ?see r s)"
    unfolding Ball_def split_paired_All in_listeners_of in_set_fvals hears_def explicit_edges_def fst_conv snd_conv
      sorted_list_of_fset_simps by blast
  finally show ?thesis unfolding in_resolve .
qed

subsection \<open>What a finished render guarantees\<close>

lemma find_has_None: "find (\<lambda>k. k |\<in>| fmdom m) (fkeys n) = None \<longleftrightarrow> fmdom m |\<inter>| fmdom n = {||}"
  unfolding find_None_iff in_set_fkeys by auto

lemma check_xor_iff:
  "check_shared_xor_private view overlays = Inr () \<longleftrightarrow>
     (\<forall>c ov. fmlookup overlays c = Some ov \<longrightarrow> apart view ov)"
proof -
  have one: "(case find (\<lambda>s. fm_has (sv_users view) s) (fkeys (ov_users ov)) of
       Some s \<Rightarrow> Inl (SharedAndPrivateUser s c)
     | None \<Rightarrow> (case find (\<lambda>i. fm_has (sv_channels view) i) (fkeys (ov_channels ov)) of
            Some i \<Rightarrow> Inl (SharedAndPrivateChannel i c) | None \<Rightarrow> Inr ())) = Inr () \<longleftrightarrow> apart view ov" for c ov
    unfolding apart_def find_has_None [symmetric] fm_has_iff by (auto split: option.splits)
  show ?thesis
    unfolding check_shared_xor_private_def for_all_ok_iff Ball_def split_paired_All in_set_items prod.case one ..
qed

definition in_sight :: "shard_view \<Rightarrow> overlay \<Rightarrow> scope_set \<Rightarrow> channel_id \<Rightarrow> bool" where
  "in_sight view ov see i \<longleftrightarrow> i |\<in>| fmdom (sv_channels (compose (restrict view see) ov))"

lemma check_reference_iff: "check_reference view ov see c i = Inr () \<longleftrightarrow> in_sight view ov see i"
  by (auto simp: check_reference_def in_sight_def fmlookup_dom_iff view_simps split: option.splits)

lemma check_overlay_iff:
  "check_overlay_references view overlays obs = Inr () \<longleftrightarrow>
     (\<forall>c ov. fmlookup overlays c = Some ov \<longrightarrow>
        (\<forall>s u. fmlookup (ov_users ov) s = Some u \<longrightarrow> in_sight view ov (observed obs c) (us_channel u)) \<and>
        (\<forall>i ch. fmlookup (ov_channels ov) i = Some ch \<longrightarrow> in_sight view ov (observed obs c) (ch_parent ch)))"
proof -
  have vals: "(\<forall>v \<in> set (fvals m). P v) \<longleftrightarrow> (\<forall>k v. fmlookup m k = Some v \<longrightarrow> P v)" for m P
    unfolding Ball_def in_set_fvals by blast
  show ?thesis
    unfolding check_overlay_references_def for_all_ok_iff Ball_def split_paired_All in_set_items prod.case Let_def
      then_ok is_ok_unit for_all_ok_iff [unfolded Ball_def]
    unfolding Ball_def [symmetric] vals check_reference_iff by blast
qed

lemma finish_iff:
  "finish obs bd = Inr rd \<longleftrightarrow>
     bd_error bd = None \<and> bd_rooted bd \<and>
     check_shared_xor_private (bd_view bd) (bd_overlays bd) = Inr () \<and>
     check_overlay_references (bd_view bd) (bd_overlays bd) obs = Inr () \<and>
     check_receivers_see_senders (bd_view bd) (bd_overlays bd) (bd_audio bd) obs = Inr () \<and>
     rd = \<lparr>rd_view = bd_view bd, rd_overlays = bd_overlays bd, rd_actions = bd_actions bd, rd_audio = bd_audio bd\<rparr>"
  by (auto simp: finish_def is_ok_unit split: option.splits if_splits)

end
