(* ===== verification/Build_Run.thy ===== *)
theory Build_Run
  imports Build_Check
begin

text \<open>
  Renders as sequences of builder calls. A flavor holds no channel but through the references
  the builder returned to it in the same render, other shards may draw numbers from the shared
  allocator at any point, and whatever the calls were the accumulated view is well formed.
\<close>

subsection \<open>Growing a well-formed view\<close>

abbreviation add_channel :: "channel_id \<Rightarrow> channel \<Rightarrow> shard_view \<Rightarrow> shard_view" where
  "add_channel i c v \<equiv> v\<lparr>sv_channels := fmupd i c (sv_channels v)\<rparr>"

abbreviation add_user :: "session_id \<Rightarrow> user \<Rightarrow> shard_view \<Rightarrow> shard_view" where
  "add_user s u v \<equiv> v\<lparr>sv_users := fmupd s u (sv_users v)\<rparr>"

lemma view_okI:
  assumes "\<And>i c. fmlookup (sv_channels v) i = Some c \<Longrightarrow> ch_id c = i"
    and "\<And>s u. fmlookup (sv_users v) s = Some u \<Longrightarrow> us_session u = s"
    and "\<And>i c. fmlookup (sv_channels v) i = Some c \<Longrightarrow>
           \<exists>p. fmlookup (sv_channels v) (ch_parent c) = Some p \<and> is_prefix_of (ch_scope p) (ch_scope c)"
    and "\<And>s u. fmlookup (sv_users v) s = Some u \<Longrightarrow>
           \<exists>p. fmlookup (sv_channels v) (us_channel u) = Some p \<and> is_prefix_of (ch_scope p) (us_scope u)"
    and "ranked r (sv_channels v)"
  shows "view_ok v"
  using assms unfolding view_ok_def view_keyed_def view_closed_def sc.refs_closed_def by blast

lemma ranked_add:
  assumes "ranked r m" and "fmlookup m i = None" and "i \<noteq> ROOT_ID" and "fmlookup m (ch_parent c) = Some p"
    and "\<And>j d. fmlookup m j = Some d \<Longrightarrow> ch_parent d \<noteq> i"
  shows "ranked (r(i := Suc (r (ch_parent c)))) (fmupd i c m)"
proof -
  have "ch_parent c \<noteq> i" using assms(2,4) by auto
  then show ?thesis using assms(1,3,5) unfolding ranked_def by auto
qed

lemma view_ok_add_channel:
  assumes "view_ok v" and "fmlookup (sv_channels v) i = None" and "i \<noteq> ROOT_ID" and "ch_id c = i"
    and "fmlookup (sv_channels v) (ch_parent c) = Some p" and "is_prefix_of (ch_scope p) (ch_scope c)"
  shows "view_ok (add_channel i c v)"
proof -
  obtain r where r: "ranked r (sv_channels v)" using view_ok_rank [OF assms(1)] ..
  have parents: "ch_parent d \<noteq> i" if "fmlookup (sv_channels v) j = Some d" for j d
    using view_okD(3) [OF assms(1) that] assms(2) by auto
  show ?thesis
  proof (rule view_okI [where r = "r(i := Suc (r (ch_parent c)))"])
    show "ranked (r(i := Suc (r (ch_parent c)))) (sv_channels (add_channel i c v))"
      using ranked_add [OF r assms(2,3,5) parents] by simp
  qed (use assms view_okD [OF assms(1)] in \<open>fastforce split: if_splits\<close>)+
qed

lemma view_ok_rootless:
  assumes "view_ok v" and "ROOT_ID |\<notin>| fmdom (sv_channels v)"
  shows "sv_channels v = fmempty" and "sv_users v = fmempty"
proof -
  have none: "fmlookup (sv_channels v) i = None" for i
    using view_ok_root [OF assms(1), of i] assms(2) by (auto simp: notin_fmdom_iff [symmetric])
  then show "sv_channels v = fmempty" by (auto intro: fmap_ext)
  have "fmlookup (sv_users v) s = None" for s
    using view_okD(4) [OF assms(1), of s] none by (cases "fmlookup (sv_users v) s") auto
  then show "sv_users v = fmempty" by (auto intro: fmap_ext)
qed

lemma view_ok_add_root:
  assumes "view_ok v" and "ROOT_ID |\<notin>| fmdom (sv_channels v)" and "ch_id c = ROOT_ID" and "ch_parent c = ROOT_ID"
  shows "view_ok (add_channel ROOT_ID c v)"
  using view_ok_rootless [OF assms(1,2)] assms(3,4)
  by (intro view_okI [where r = "\<lambda>_. 0"]) (auto simp: ranked_def split: if_splits)

lemma view_ok_add_user:
  assumes "view_ok v" and "us_session u = s" and "fmlookup (sv_channels v) (us_channel u) = Some p"
    and "is_prefix_of (ch_scope p) (us_scope u)"
  shows "view_ok (add_user s u v)"
proof -
  obtain r where r: "ranked r (sv_channels v)" using view_ok_rank [OF assms(1)] ..
  show ?thesis
    by (rule view_okI [where r = r])
      (use r assms(2-4) view_okD [OF assms(1)] in \<open>auto split: if_splits\<close>)
qed

subsection \<open>Edits that leave the structure alone\<close>

definition channel_shape :: "channel \<Rightarrow> channel_key \<times> channel_id \<times> channel_id \<times> scope" where
  "channel_shape c = (ch_key c, ch_id c, ch_parent c, ch_scope c)"

definition user_shape :: "user \<Rightarrow> occupant \<times> session_id \<times> channel_id \<times> scope" where
  "user_shape u = (us_occupant u, us_session u, us_channel u, us_scope u)"

definition same_channels :: "channel_map \<Rightarrow> channel_map \<Rightarrow> bool" where
  "same_channels m n \<longleftrightarrow> (\<forall>i. map_option channel_shape (fmlookup m i) = map_option channel_shape (fmlookup n i))"

definition same_users :: "user_map \<Rightarrow> user_map \<Rightarrow> bool" where
  "same_users m n \<longleftrightarrow> (\<forall>s. map_option user_shape (fmlookup m s) = map_option user_shape (fmlookup n s))"

lemma same_refl [simp]: "same_channels m m" "same_users n n"
  by (simp_all add: same_channels_def same_users_def)

lemma same_channelsD:
  assumes "same_channels m n" and "fmlookup n i = Some d"
  shows "\<exists>c. fmlookup m i = Some c \<and> ch_key c = ch_key d \<and> ch_id c = ch_id d \<and> ch_parent c = ch_parent d \<and> ch_scope c = ch_scope d"
  using assms unfolding same_channels_def
  by (cases "fmlookup m i") (auto simp: channel_shape_def dest!: spec [of _ i])

lemma same_usersD:
  assumes "same_users m n" and "fmlookup n s = Some w"
  shows "\<exists>u. fmlookup m s = Some u \<and> us_occupant u = us_occupant w \<and> us_session u = us_session w \<and>
     us_channel u = us_channel w \<and> us_scope u = us_scope w"
  using assms unfolding same_users_def
  by (cases "fmlookup m s") (auto simp: user_shape_def dest!: spec [of _ s])

lemma same_sym: "same_channels m n \<Longrightarrow> same_channels n m" "same_users k l \<Longrightarrow> same_users l k"
  by (simp_all add: same_channels_def same_users_def)

lemma same_dom: "same_channels m n \<Longrightarrow> fmdom n = fmdom m" "same_users k l \<Longrightarrow> fmdom l = fmdom k"
  unfolding same_channels_def same_users_def by (auto simp: fmlookup_dom_iff) (metis map_option_eq_Some)+

lemma view_ok_same:
  assumes "view_ok v" and ch: "same_channels (sv_channels v) (sv_channels w)"
    and us: "same_users (sv_users v) (sv_users w)"
  shows "view_ok w"
proof -
  obtain r where r: "ranked r (sv_channels v)" using view_ok_rank [OF assms(1)] ..
  have up: "\<exists>q. fmlookup (sv_channels w) j = Some q \<and> is_prefix_of (ch_scope q) sc"
    if "\<exists>p. fmlookup (sv_channels v) j = Some p \<and> is_prefix_of (ch_scope p) sc" for j sc
    using that same_channelsD [OF same_sym(1) [OF ch], of j] by force
  show ?thesis
  proof (rule view_okI [where r = r])
    show "ranked r (sv_channels w)"
      using r same_channelsD [OF ch] unfolding ranked_def by (metis (no_types, lifting))
  next
    fix i c assume "fmlookup (sv_channels w) i = Some c"
    then show "\<exists>p. fmlookup (sv_channels w) (ch_parent c) = Some p \<and> is_prefix_of (ch_scope p) (ch_scope c)"
      using same_channelsD [OF ch, of i c] view_okD(3) [OF assms(1), of i] by (intro up) force
  next
    fix s u assume "fmlookup (sv_users w) s = Some u"
    then show "\<exists>p. fmlookup (sv_channels w) (us_channel u) = Some p \<and> is_prefix_of (ch_scope p) (us_scope u)"
      using same_usersD [OF us, of s u] view_okD(4) [OF assms(1), of s] by (intro up) force
  qed (use same_channelsD [OF ch] same_usersD [OF us] view_okD(1,2) [OF assms(1)] in fastforce)+
qed

lemma same_adjust:
  "(\<And>c. channel_shape (f c) = channel_shape c) \<Longrightarrow> same_channels m (fm_adjust i f m)"
  "(\<And>u. user_shape (g u) = user_shape u) \<Longrightarrow> same_users n (fm_adjust s g n)"
  by (auto simp: same_channels_def same_users_def option.map_comp comp_def)

subsection \<open>The invariant of a render\<close>

definition extends :: "shard_id \<Rightarrow> id_allocator \<Rightarrow> id_allocator \<Rightarrow> bool" where
  "extends shard a a' \<longleftrightarrow>
     (\<forall>k i. allocated_channel a shard k = Some i \<longrightarrow> allocated_channel a' shard k = Some i) \<and>
     (\<forall>w s. allocated_session a w = Some s \<longrightarrow> allocated_session a' w = Some s)"

definition known_users :: "id_allocator \<Rightarrow> user_map \<Rightarrow> bool" where
  "known_users a m \<longleftrightarrow> (\<forall>s u. fmlookup m s = Some u \<longrightarrow> allocated_session a (us_occupant u) = Some s)"

definition overlay_inv :: "id_allocator \<Rightarrow> shard_id \<Rightarrow> shard_view \<Rightarrow> overlay \<Rightarrow> bool" where
  "overlay_inv a shard v ov \<longleftrightarrow>
     (\<forall>i c. fmlookup (ov_channels ov) i = Some c \<longrightarrow> i \<noteq> ROOT_ID \<and> allocated_channel a shard (ch_key c) = Some i) \<and>
     (apart v ov \<longrightarrow> view_ok (compose v ov))"

definition ref_in :: "shard_view \<Rightarrow> channel_ref \<Rightarrow> bool" where
  "ref_in v r \<longleftrightarrow> scope_ok (cr_scope r) \<and> (\<exists>c. fmlookup (sv_channels v) (cr_id r) = Some c \<and> ch_scope c = cr_scope r)"

definition build_inv :: "channel_ref set \<Rightarrow> builder \<Rightarrow> bool" where
  "build_inv C bd \<longleftrightarrow>
     alloc_inv (bd_ids bd) \<and> view_ok (bd_view bd) \<and> (\<forall>r \<in> C. ref_in (bd_view bd) r) \<and>
     (\<forall>i c. fmlookup (sv_channels (bd_view bd)) i = Some c \<longrightarrow> i \<noteq> ROOT_ID \<longrightarrow>
        ch_key c |\<in>| bd_keys_seen bd \<and> allocated_channel (bd_ids bd) (bd_shard bd) (ch_key c) = Some i) \<and>
     (ROOT_ID |\<in>| fmdom (sv_channels (bd_view bd)) \<longleftrightarrow> bd_rooted bd) \<and>
     (\<forall>c. fmlookup (sv_channels (bd_view bd)) ROOT_ID = Some c \<longrightarrow> ch_scope c = ROOT_SCOPE) \<and>
     (\<forall>n ov. fmlookup (bd_overlays bd) n = Some ov \<longrightarrow> overlay_inv (bd_ids bd) (bd_shard bd) (bd_view bd) ov) \<and>
     (bd_error bd = None \<longrightarrow> known_users (bd_ids bd) (sv_users (bd_view bd)) \<and>
        (\<forall>n ov. fmlookup (bd_overlays bd) n = Some ov \<longrightarrow> known_users (bd_ids bd) (ov_users ov)))"

lemma extends_refl [simp]: "extends shard a a"
  by (simp add: extends_def)

lemma extends_trans: "extends shard a b \<Longrightarrow> extends shard b c \<Longrightarrow> extends shard a c"
  by (simp add: extends_def)

lemma extends_channel:
  assumes "alloc_inv a"
  shows "extends shard a (snd (alloc_channel s k a))"
  unfolding extends_def
  using channels.look_stable [OF assms, of "(shard, _)" _ "(s, k)"]
  by (auto simp: alloc_channel_def allocated_session_def split: option.splits)

lemma extends_session:
  assumes "alloc_inv a"
  shows "extends shard a (snd (alloc_session w a))"
  unfolding extends_def
  using sessions.look_stable [OF assms] by (auto simp: alloc_session_def allocated_channel_def split: option.splits)

lemma extends_known: "extends shard a a' \<Longrightarrow> known_users a m \<Longrightarrow> known_users a' m"
  by (auto simp: extends_def known_users_def)

lemma extends_overlay: "extends shard a a' \<Longrightarrow> overlay_inv a shard v ov \<Longrightarrow> overlay_inv a' shard v ov"
  by (auto simp: extends_def overlay_inv_def)

lemma build_inv_new: "alloc_inv ids \<Longrightarrow> build_inv {} (builder_new ids shard cs)"
  by (simp add: build_inv_def builder_new_def known_users_def empty_view_def [symmetric])
    (simp add: empty_view_def)

lemma fail_simps [simp]:
  "bd_ids (fail e bd) = bd_ids bd" "bd_shard (fail e bd) = bd_shard bd" "bd_view (fail e bd) = bd_view bd"
  "bd_overlays (fail e bd) = bd_overlays bd" "bd_keys_seen (fail e bd) = bd_keys_seen bd"
  "bd_occupants_seen (fail e bd) = bd_occupants_seen bd" "bd_rooted (fail e bd) = bd_rooted bd"
  "bd_error (fail e bd) \<noteq> None"
  by (simp_all add: fail_def get_or_insert_def split: option.split)

lemma build_inv_fail: "build_inv C bd \<Longrightarrow> build_inv C (fail e bd)"
  unfolding build_inv_def fail_simps by (simp add: fail_def get_or_insert_def split: option.split)

lemma build_inv_ids:
  assumes "build_inv C bd" and "alloc_inv a" and "extends (bd_shard bd) (bd_ids bd) a"
  shows "build_inv C (bd\<lparr>bd_ids := a\<rparr>)"
  using assms(1,2) extends_known [OF assms(3)] extends_overlay [OF assms(3)] assms(3)
  unfolding build_inv_def extends_def by simp

lemma build_inv_keys:
  "build_inv C bd \<Longrightarrow> build_inv C (bd\<lparr>bd_keys_seen := finsert k (bd_keys_seen bd)\<rparr>)"
  by (simp add: build_inv_def)

lemma build_inv_occupants: "build_inv C bd \<Longrightarrow> build_inv C (bd\<lparr>bd_occupants_seen := X\<rparr>)"
  by (simp add: build_inv_def)

lemma build_inv_audio: "build_inv C bd \<Longrightarrow> build_inv C (bd\<lparr>bd_audio := X\<rparr>)"
  by (simp add: build_inv_def)

lemma build_inv_refs: "build_inv C bd \<Longrightarrow> ref_in (bd_view bd) r \<Longrightarrow> build_inv (insert r C) bd"
  by (simp add: build_inv_def)

lemma build_inv_ref: "build_inv C bd \<Longrightarrow> r \<in> C \<Longrightarrow> ref_in (bd_view bd) r"
  by (simp add: build_inv_def)

lemma narrowed_inv:
  assumes "build_inv C bd" and "scope_ok parent" and "narrowed parent n ctx bd = (sc, bd')"
  shows "build_inv C bd'" and "bd' = bd \<or> sc = None"
    and "sc = Some scope \<Longrightarrow> scope_ok scope \<and> is_prefix_of parent scope"
  using assms build_inv_fail child_ok child_extends
  by (auto simp: narrowed_def split: narrow.splits option.splits)

subsection \<open>The shared view under an overlay\<close>

lemma compose_add_channel:
  "fmlookup (ov_channels ov) i = None \<Longrightarrow> compose (add_channel i c v) ov = add_channel i c (compose v ov)"
  by (auto simp: compose_def intro!: fmap_ext split: option.split)

lemma compose_add_user:
  "fmlookup (ov_users ov) s = None \<Longrightarrow> compose (add_user s u v) ov = add_user s u (compose v ov)"
  by (auto simp: compose_def intro!: fmap_ext split: option.split)

lemma apart_None:
  "apart v ov \<Longrightarrow> fmlookup (sv_channels v) i = Some c \<Longrightarrow> fmlookup (ov_channels ov) i = None"
  "apart v ov \<Longrightarrow> fmlookup (sv_users v) s = Some u \<Longrightarrow> fmlookup (ov_users ov) s = None"
  unfolding apart_def notin_fmdom_iff [symmetric] by (auto dest: fmdomI)

lemma apart_added:
  assumes "apart (add_channel i c v) ov"
  shows "fmlookup (ov_channels ov) i = None" and "apart v ov"
  using apart_None(1) [OF assms, of i c] assms by (auto simp: apart_def)

lemma apart_added_user:
  assumes "apart (add_user s u v) ov"
  shows "fmlookup (ov_users ov) s = None" and "apart v ov"
  using apart_None(2) [OF assms, of s u] assms by (auto simp: apart_def)

lemma overlay_inv_add_channel:
  assumes "overlay_inv a sh v ov" and "fmlookup (sv_channels v) i = None" and "i \<noteq> ROOT_ID" and "ch_id c = i"
    and "fmlookup (sv_channels v) (ch_parent c) = Some p" and "is_prefix_of (ch_scope p) (ch_scope c)"
  shows "overlay_inv a sh (add_channel i c v) ov"
proof -
  have "view_ok (compose (add_channel i c v) ov)" if ap: "apart (add_channel i c v) ov"
  proof -
    note new = apart_added [OF ap]
    have "fmlookup (sv_channels (compose v ov)) (ch_parent c) = Some p"
      using apart_None(1) [OF new(2) assms(5)] assms(5) by (simp add: view_simps)
    then show ?thesis
      unfolding compose_add_channel [OF new(1)]
      using assms(1-4,6) new by (intro view_ok_add_channel) (auto simp: overlay_inv_def view_simps)
  qed
  then show ?thesis using assms(1) by (simp add: overlay_inv_def)
qed

lemma overlay_inv_add_root:
  assumes "overlay_inv a sh v ov" and "ROOT_ID |\<notin>| fmdom (sv_channels v)"
    and "ch_id c = ROOT_ID" and "ch_parent c = ROOT_ID"
  shows "overlay_inv a sh (add_channel ROOT_ID c v) ov"
proof -
  have "view_ok (compose (add_channel ROOT_ID c v) ov)" if ap: "apart (add_channel ROOT_ID c v) ov"
  proof -
    note new = apart_added [OF ap]
    have "ROOT_ID |\<notin>| fmdom (sv_channels (compose v ov))"
      using new(1) assms(2) by (simp add: notin_fmdom_iff view_simps)
    then show ?thesis
      unfolding compose_add_channel [OF new(1)]
      using assms(1,3,4) new(2) by (intro view_ok_add_root) (auto simp: overlay_inv_def)
  qed
  then show ?thesis using assms(1) by (simp add: overlay_inv_def)
qed

lemma overlay_inv_add_user:
  assumes "overlay_inv a sh v ov" and "us_session u = s"
    and "fmlookup (sv_channels v) (us_channel u) = Some p" and "is_prefix_of (ch_scope p) (us_scope u)"
  shows "overlay_inv a sh (add_user s u v) ov"
proof -
  have "view_ok (compose (add_user s u v) ov)" if ap: "apart (add_user s u v) ov"
  proof -
    note new = apart_added_user [OF ap]
    have "fmlookup (sv_channels (compose v ov)) (us_channel u) = Some p"
      using apart_None(1) [OF new(2) assms(3)] assms(3) by (simp add: view_simps)
    then show ?thesis
      unfolding compose_add_user [OF new(1)]
      using assms(1,2,4) new by (intro view_ok_add_user) (auto simp: overlay_inv_def)
  qed
  then show ?thesis using assms(1) by (simp add: overlay_inv_def)
qed

lemma overlay_inv_same:
  assumes "overlay_inv a sh v ov" and "same_channels (sv_channels v) (sv_channels w)"
    and "same_users (sv_users v) (sv_users w)"
  shows "overlay_inv a sh w ov"
proof -
  have "same_channels (sv_channels (compose v ov)) (sv_channels (compose w ov))"
    and "same_users (sv_users (compose v ov)) (sv_users (compose w ov))"
    using assms(2,3) by (auto simp: same_channels_def same_users_def view_simps split: option.splits)
  moreover have "apart w ov \<longleftrightarrow> apart v ov"
    using same_dom(1) [OF assms(2)] same_dom(2) [OF assms(3)] by (simp add: apart_def)
  ultimately show ?thesis using assms(1) view_ok_same by (auto simp: overlay_inv_def)
qed

subsection \<open>Every shared call keeps the invariant\<close>

lemma build_inv_same:
  assumes "build_inv C bd" and ch: "same_channels (sv_channels (bd_view bd)) (sv_channels w)"
    and us: "same_users (sv_users (bd_view bd)) (sv_users w)"
  shows "build_inv C (bd\<lparr>bd_view := w\<rparr>)"
proof -
  have "ref_in w r" if "ref_in (bd_view bd) r" for r
    using that same_channelsD [OF same_sym(1) [OF ch], of "cr_id r"] by (force simp: ref_in_def)
  moreover have "known_users a (sv_users w)" if "known_users a (sv_users (bd_view bd))" for a
    using that same_usersD [OF us] by (fastforce simp: known_users_def)
  moreover have "view_ok w" using assms by (auto simp: build_inv_def intro: view_ok_same)
  moreover have "overlay_inv a sh w ov" if "overlay_inv a sh (bd_view bd) ov" for a sh ov
    using overlay_inv_same [OF that ch us] .
  ultimately show ?thesis
    using assms(1) same_channelsD [OF ch] same_dom(1) [OF ch] unfolding build_inv_def
    by (simp, metis (no_types, lifting))
qed

lemma ref_in_add_channel:
  "ref_in v r \<Longrightarrow> fmlookup (sv_channels v) i = None \<Longrightarrow> ref_in (add_channel i c v) r"
  by (auto simp: ref_in_def)

lemma build_inv_root:
  assumes "build_inv C bd" and "build_root name bd = (r, bd')"
  shows "build_inv (insert r C) bd'"
proof (cases "bd_rooted bd")
  case True
  then have "ref_in (bd_view bd) (ChannelRef ROOT_ID ROOT_SCOPE)"
    using assms(1) by (auto simp: build_inv_def ref_in_def fmlookup_dom_iff)
  then show ?thesis
    using assms True build_inv_refs [OF build_inv_fail [OF assms(1)]] by (auto simp: build_root_def)
next
  case False
  let ?c = "new_channel ROOT_KEY ROOT_ID ROOT_ID ROOT_SCOPE name"
  have c: "ch_id ?c = ROOT_ID" "ch_parent ?c = ROOT_ID" "ch_scope ?c = ROOT_SCOPE" by (simp_all add: new_channel_def)
  have none: "ROOT_ID |\<notin>| fmdom (sv_channels (bd_view bd))" using assms(1) False by (simp add: build_inv_def)
  have "bd' = bd\<lparr>bd_view := add_channel ROOT_ID ?c (bd_view bd), bd_rooted := True\<rparr>"
    and r: "r = ChannelRef ROOT_ID ROOT_SCOPE"
    using assms(2) False c by (auto simp: build_root_def)
  moreover have "ref_in (add_channel ROOT_ID ?c (bd_view bd)) q" if "q = r \<or> q \<in> C" for q
    using that assms(1) none c(3) r ref_in_add_channel [of "bd_view bd" q ROOT_ID ?c]
    by (auto simp: build_inv_def ref_in_def notin_fmdom_iff)
  ultimately show ?thesis
    using assms(1) view_ok_add_root [OF _ none c(1,2)] overlay_inv_add_root [OF _ none c(1,2)] c(3)
    unfolding build_inv_def by simp
qed

lemma build_inv_put_channel:
  assumes inv: "build_inv C bd" and "fmlookup (sv_channels (bd_view bd)) i = None" and "i \<noteq> ROOT_ID"
    and "ch_id c = i" and "ref_in (bd_view bd) p" and "ch_parent c = cr_id p"
    and "is_prefix_of (cr_scope p) (ch_scope c)" and "scope_ok (ch_scope c)" and "ch_key c |\<in>| bd_keys_seen bd"
    and "allocated_channel (bd_ids bd) (bd_shard bd) (ch_key c) = Some i"
  shows "build_inv (insert (ChannelRef i (ch_scope c)) C) (put_channel c bd)"
proof -
  obtain q where q: "fmlookup (sv_channels (bd_view bd)) (ch_parent c) = Some q" "is_prefix_of (ch_scope q) (ch_scope c)"
    using assms(5-7) by (auto simp: ref_in_def)
  have "ref_in (add_channel i c (bd_view bd)) r" if "r = ChannelRef i (ch_scope c) \<or> r \<in> C" for r
    using that inv assms(2,8) ref_in_add_channel [of "bd_view bd" r i c] by (auto simp: build_inv_def ref_in_def)
  then show ?thesis
    using inv view_ok_add_channel [OF _ assms(2-4) q] overlay_inv_add_channel [OF _ assms(2-4) q] assms(3,4,9,10)
    unfolding build_inv_def by simp
qed

lemma build_inv_put_user:
  assumes inv: "build_inv C bd" and "ref_in (bd_view bd) p" and "us_channel u = cr_id p"
    and "is_prefix_of (cr_scope p) (us_scope u)"
    and "bd_error bd = None \<Longrightarrow> allocated_session (bd_ids bd) (us_occupant u) = Some (us_session u)"
  shows "build_inv C (put_user u bd)"
proof -
  obtain q where q: "fmlookup (sv_channels (bd_view bd)) (us_channel u) = Some q" "is_prefix_of (ch_scope q) (us_scope u)"
    using assms(2-4) by (auto simp: ref_in_def)
  have "ref_in (add_user (us_session u) u (bd_view bd)) r" if "ref_in (bd_view bd) r" for r
    using that by (simp add: ref_in_def)
  moreover have "known_users (bd_ids bd) (fmupd (us_session u) u (sv_users (bd_view bd)))"
    if "bd_error bd = None" "known_users (bd_ids bd) (sv_users (bd_view bd))"
    using that assms(5) by (simp add: known_users_def)
  ultimately show ?thesis
    using inv view_ok_add_user [OF _ refl q] overlay_inv_add_user [OF _ refl q]
    unfolding build_inv_def by simp
qed

lemma alloc_channel_facts:
  assumes "alloc_inv a" and "alloc_channel sh k a = (Inr i, a')"
  shows "alloc_inv a'" and "extends sh a a'" and "allocated_channel a' sh k = Some i" and "i \<noteq> ROOT_ID"
proof -
  show inv: "alloc_inv a'" using alloc_inv_channel [OF assms(1), of sh k] assms(2) by simp
  show "extends sh a a'" using extends_channel [OF assms(1), of sh sh k] assms(2) by simp
  show look: "allocated_channel a' sh k = Some i"
    using channels.look_after [OF assms(1), of "(sh, k)"] assms(2) by simp
  then show "i \<noteq> ROOT_ID"
    using inv by (auto simp: alloc_inv_def supply_ok_def allocated_channel_def ROOT_ID_def)
qed

lemma channel_error: "alloc_channel sh k a = (Inl e, a') \<Longrightarrow> a' = a"
  using channels.alloc_error [of "(sh, k)" a e a'] by simp

lemma build_inv_channel:
  assumes inv: "build_inv C bd" and p: "p \<in> C" and call: "build_channel p key name n bd = (r, bd')"
  shows "build_inv (insert r C) bd'"
proof -
  have ref: "ref_in (bd_view bd) p" using build_inv_ref [OF inv p] .
  obtain sc bd1 where n: "narrowed (cr_scope p) n (CtxChannel name) bd = (sc, bd1)" by fastforce
  note nar = narrowed_inv [OF inv _ n]
  have refused: ?thesis if "r = p" "build_inv C bd'"
    using that p by (simp add: insert_absorb)
  show ?thesis
  proof (cases sc)
    case None
    then show ?thesis using call n nar(1) ref by (intro refused) (auto simp: build_channel_def ref_in_def)
  next
    case (Some scope)
    then have bd1: "bd1 = bd" and scope: "scope_ok scope" "is_prefix_of (cr_scope p) scope"
      using nar ref by (auto simp: ref_in_def)
    show ?thesis
    proof (cases "key |\<in>| bd_keys_seen bd")
      case True
      then show ?thesis
        using call n Some bd1 inv by (intro refused) (auto simp: build_channel_def intro: build_inv_fail)
    next
      case new: False
      obtain res a where al: "alloc_channel (bd_shard bd) key (bd_ids bd) = (res, a)" by fastforce
      let ?bd = "bd\<lparr>bd_keys_seen := finsert key (bd_keys_seen bd), bd_ids := a\<rparr>"
      have alloc: "alloc_inv (bd_ids bd)" using inv by (simp add: build_inv_def)
      have inv2: "build_inv C ?bd"
        using build_inv_ids [OF build_inv_keys [OF inv, of key], of a] alloc_inv_channel [OF alloc, of "bd_shard bd" key]
          extends_channel [OF alloc, of "bd_shard bd" "bd_shard bd" key] al by simp
      show ?thesis
      proof (cases res)
        case (Inl e)
        then show ?thesis
          using call n Some bd1 new al inv2 by (intro refused) (auto simp: build_channel_def Let_def intro: build_inv_fail)
      next
        case (Inr i)
        note got = alloc_channel_facts [OF alloc al [unfolded Inr]]
        have "fmlookup (sv_channels (bd_view bd)) i = None"
        proof (rule ccontr)
          assume "fmlookup (sv_channels (bd_view bd)) i \<noteq> None"
          then obtain c where "fmlookup (sv_channels (bd_view bd)) i = Some c" by auto
          then have "ch_key c |\<in>| bd_keys_seen bd" and "allocated_channel (bd_ids bd) (bd_shard bd) (ch_key c) = Some i"
            using inv got(4) by (auto simp: build_inv_def)
          then show False
            using new got(1-3) channels.look_inj [OF got(1), of "(bd_shard bd, ch_key c)" i "(bd_shard bd, key)"]
            by (auto simp: extends_def)
        qed
        then have "build_inv (insert (ChannelRef i scope) C)
            (put_channel (new_channel key i (cr_id p) scope name) ?bd)"
          using build_inv_put_channel [OF inv2, of i "new_channel key i (cr_id p) scope name" p] ref scope got
          by (simp add: new_channel_def)
        moreover have "r = ChannelRef i scope" and "bd' = put_channel (new_channel key i (cr_id p) scope name) ?bd"
          using call n Some bd1 new al Inr by (auto simp: build_channel_def Let_def new_channel_def)
        ultimately show ?thesis by simp
      qed
    qed
  qed
qed

text \<open>Drawing a session number: the allocator moves on, or the render records the refusal.\<close>

definition draw_session :: "occupant \<Rightarrow> builder \<Rightarrow> session_id \<times> builder" where
  "draw_session who bd =
     (case alloc_session who (bd_ids bd) of
        (Inr session, ids) \<Rightarrow> (session, bd\<lparr>bd_ids := ids\<rparr>)
      | (Inl exhausted, ids) \<Rightarrow> (0, fail (BuildExhausted exhausted) (bd\<lparr>bd_ids := ids\<rparr>)))"

lemma session_facts:
  assumes "alloc_inv a" and "alloc_session w a = (res, a')"
  shows "alloc_inv a'" and "extends sh a a'" and "res = Inr s \<Longrightarrow> allocated_session a' w = Some s"
  using assms alloc_inv_session [OF assms(1), of w] extends_session [OF assms(1), of sh w]
    sessions.look_after [OF assms(1), of w] by auto

lemma draw_session_inv:
  assumes inv: "build_inv C bd" and draw: "draw_session who bd = (s, bd')"
  shows "build_inv C bd'" and "bd_error bd' = None \<Longrightarrow> allocated_session (bd_ids bd') who = Some s"
    and "bd_view bd' = bd_view bd"
proof -
  obtain res a where al: "alloc_session who (bd_ids bd) = (res, a)" by fastforce
  have alloc: "alloc_inv (bd_ids bd)" using inv by (simp add: build_inv_def)
  note facts = session_facts [OF alloc al]
  have inv1: "build_inv C (bd\<lparr>bd_ids := a\<rparr>)" using build_inv_ids [OF inv facts(1,2)] .
  show "build_inv C bd'"
    using draw al inv1 build_inv_fail by (auto simp: draw_session_def split: sum.splits)
  show "bd_view bd' = bd_view bd"
    using draw al by (auto simp: draw_session_def split: sum.splits)
  show "bd_error bd' = None \<Longrightarrow> allocated_session (bd_ids bd') who = Some s"
    using draw al facts(3) by (auto simp: draw_session_def split: sum.splits)
qed

lemma build_inv_user:
  assumes inv: "build_inv C bd" and p: "p \<in> C" and call: "build_user p who name n bd = (r, bd')"
  shows "build_inv C bd'"
proof -
  obtain sc bd1 where n: "narrowed (cr_scope p) n (CtxUser name) bd = (sc, bd1)" by fastforce
  have ok: "scope_ok (cr_scope p)" using build_inv_ref [OF inv p] by (simp add: ref_in_def)
  note nar = narrowed_inv [OF inv ok n]
  obtain s bd2 where d: "draw_session who bd1 = (s, bd2)" by fastforce
  note drawn = draw_session_inv [OF nar(1) d]
  define scope where "scope = (case sc of Some s \<Rightarrow> s | None \<Rightarrow> cr_scope p)"
  have pre: "is_prefix_of (cr_scope p) scope" using nar(3) by (auto simp: scope_def split: option.splits)
  let ?u = "new_user who s (cr_id p) scope name"
  have "bd' = (if who |\<in>| bd_occupants_seen bd2 then fail (DuplicateOccupant who) bd2
      else put_user ?u (bd2\<lparr>bd_occupants_seen := finsert who (bd_occupants_seen bd2)\<rparr>))"
    using call n d by (auto simp: build_user_def draw_session_def scope_def Let_def case_prod_beta new_user_def split: if_splits)
  moreover have "build_inv C (put_user ?u (bd2\<lparr>bd_occupants_seen := finsert who (bd_occupants_seen bd2)\<rparr>))"
    using build_inv_put_user [OF build_inv_occupants [OF drawn(1)], where p = p and u = ?u] build_inv_ref [OF drawn(1) p] pre drawn(2)
    by (simp add: new_user_def)
  ultimately show ?thesis using build_inv_fail [OF drawn(1)] by auto
qed

subsection \<open>Private calls\<close>

text \<open>
  The calls a flavor may make on one private builder, with the channels it can name: the shared
  references \<open>C\<close> and the private channels it made in the same closure. A private channel key is
  declared once per overlay; nothing in the code refuses a second declaration.
\<close>

inductive private_calls :: "channel_ref set \<Rightarrow> private_builder \<Rightarrow> channel_ref set \<Rightarrow> private_builder \<Rightarrow> bool"
  for C pb0 where
  pc_start: "private_calls C pb0 C pb0"
| pc_user_in: "private_calls C pb0 P pb \<Longrightarrow> r \<in> P \<Longrightarrow> user_in r who name pb = (u, pb') \<Longrightarrow> private_calls C pb0 P pb'"
| pc_channel: "private_calls C pb0 P pb \<Longrightarrow> r \<in> P \<Longrightarrow>
    \<forall>i c. fmlookup (ov_channels (pb_overlay pb)) i = Some c \<longrightarrow> ch_key c \<noteq> key \<Longrightarrow>
    private_channel r key name pb = (q, pb') \<Longrightarrow> private_calls C pb0 (insert q P) pb'"
| pc_flags: "private_calls C pb0 P pb \<Longrightarrow> private_calls C pb0 P (private_user_flags w flags pb)"
| pc_action: "private_calls C pb0 P pb \<Longrightarrow> private_calls C pb0 P (private_action k text on pb)"

definition private_inv :: "id_allocator \<Rightarrow> build_error option \<Rightarrow> shard_view \<Rightarrow> channel_ref set \<Rightarrow> private_builder \<Rightarrow> bool" where
  "private_inv a e v P pb \<longleftrightarrow>
     alloc_inv (pb_ids pb) \<and> extends (pb_shard pb) a (pb_ids pb) \<and> (e \<noteq> None \<longrightarrow> pb_error pb \<noteq> None) \<and>
     overlay_inv (pb_ids pb) (pb_shard pb) v (pb_overlay pb) \<and>
     (apart v (pb_overlay pb) \<longrightarrow> (\<forall>r \<in> P. ref_in (compose v (pb_overlay pb)) r)) \<and>
     (pb_error pb = None \<longrightarrow> known_users (pb_ids pb) (ov_users (pb_overlay pb)))"

abbreviation put_private_user :: "session_id \<Rightarrow> user \<Rightarrow> overlay \<Rightarrow> overlay" where
  "put_private_user s u ov \<equiv> ov\<lparr>ov_users := fmupd s u (ov_users ov)\<rparr>"

abbreviation put_private_channel :: "channel_id \<Rightarrow> channel \<Rightarrow> overlay \<Rightarrow> overlay" where
  "put_private_channel i c ov \<equiv> ov\<lparr>ov_channels := fmupd i c (ov_channels ov)\<rparr>"

lemma compose_put:
  "compose v (put_private_user s u ov) = add_user s u (compose v ov)"
  "compose v (put_private_channel i c ov) = add_channel i c (compose v ov)"
  by (auto simp: compose_def intro!: fmap_ext split: option.split)

lemma apart_put:
  "apart v (put_private_user s u ov) \<Longrightarrow> apart v ov"
  "apart v (put_private_channel i c ov) \<Longrightarrow> apart v ov"
  "apart v (put_private_channel i c ov) \<Longrightarrow> fmlookup (sv_channels v) i = None"
  unfolding apart_def notin_fmdom_iff [symmetric] by auto

lemma private_fail_simps [simp]:
  "pb_ids (private_fail e pb) = pb_ids pb" "pb_shard (private_fail e pb) = pb_shard pb"
  "pb_overlay (private_fail e pb) = pb_overlay pb" "pb_error (private_fail e pb) \<noteq> None"
  by (simp_all add: private_fail_def get_or_insert_def split: option.split)

lemma private_inv_fail: "private_inv a e v P pb \<Longrightarrow> private_inv a e v P (private_fail x pb)"
  unfolding private_inv_def private_fail_simps by (auto simp: private_fail_def get_or_insert_def split: option.split)

lemma private_inv_ids:
  assumes "private_inv a e v P pb" and "alloc_inv a'" and "extends (pb_shard pb) (pb_ids pb) a'"
  shows "private_inv a e v P (pb\<lparr>pb_ids := a'\<rparr>)"
  using assms(1,2) extends_known [OF assms(3)] extends_overlay [OF assms(3)] extends_trans [OF _ assms(3)]
  unfolding private_inv_def by simp

definition private_draw :: "occupant \<Rightarrow> private_builder \<Rightarrow> session_id \<times> private_builder" where
  "private_draw who pb =
     (case alloc_session who (pb_ids pb) of
        (Inr session, ids) \<Rightarrow> (session, pb\<lparr>pb_ids := ids\<rparr>)
      | (Inl exhausted, ids) \<Rightarrow> (0, private_fail (BuildExhausted exhausted) (pb\<lparr>pb_ids := ids\<rparr>)))"

lemma private_draw_inv:
  assumes inv: "private_inv a e v P pb" and draw: "private_draw who pb = (s, pb')"
  shows "private_inv a e v P pb'" and "pb_error pb' = None \<Longrightarrow> allocated_session (pb_ids pb') who = Some s"
proof -
  obtain res b where al: "alloc_session who (pb_ids pb) = (res, b)" by fastforce
  have alloc: "alloc_inv (pb_ids pb)" using inv by (simp add: private_inv_def)
  note facts = session_facts [OF alloc al]
  have inv1: "private_inv a e v P (pb\<lparr>pb_ids := b\<rparr>)" using private_inv_ids [OF inv facts(1,2)] .
  show "private_inv a e v P pb'"
    using draw al inv1 private_inv_fail by (auto simp: private_draw_def split: sum.splits)
  show "pb_error pb' = None \<Longrightarrow> allocated_session (pb_ids pb') who = Some s"
    using draw al facts(3) by (auto simp: private_draw_def split: sum.splits)
qed

lemma private_inv_user_in:
  assumes inv: "private_inv a e v P pb" and r: "r \<in> P" and call: "user_in r who name pb = (u, pb')"
  shows "private_inv a e v P pb'"
proof -
  obtain s pb1 where d: "private_draw who pb = (s, pb1)" by fastforce
  note drawn = private_draw_inv [OF inv d]
  let ?u = "new_user who s (cr_id r) (cr_scope r) name" and ?ov = "pb_overlay pb1"
  have pb': "pb' = pb1\<lparr>pb_overlay := put_private_user s ?u ?ov\<rparr>"
    using call d by (auto simp: user_in_def private_draw_def Let_def case_prod_beta)
  have "view_ok (compose v (put_private_user s ?u ?ov))" if ap: "apart v ?ov"
  proof -
    have "ref_in (compose v ?ov) r" and "view_ok (compose v ?ov)"
      using drawn(1) r ap by (auto simp: private_inv_def overlay_inv_def)
    then show ?thesis
      unfolding compose_put by (auto simp: ref_in_def new_user_def intro!: view_ok_add_user)
  qed
  moreover have "ref_in (compose v (put_private_user s ?u ?ov)) q" if "apart v ?ov" "q \<in> P" for q
    using drawn(1) that unfolding compose_put by (auto simp: private_inv_def ref_in_def)
  moreover have "known_users (pb_ids pb1) (fmupd s ?u (ov_users ?ov))" if "pb_error pb1 = None"
    using drawn that by (simp add: private_inv_def known_users_def new_user_def)
  ultimately show ?thesis
    using drawn(1) apart_put(1) unfolding pb' private_inv_def overlay_inv_def by auto
qed

lemma private_inv_channel:
  assumes inv: "private_inv a e v P pb" and r: "r \<in> P" and call: "private_channel r key name pb = (q, pb')"
    and new: "\<forall>i c. fmlookup (ov_channels (pb_overlay pb)) i = Some c \<longrightarrow> ch_key c \<noteq> key"
  shows "private_inv a e v (insert q P) pb'"
proof -
  obtain res b where al: "alloc_channel (pb_shard pb) key (pb_ids pb) = (res, b)" by fastforce
  have alloc: "alloc_inv (pb_ids pb)" using inv by (simp add: private_inv_def)
  have inv1: "private_inv a e v P (pb\<lparr>pb_ids := b\<rparr>)"
    using private_inv_ids [OF inv] alloc_inv_channel [OF alloc, of "pb_shard pb" key]
      extends_channel [OF alloc, of "pb_shard pb" "pb_shard pb" key] al by simp
  show ?thesis
  proof (cases res)
    case (Inl x)
    then have "q = r" and "pb' = private_fail (BuildExhausted x) (pb\<lparr>pb_ids := b\<rparr>)"
      using call al by (auto simp: private_channel_def)
    then show ?thesis using private_inv_fail [OF inv1] r by (simp add: insert_absorb)
  next
    case (Inr i)
    note got = alloc_channel_facts [OF alloc al [unfolded Inr]]
    let ?c = "new_channel key i (cr_id r) (cr_scope r) name" and ?ov = "pb_overlay pb"
    have q: "q = ChannelRef i (cr_scope r)"
      and pb': "pb' = pb\<lparr>pb_ids := b, pb_overlay := put_private_channel i ?c ?ov\<rparr>"
      using call al Inr by (auto simp: private_channel_def)
    have fresh: "fmlookup (ov_channels ?ov) i = None"
    proof (rule ccontr)
      assume "fmlookup (ov_channels ?ov) i \<noteq> None"
      then obtain c where c: "fmlookup (ov_channels ?ov) i = Some c" by auto
      then have "allocated_channel b (pb_shard pb) (ch_key c) = Some i"
        using inv1 by (auto simp: private_inv_def overlay_inv_def)
      then have "ch_key c = key"
        using channels.look_inj [OF got(1), of "(pb_shard pb, ch_key c)" i "(pb_shard pb, key)"] got(3) by simp
      then show False using new c by blast
    qed
    have new_i: "fmlookup (sv_channels (compose v ?ov)) i = None" if "apart v (put_private_channel i ?c ?ov)"
      using fresh apart_put(3) [OF that] by (simp add: view_simps)
    have "view_ok (compose v (put_private_channel i ?c ?ov))" if ap: "apart v (put_private_channel i ?c ?ov)"
    proof -
      have "ref_in (compose v ?ov) r" and "view_ok (compose v ?ov)"
        using inv r apart_put(2) [OF ap] by (auto simp: private_inv_def overlay_inv_def)
      then show ?thesis
        unfolding compose_put using new_i [OF ap] got(4)
        by (auto simp: ref_in_def new_channel_def intro!: view_ok_add_channel)
    qed
    moreover have "ref_in (compose v (put_private_channel i ?c ?ov)) p"
      if ap: "apart v (put_private_channel i ?c ?ov)" and p: "p \<in> insert q P" for p
    proof -
      have old: "ref_in (compose v ?ov) p'" if "p' \<in> P" for p'
        using inv that apart_put(2) [OF ap] by (auto simp: private_inv_def)
      show ?thesis
        unfolding compose_put using p q old [OF r] old [of p] new_i [OF ap] ref_in_add_channel [of "compose v ?ov" p i ?c]
        by (auto simp: ref_in_def new_channel_def)
    qed
    moreover have "i \<noteq> ROOT_ID" and "allocated_channel b (pb_shard pb) (ch_key ?c) = Some i"
      using got by (simp_all add: new_channel_def)
    ultimately show ?thesis
      using inv1 unfolding pb' private_inv_def overlay_inv_def by auto
  qed
qed

lemma private_inv_action:
  assumes "private_inv a e v P pb"
  shows "private_inv a e v P (private_action k t on pb)"
proof (cases "MAX_ACTIONS \<le> fcard (fmdom (pb_actions pb)) \<and> \<not> fm_has (pb_actions pb) k")
  case True
  show ?thesis unfolding private_action_def if_P [OF True] by (rule private_inv_fail [OF assms])
next
  case False
  show ?thesis unfolding private_action_def if_not_P [OF False] using assms by (simp add: private_inv_def)
qed

lemma map_option_or:
  "map_option f (case x of None \<Rightarrow> y | Some v \<Rightarrow> Some v) = (case map_option f x of None \<Rightarrow> map_option f y | Some w \<Rightarrow> Some w)"
  by (cases x) simp_all

lemma private_inv_flags:
  assumes "private_inv a e v P pb"
  shows "private_inv a e v P (private_user_flags w flags pb)"
proof -
  let ?us = "ov_users (pb_overlay pb)" and ?f = "\<lambda>u. u\<lparr>us_flags := flags\<rparr>"
  have "same_users ?us (fm_adjust (ur_session w) ?f ?us)"
    by (rule same_adjust) (simp add: user_shape_def)
  then have "same_users (sv_users (compose v (pb_overlay pb)))
      (sv_users (compose v (pb_overlay pb\<lparr>ov_users := fm_adjust (ur_session w) ?f ?us\<rparr>)))"
    unfolding same_users_def compose_lookup map_option_or by (simp del: fmlookup_adjust)
  then have "view_ok (compose v (pb_overlay pb\<lparr>ov_users := fm_adjust (ur_session w) ?f ?us\<rparr>))"
    if "view_ok (compose v (pb_overlay pb))"
    by (rule view_ok_same [OF that, rotated]) (simp add: compose_def)
  moreover have "known_users b (fm_adjust (ur_session w) ?f ?us)" if "known_users b ?us" for b
    using that by (auto simp: known_users_def)
  ultimately show ?thesis
    using assms by (simp add: private_user_flags_def private_inv_def overlay_inv_def apart_def ref_in_def compose_def)
qed

lemma private_calls_inv:
  "private_calls C pb0 P pb \<Longrightarrow> private_inv a e v C pb0 \<Longrightarrow> private_inv a e v P pb \<and> pb_shard pb = pb_shard pb0"
proof (induction rule: private_calls.induct)
  case (pc_user_in P pb r who name u pb')
  then show ?case using private_inv_user_in [of a e v P pb r who name u pb']
    by (auto simp: user_in_def Let_def private_fail_def split: prod.splits sum.splits)
next
  case (pc_channel P pb r key name q pb')
  then show ?case using private_inv_channel [of a e v P pb r key name q pb']
    by (auto simp: private_channel_def private_fail_def split: prod.splits sum.splits)
next
  case (pc_flags P pb w flags)
  then show ?case using private_inv_flags by (simp add: private_user_flags_def)
next
  case (pc_action P pb k t places)
  then show ?case using private_inv_action [of a e v P pb k t places] by (auto simp: private_action_def)
qed simp

end
