(* ===== verification/Render.thy ===== *)
theory Render
  imports Build_Run
begin

text \<open>
  Whole renders: the calls of a flavor in any order, interleaved with requests other shards make
  of the shared allocator, and what \<open>finish\<close> hands to the shard when it accepts the result.
\<close>

fun spares :: "shard_id \<Rightarrow> alloc_request \<Rightarrow> bool" where
  "spares shard (AskChannel s k) = True"
| "spares shard (AskSession w) = True"
| "spares shard (RetainChannels s ks) = (s \<noteq> shard)"
| "spares shard (RetireIds s is) = (s \<noteq> shard)"

inductive rendering :: "builder \<Rightarrow> channel_ref set \<Rightarrow> builder \<Rightarrow> bool" for bd0 where
  r_start: "rendering bd0 {} bd0"
| r_root: "rendering bd0 C bd \<Longrightarrow> build_root name bd = (r, bd') \<Longrightarrow> rendering bd0 (insert r C) bd'"
| r_channel: "rendering bd0 C bd \<Longrightarrow> p \<in> C \<Longrightarrow> build_channel p key name n bd = (r, bd') \<Longrightarrow>
    rendering bd0 (insert r C) bd'"
| r_user: "rendering bd0 C bd \<Longrightarrow> p \<in> C \<Longrightarrow> build_user p who name n bd = (u, bd') \<Longrightarrow> rendering bd0 C bd'"
| r_position: "rendering bd0 C bd \<Longrightarrow> p \<in> C \<Longrightarrow> rendering bd0 C (channel_position p x bd)"
| r_can_enter: "rendering bd0 C bd \<Longrightarrow> p \<in> C \<Longrightarrow> rendering bd0 C (channel_can_enter p yes bd)"
| r_can_text: "rendering bd0 C bd \<Longrightarrow> p \<in> C \<Longrightarrow> rendering bd0 C (channel_can_text p yes bd)"
| r_link: "rendering bd0 C bd \<Longrightarrow> p \<in> C \<Longrightarrow> q \<in> C \<Longrightarrow> rendering bd0 C (channel_link p q bd)"
| r_flags: "rendering bd0 C bd \<Longrightarrow> rendering bd0 C (build_user_flags w flags bd)"
| r_private: "rendering bd0 C bd \<Longrightarrow> private_calls C (private_open c bd) P (f (private_open c bd)) \<Longrightarrow>
    rendering bd0 C (build_private c f bd)"
| r_domain: "rendering bd0 C bd \<Longrightarrow> rendering bd0 C (build_audio_domain d ms bd)"
| r_listen: "rendering bd0 C bd \<Longrightarrow> rendering bd0 C (build_audio_listen l d bd)"
| r_edge: "rendering bd0 C bd \<Longrightarrow> rendering bd0 C (build_audio_edge s t bd)"
| r_others: "rendering bd0 C bd \<Longrightarrow> spares (bd_shard bd) rq \<Longrightarrow>
    rendering bd0 C (bd\<lparr>bd_ids := alloc_step rq (bd_ids bd)\<rparr>)"

lemma alloc_step_extends:
  assumes inv: "alloc_inv a" and "spares shard rq"
  shows "alloc_inv (alloc_step rq a) \<and> extends shard a (alloc_step rq a)"
proof (cases rq)
  case (AskChannel s k)
  then show ?thesis using alloc_inv_channel [OF inv] extends_channel [OF inv] by simp
next
  case (AskSession w)
  then show ?thesis using alloc_inv_session [OF inv] extends_session [OF inv] by simp
next
  case (RetainChannels s ks)
  then show ?thesis
    using alloc_inv_retain [OF inv] assms(2)
    by (simp add: extends_def retain_channels_def allocated_channel_def allocated_session_def)
next
  case (RetireIds s ks)
  then show ?thesis
    using alloc_inv_retire [OF inv] assms(2)
    by (simp add: extends_def retire_channel_ids_def allocated_channel_def allocated_session_def)
qed

lemma overlay_inv_empty: "view_ok v \<Longrightarrow> overlay_inv a sh v empty_overlay"
  unfolding overlay_inv_def compose_empty by (simp add: empty_overlay_def)

lemma private_open_inv:
  assumes "build_inv C bd"
  shows "private_inv (bd_ids bd) (bd_error bd) (bd_view bd) C (private_open c bd)"
proof -
  let ?v = "bd_view bd" and ?pb0 = "private_open c bd"
  have "overlay_inv (bd_ids bd) (bd_shard bd) ?v (pb_overlay ?pb0)"
    using assms overlay_inv_empty
    by (cases "fmlookup (bd_overlays bd) c") (simp_all add: build_inv_def private_open_def fm_get_or_def)
  moreover have "ref_in (compose ?v (pb_overlay ?pb0)) r" if "apart ?v (pb_overlay ?pb0)" "r \<in> C" for r
    using build_inv_ref [OF assms that(2)] apart_None(1) [OF that(1)] by (auto simp: ref_in_def view_simps)
  moreover have "known_users (bd_ids bd) (ov_users (pb_overlay ?pb0))" if "bd_error bd = None"
    using assms that
    by (cases "fmlookup (bd_overlays bd) c")
      (simp_all add: build_inv_def private_open_def fm_get_or_def, simp add: known_users_def empty_overlay_def)
  ultimately show ?thesis using assms by (auto simp: private_inv_def private_open_def build_inv_def)
qed

lemma private_calls_result:
  assumes inv: "build_inv C bd" and calls: "private_calls C (private_open c bd) P pb"
  shows "private_inv (bd_ids bd) (bd_error bd) (bd_view bd) P pb" and "pb_shard pb = bd_shard bd"
  using private_calls_inv [OF calls private_open_inv [OF inv]] by (auto simp: private_open_def)

lemma build_inv_private:
  assumes inv: "build_inv C bd" and calls: "private_calls C (private_open c bd) P (f (private_open c bd))"
  shows "build_inv C (build_private c f bd)"
proof -
  let ?v = "bd_view bd"
  define pb where "pb = f (private_open c bd)"
  have pi: "private_inv (bd_ids bd) (bd_error bd) ?v P pb" and sh: "pb_shard pb = bd_shard bd"
    using private_calls_result [OF inv calls] by (simp_all add: pb_def)
  have ext: "extends (bd_shard bd) (bd_ids bd) (pb_ids pb)" and alloc: "alloc_inv (pb_ids pb)"
    and err: "pb_error pb = None \<Longrightarrow> bd_error bd = None"
    using pi sh by (auto simp: private_inv_def)
  have "build_inv C (bd\<lparr>bd_ids := pb_ids pb\<rparr>)" by (rule build_inv_ids [OF inv alloc ext])
  moreover have "build_private c f bd = (bd\<lparr>bd_ids := pb_ids pb\<rparr>)\<lparr>bd_overlays := fmupd c (pb_overlay pb) (bd_overlays bd),
      bd_actions := fmupd c (pb_actions pb) (bd_actions bd), bd_error := pb_error pb\<rparr>"
    by (simp add: build_private_def pb_def Let_def)
  ultimately show ?thesis
    using pi sh err unfolding build_inv_def private_inv_def by simp
qed

lemma edits_inv:
  assumes "build_inv C bd"
  shows "build_inv C (channel_position p x bd)" and "build_inv C (channel_can_enter p y bd)"
    and "build_inv C (channel_can_text p y bd)" and "build_inv C (channel_link p q bd)"
    and "build_inv C (build_user_flags w flags bd)"
proof -
  have edit: "build_inv C (edit_channel i f b)" if "build_inv C b" "\<And>c. channel_shape (f c) = channel_shape c" for i f b
    using build_inv_same [OF that(1), of "(bd_view b)\<lparr>sv_channels := fm_adjust i f (sv_channels (bd_view b))\<rparr>"]
      same_adjust(1) [OF that(2)] by simp
  show "build_inv C (channel_position p x bd)" "build_inv C (channel_can_enter p y bd)"
    "build_inv C (channel_can_text p y bd)"
    using assms unfolding channel_position_def channel_can_enter_def channel_can_text_def
    by (intro edit; simp add: channel_shape_def)+
  show "build_inv C (channel_link p q bd)"
  proof (cases "comparable (cr_scope p) (cr_scope q)")
    case True
    have "build_inv C (edit_channel (cr_id q) (\<lambda>c. c\<lparr>ch_links := finsert (cr_id p) (ch_links c)\<rparr>)
        (edit_channel (cr_id p) (\<lambda>c. c\<lparr>ch_links := finsert (cr_id q) (ch_links c)\<rparr>) bd))"
      by (rule edit [OF edit [OF assms]]) (simp_all add: channel_shape_def)
    then show ?thesis using True by (simp add: channel_link_def)
  next
    case False
    then show ?thesis using build_inv_fail [OF assms] by (simp add: channel_link_def)
  qed
  show "build_inv C (build_user_flags w flags bd)"
    unfolding build_user_flags_def
    by (rule build_inv_same [OF assms]) (auto intro: same_adjust(2) simp: user_shape_def)
qed

lemma rendering_inv:
  assumes "rendering (builder_new ids shard cs) C bd" and "alloc_inv ids"
  shows "build_inv C bd"
  using assms(1)
proof (induction rule: rendering.induct)
  case r_start
  then show ?case using build_inv_new [OF assms(2)] .
next
  case (r_others C bd rq)
  then show ?case
    using alloc_step_extends [of "bd_ids bd" "bd_shard bd" rq] by (intro build_inv_ids) (auto simp: build_inv_def)
qed (auto intro: build_inv_root build_inv_channel build_inv_user edits_inv build_inv_private build_inv_audio
      simp: build_audio_domain_def build_audio_listen_def build_audio_edge_def)

subsection \<open>What a connection is shown\<close>

lemma view_ok_compose_restrict:
  assumes "view_ok v" and "view_ok (compose v ov)" and "apart v ov"
    and users: "\<And>s u. fmlookup (ov_users ov) s = Some u \<Longrightarrow> in_sight v ov see (us_channel u)"
    and chans: "\<And>i c. fmlookup (ov_channels ov) i = Some c \<Longrightarrow> in_sight v ov see (ch_parent c)"
  shows "view_ok (compose (restrict v see) ov)"
proof -
  let ?w = "compose v ov" and ?w' = "compose (restrict v see) ov"
  have sub: "fmlookup (sv_channels ?w) i = Some c" if "fmlookup (sv_channels ?w') i = Some c" for i c
    using that by (auto simp: view_simps split: option.splits if_splits)
  have sub_users: "fmlookup (sv_users ?w) s = Some u" if "fmlookup (sv_users ?w') s = Some u" for s u
    using that by (auto simp: view_simps split: option.splits if_splits)
  have kept: "fmlookup (sv_channels ?w') i = Some p" if "fmlookup (sv_channels (restrict v see)) i = Some p" for i p
    using that apart_None(1) [OF assms(3), of i p] by (auto simp: view_simps restrict_Some split: option.splits if_splits)
  obtain r where r: "ranked r (sv_channels ?w)" using view_ok_rank [OF assms(2)] ..
  have near: "\<exists>p. fmlookup (sv_channels ?w') j = Some p \<and> is_prefix_of (ch_scope p) sc"
    if "in_sight v ov see j" "\<exists>p. fmlookup (sv_channels ?w) j = Some p \<and> is_prefix_of (ch_scope p) sc" for j sc
    using that sub [of j] unfolding in_sight_def fmlookup_dom_iff by fastforce
  show ?thesis
  proof (rule view_okI [where r = r])
    show "ranked r (sv_channels ?w')" using r sub unfolding ranked_def by blast
  next
    fix i c assume c: "fmlookup (sv_channels ?w') i = Some c"
    show "\<exists>p. fmlookup (sv_channels ?w') (ch_parent c) = Some p \<and> is_prefix_of (ch_scope p) (ch_scope c)"
    proof (cases "fmlookup (ov_channels ov) i")
      case None
      then have "fmlookup (sv_channels (restrict v see)) i = Some c" using c by (simp add: compose_lookup)
      then show ?thesis using view_okD(3) [OF view_ok_restrict [OF assms(1)]] kept by blast
    next
      case (Some d)
      then have "c = d" using c by (simp add: compose_lookup)
      then show ?thesis using near chans [OF Some] view_okD(3) [OF assms(2) sub [OF c]] by blast
    qed
  next
    fix s u assume u: "fmlookup (sv_users ?w') s = Some u"
    show "\<exists>p. fmlookup (sv_channels ?w') (us_channel u) = Some p \<and> is_prefix_of (ch_scope p) (us_scope u)"
    proof (cases "fmlookup (ov_users ov) s")
      case None
      then have "fmlookup (sv_users (restrict v see)) s = Some u" using u by (simp add: compose_lookup)
      then show ?thesis using view_okD(4) [OF view_ok_restrict [OF assms(1)]] kept by blast
    next
      case (Some d)
      then have "u = d" using u by (simp add: compose_lookup)
      then show ?thesis using near users [OF Some] view_okD(4) [OF assms(2) sub_users [OF u]] by blast
    qed
  qed (use sub sub_users view_okD(1,2) [OF assms(2)] in blast)+
qed

lemma finished_render:
  assumes "rendering (builder_new ids shard cs) C bd" and "alloc_inv ids" and "finish obs bd = Inr rd"
  shows "view_ok (rd_view rd)" and "ROOT_ID |\<in>| fmdom (sv_channels (rd_view rd))"
    and "fmlookup (rd_overlays rd) c = Some ov \<Longrightarrow> apart (rd_view rd) ov"
    and "fmlookup (rd_overlays rd) c = Some ov \<Longrightarrow> view_ok (compose (restrict (rd_view rd) (observed obs c)) ov)"
proof -
  have inv: "build_inv C bd" using rendering_inv [OF assms(1,2)] .
  note fin = assms(3) [unfolded finish_iff check_xor_iff check_overlay_iff]
  show "view_ok (rd_view rd)" "ROOT_ID |\<in>| fmdom (sv_channels (rd_view rd))"
    using inv fin by (auto simp: build_inv_def)
  show ap: "apart (rd_view rd) ov" if "fmlookup (rd_overlays rd) c = Some ov" using fin that by auto
  assume ov: "fmlookup (rd_overlays rd) c = Some ov"
  then have "view_ok (compose (bd_view bd) ov)"
    using inv fin by (auto simp: build_inv_def overlay_inv_def)
  then have "view_ok (compose (restrict (bd_view bd) (observed obs c)) ov)"
    using fin ov inv by (intro view_ok_compose_restrict) (auto simp: build_inv_def)
  then show "view_ok (compose (restrict (rd_view rd) (observed obs c)) ov)" using fin by auto
qed

lemma finished_xor_private:
  assumes "build_inv C bd" and "finish obs bd = Inr rd"
  shows "xor_private (bd_view bd) (bd_overlays bd)"
  unfolding xor_private_def
proof (intro allI impI, rule ccontr)
  fix r s
  assume pr: "sees_privately (privately_of (bd_overlays bd)) r s"
    and "fmlookup (shared_scopes_of (bd_view bd)) s \<noteq> None"
  then obtain sc where "fmlookup (shared_scopes_of (bd_view bd)) s = Some sc" by auto
  then obtain k u where u: "fmlookup (sv_users (bd_view bd)) k = Some u" "us_occupant u = Connection s"
    using shared_scope_user by blast
  obtain ov k' u' where ov: "fmlookup (bd_overlays bd) r = Some ov" "fmlookup (ov_users ov) k' = Some u'"
      "us_occupant u' = Connection s"
    using pr unfolding sees_privately_iff by blast
  have "apart (bd_view bd) ov" and "bd_error bd = None"
    using assms(2) ov(1) unfolding finish_iff check_xor_iff by auto
  then have "allocated_session (bd_ids bd) (Connection s) = Some k" and "allocated_session (bd_ids bd) (Connection s) = Some k'"
    using assms(1) u ov unfolding build_inv_def known_users_def by metis+
  then show False using apart_None(2) [OF \<open>apart (bd_view bd) ov\<close> u(1)] ov(2) by simp
qed

lemma can_see_shown:
  assumes "can_see r s (shared_scopes_of v) (privately_of ovs) obs" and "\<And>ov. fmlookup ovs r = Some ov \<Longrightarrow> apart v ov"
  shows "\<exists>k u. fmlookup (sv_users (compose (restrict v (observed obs r)) (fm_get_or empty_overlay ovs r))) k = Some u \<and>
     us_occupant u = Connection s"
proof (cases "sees_privately (privately_of ovs) r s")
  case True
  then obtain ov k u where "fmlookup ovs r = Some ov" "fmlookup (ov_users ov) k = Some u" "us_occupant u = Connection s"
    unfolding sees_privately_iff by blast
  then show ?thesis by (intro exI [of _ k] exI [of _ u]) (simp add: fm_get_or_def view_simps)
next
  case False
  then obtain sc where "fmlookup (shared_scopes_of v) s = Some sc" "sees (observed obs r) sc"
    using assms(1) by (auto simp: can_see_def split: option.splits)
  then obtain k u where u: "fmlookup (sv_users v) k = Some u" "us_occupant u = Connection s" "sees (observed obs r) (us_scope u)"
    using shared_scope_user by blast
  then have "fmlookup (ov_users (fm_get_or empty_overlay ovs r)) k = None"
    using apart_None(2) [OF assms(2) u(1)]
    by (cases "fmlookup ovs r") (simp_all add: fm_get_or_def, simp add: empty_overlay_def)
  then show ?thesis using u by (intro exI [of _ k] exI [of _ u]) (simp add: view_simps)
qed

lemma rendering_fold:
  assumes "\<And>x bd. x \<in> set xs \<Longrightarrow> rendering bd0 C bd \<Longrightarrow> rendering bd0 C (f x bd)" and "rendering bd0 C bd"
  shows "rendering bd0 C (fold f xs bd)"
  using assms by (induction xs arbitrary: bd) auto

end
