(* ===== verification/Shard_Inv.thy ===== *)
theory Shard_Inv
  imports Shard Render
begin

text \<open>
  The invariant of a shard under every command and every turn: the version is the head of the
  journal, no cursor is ahead of it, the voice plane reads the committed cursor, every attached
  connection keeps the session it was given, and the view is well formed.
\<close>

subsection \<open>Handing a transition over\<close>

definition transition_messages :: "plan_op list \<Rightarrow> actions \<Rightarrow> attached \<Rightarrow> control_message list" where
  "transition_messages ops acts at = emit ops (at_session at) @ emit_actions (at_actions_sent at) acts"

definition extended :: "'m list \<Rightarrow> 'm outbound_queue \<Rightarrow> 'm outbound_queue" where
  "extended ms q = q\<lparr>qu_messages := qu_messages q @ ms\<rparr>"

lemma extended_fields [simp]:
  "qu_messages (extended ms q) = qu_messages q @ ms" "qu_must_close (extended ms q) = qu_must_close q"
  "extended [] q = q"
  by (simp_all add: extended_def)

lemma hand_over_cases:
  assumes "queue_ok (at_queue at)"
  obtains (sent) ret where
      "hand_over ops head see ov acts at = ((Advanced, ret), commit head see ov acts
         (at\<lparr>at_queue := extended (transition_messages ops acts at) (at_queue at)\<rparr>))"
      "ret |\<subseteq>| retired_channels ops" "queue_ok (extended (transition_messages ops acts at) (at_queue at))"
  | (kept) res fatal where
      "hand_over ops head see ov acts at = ((res, {||}), at\<lparr>at_queue := (at_queue at)\<lparr>qu_must_close := fatal\<rparr>\<rparr>)"
      "res \<noteq> Advanced" "transition_messages ops acts at \<noteq> []"
proof (cases "transition_messages ops acts at = []")
  case True
  then show ?thesis using sent [of "{||}"] assms
    by (simp add: hand_over_def transition_messages_def)
next
  case False
  let ?ms = "transition_messages ops acts at" and ?q = "at_queue at"
  consider (big) "qu_capacity ?q < length ?ms" | (gone) "\<not> qu_capacity ?q < length ?ms" "qu_gone ?q"
    | (full) "\<not> qu_capacity ?q < length ?ms" "\<not> qu_gone ?q" "free_slots ?q < length ?ms"
    | (room) "\<not> qu_capacity ?q < length ?ms" "\<not> qu_gone ?q" "\<not> free_slots ?q < length ?ms"
    by blast
  then show ?thesis
  proof cases
    case room
    then have "queue_ok (extended ?ms ?q)" using assms by (auto simp: queue_ok_def free_slots_def extended_def)
    then show ?thesis
      using sent [of "retired_channels ops"] False room
      unfolding hand_over_def transition_messages_def [symmetric] Let_def try_send_all_cases [OF assms]
      by (simp add: extended_def)
  next
    case full
    then show ?thesis
      using kept [of OutCongested "qu_must_close ?q"] False
      unfolding hand_over_def transition_messages_def [symmetric] Let_def try_send_all_cases [OF assms] by simp
  next
    case big
    then show ?thesis
      using kept [of OutClose True] False
      unfolding hand_over_def transition_messages_def [symmetric] Let_def try_send_all_cases [OF assms] by simp
  next
    case gone
    then show ?thesis
      using kept [of OutClose True] False
      unfolding hand_over_def transition_messages_def [symmetric] Let_def try_send_all_cases [OF assms] by simp
  qed
qed

lemma commit_fields [simp]:
  "at_id (commit n see ov acts at) = at_id at" "at_session (commit n see ov acts at) = at_session at"
  "at_cursor (commit n see ov acts at) = n" "at_see (commit n see ov acts at) = see"
  "at_overlay_sent (commit n see ov acts at) = ov" "at_actions_sent (commit n see ov acts at) = acts"
  "at_held (commit n see ov acts at) = None" "at_queue (commit n see ov acts at) = at_queue at"
  "at_shared_cursor (commit n see ov acts at) = n"
  by (simp_all add: commit_def)

subsection \<open>The invariant of a connection\<close>

definition attached_inv :: "id_allocator \<Rightarrow> u64 \<Rightarrow> connection_id \<Rightarrow> attached \<Rightarrow> bool" where
  "attached_inv ids version c at \<longleftrightarrow>
     at_id at = c \<and> allocated_session ids (Connection c) = Some (at_session at) \<and> at_cursor at \<le> version \<and>
     at_shared_cursor at = at_cursor at \<and> queue_ok (at_queue at)"

lemma attached_inv_mono: "attached_inv ids v c at \<Longrightarrow> v \<le> v' \<Longrightarrow> attached_inv ids v' c at"
  by (auto simp: attached_inv_def)

lemma attached_inv_hand_over:
  assumes "attached_inv ids v c at" and "head \<le> v'" and "v \<le> v'"
  shows "attached_inv ids v' c (snd (hand_over ops head see ov acts at))"
proof -
  have q: "queue_ok (at_queue at)" using assms(1) by (simp add: attached_inv_def)
  show ?thesis
  proof (rule hand_over_cases [OF q, of ops head see ov acts])
    fix ret
    assume "hand_over ops head see ov acts at = ((Advanced, ret), commit head see ov acts
       (at\<lparr>at_queue := extended (transition_messages ops acts at) (at_queue at)\<rparr>))"
      and "queue_ok (extended (transition_messages ops acts at) (at_queue at))"
    then show ?thesis using assms(1,2) by (simp add: attached_inv_def)
  next
    fix res fatal
    assume "hand_over ops head see ov acts at = ((res, {||}), at\<lparr>at_queue := (at_queue at)\<lparr>qu_must_close := fatal\<rparr>\<rparr>)"
    then show ?thesis using attached_inv_mono [OF assms(1,3)] by (simp add: attached_inv_def queue_ok_def)
  qed
qed

lemma attached_inv_push:
  assumes "attached_inv ids v c at" and "head \<le> v'" and "v \<le> v'"
  shows "attached_inv ids v' c (snd (push j head ov acts at))"
  unfolding push_def Let_def
  using attached_inv_hand_over [OF assms] attached_inv_mono [OF assms(1,3)] by (simp split: sum.split)

lemma attached_inv_serve:
  assumes "attached_inv ids v c at" and "head \<le> v'" and "v \<le> v'"
  shows "attached_inv ids v' c (snd (serve obs rd prev j head moved at))"
  unfolding serve_def Let_def replan_def
  using attached_inv_hand_over [OF assms] attached_inv_push [OF assms] by simp

subsection \<open>Speech touches queues and nothing else\<close>

definition queue_step :: "attached \<Rightarrow> attached \<Rightarrow> bool" where
  "queue_step at at' \<longleftrightarrow> at' = at\<lparr>at_queue := at_queue at'\<rparr> \<and>
     (queue_ok (at_queue at) \<longrightarrow> queue_ok (at_queue at') \<and>
        (\<exists>ms. qu_messages (at_queue at') = qu_messages (at_queue at) @ ms))"

definition quiet :: "'l shard \<Rightarrow> 'l shard \<Rightarrow> bool" where
  "quiet sh sh' \<longleftrightarrow>
     sh'\<lparr>sh_logic := sh_logic sh, sh_connections := sh_connections sh, sh_out := sh_out sh\<rparr> = sh \<and>
     (\<forall>c. rel_option queue_step (fmlookup (sh_connections sh) c) (fmlookup (sh_connections sh') c))"

lemma queue_step_refl [simp]: "queue_step at at"
  by (simp add: queue_step_def)

lemma queue_step_trans:
  assumes "queue_step a b" and "queue_step b c"
  shows "queue_step a c"
proof -
  have "c = a\<lparr>at_queue := at_queue c\<rparr>"
    using assms unfolding queue_step_def by (metis attached.update_convs(10) attached.surjective)
  then show ?thesis using assms unfolding queue_step_def by (metis append_assoc)
qed

lemma quiet_refl [simp]: "quiet sh sh"
  by (simp add: quiet_def option.rel_refl)

lemma quiet_trans:
  assumes "quiet a b" and "quiet b c"
  shows "quiet a c"
proof -
  have "c\<lparr>sh_logic := sh_logic a, sh_connections := sh_connections a, sh_out := sh_out a\<rparr> = a"
    using assms unfolding quiet_def by (cases a; cases b; cases c) auto
  moreover have "rel_option queue_step (fmlookup (sh_connections a) k) (fmlookup (sh_connections c) k)" for k
  proof -
    have ab: "rel_option queue_step (fmlookup (sh_connections a) k) (fmlookup (sh_connections b) k)"
      and bc: "rel_option queue_step (fmlookup (sh_connections b) k) (fmlookup (sh_connections c) k)"
      using assms by (simp_all add: quiet_def)
    then show ?thesis
      by (cases "fmlookup (sh_connections a) k"; cases "fmlookup (sh_connections b) k"; cases "fmlookup (sh_connections c) k")
        (auto intro: queue_step_trans)
  qed
  ultimately show ?thesis by (simp add: quiet_def)
qed

lemma queue_step_send: "queue_step at (at\<lparr>at_queue := snd (try_send_all ms (at_queue at))\<rparr>)"
proof -
  have "\<exists>ns. qu_messages (snd (try_send_all ms q)) = qu_messages q @ ns" if "queue_ok q" for q :: out_queue
    using that by (auto simp: try_send_all_cases)
  then show ?thesis using queue_ok_send by (auto simp: queue_step_def)
qed

lemma quiet_send: "quiet sh (send_to c ms sh)"
  using queue_step_send by (auto simp: quiet_def send_to_def option.rel_map option.rel_refl)

lemma quiet_logic: "quiet sh (sh\<lparr>sh_logic := l\<rparr>)"
  by (simp add: quiet_def option.rel_refl)

lemma quiet_answer: "quiet sh (answer at m sh)"
  by (simp add: answer_def quiet_send)

lemma quiet_words: "quiet sh (deliver_words e sh)"
  by (auto simp: deliver_words_def quiet_send split: prod.split option.split)

lemma quiet_effect: "quiet sh (route_effect e sh)"
  by (auto simp: route_effect_def quiet_def option.rel_refl)

lemma quiet_fold: "(\<And>x s. quiet s (f x s)) \<Longrightarrow> quiet s (fold f xs s)"
  by (induction xs arbitrary: s) (auto intro: quiet_trans)

lemma quiet_fold_option:
  assumes step: "\<And>x s s'. f x s = Some s' \<Longrightarrow> quiet s s'"
  shows "fold_option f xs s = Some s' \<Longrightarrow> quiet s s'"
proof (induction xs arbitrary: s)
  case (Cons x xs)
  then obtain t where "f x s = Some t" "fold_option f xs t = Some s'" by (auto split: option.splits)
  then show ?case using Cons.IH step quiet_trans by blast
qed simp

lemma quiet_deliver_one: "deliver_one sp speaker target at sh = Some sh' \<Longrightarrow> quiet sh sh'"
  by (auto simp: deliver_one_def quiet_send split: if_splits option.splits bool.splits)

lemma quiet_deliver: "deliver sp sh = Some sh' \<Longrightarrow> quiet sh sh'"
  using quiet_fold_option [of "deliver_one sp _ _", OF quiet_deliver_one]
  by (auto simp: deliver_def Let_def split: if_splits option.splits)

lemma quiet_tell:
  assumes "tell lg ev sh = Some sh'"
  shows "quiet sh sh'"
proof -
  obtain l rp where o: "lg_observe lg (sh_logic sh) ev reply_default = (l, rp)" by fastforce
  let ?s1 = "fold deliver_words (items (rp_words rp)) (sh\<lparr>sh_logic := l\<rparr>)"
  obtain s2 where s2: "fold_option deliver (rp_spoken rp) ?s1 = Some s2"
    and sh': "sh' = fold route_effect (rp_effects rp) s2"
    using assms o
    by (auto simp: tell_def Let_def drain_def drain_spoken_def drain_effects_def split: option.splits)
  have "quiet sh ?s1" using quiet_trans [OF quiet_logic quiet_fold [of deliver_words, OF quiet_words]] .
  moreover have "quiet ?s1 s2" using quiet_fold_option [of deliver, OF quiet_deliver s2] by simp
  moreover have "quiet s2 sh'" unfolding sh' by (rule quiet_fold) (rule quiet_effect)
  ultimately show ?thesis using quiet_trans by blast
qed

subsection \<open>The invariant of a shard\<close>

definition shard_inv :: "'l shard \<Rightarrow> bool" where
  "shard_inv sh \<longleftrightarrow>
     alloc_inv (sh_ids sh) \<and> journal_ok (sh_journal sh) \<and> jn_head (sh_journal sh) = sh_version sh \<and>
     view_ok (sh_view sh) \<and>
     (\<forall>c at. fmlookup (sh_connections sh) c = Some at \<longrightarrow> attached_inv (sh_ids sh) (sh_version sh) c at)"

lemma shard_inv_new: "alloc_inv ids \<Longrightarrow> shard_inv (with_ids i l ids)"
  by (simp add: shard_inv_def with_ids_def journal_ok_new) (simp add: journal_new_def)

lemma quietD:
  assumes "quiet sh sh'"
  shows "sh_id sh' = sh_id sh" "sh_ids sh' = sh_ids sh" "sh_view sh' = sh_view sh" "sh_journal sh' = sh_journal sh"
    "sh_version sh' = sh_version sh" "sh_since sh' = sh_since sh" "sh_routing sh' = sh_routing sh"
    "sh_session_of sh' = sh_session_of sh" "fmdom (sh_connections sh') = fmdom (sh_connections sh)"
    and "fmlookup (sh_connections sh') c = Some at' \<Longrightarrow>
      \<exists>at. fmlookup (sh_connections sh) c = Some at \<and> queue_step at at'"
proof -
  have eq: "sh = sh'\<lparr>sh_logic := sh_logic sh, sh_connections := sh_connections sh, sh_out := sh_out sh\<rparr>"
    and rel: "\<And>c. rel_option queue_step (fmlookup (sh_connections sh) c) (fmlookup (sh_connections sh') c)"
    using assms by (simp_all add: quiet_def)
  show "sh_id sh' = sh_id sh" "sh_ids sh' = sh_ids sh" "sh_view sh' = sh_view sh" "sh_journal sh' = sh_journal sh"
    "sh_version sh' = sh_version sh" "sh_since sh' = sh_since sh" "sh_routing sh' = sh_routing sh"
    "sh_session_of sh' = sh_session_of sh"
    by (subst eq, simp)+
  have "fmlookup (sh_connections sh') k = None \<longleftrightarrow> fmlookup (sh_connections sh) k = None" for k
    using rel [of k] by (cases "fmlookup (sh_connections sh) k"; cases "fmlookup (sh_connections sh') k") auto
  then show "fmdom (sh_connections sh') = fmdom (sh_connections sh)"
    by (auto simp: notin_fmdom_iff [symmetric])
  show "\<exists>at. fmlookup (sh_connections sh) c = Some at \<and> queue_step at at'" if "fmlookup (sh_connections sh') c = Some at'"
    using rel [of c] that by (cases "fmlookup (sh_connections sh) c") auto
qed

lemma attached_inv_queue_step: "attached_inv ids v c at \<Longrightarrow> queue_step at at' \<Longrightarrow> attached_inv ids v c at'"
proof -
  assume inv: "attached_inv ids v c at" and st: "queue_step at at'"
  then obtain q where "at' = at\<lparr>at_queue := q\<rparr>" "queue_ok q" by (auto simp: queue_step_def attached_inv_def)
  then show ?thesis using inv by (simp add: attached_inv_def)
qed

lemma shard_inv_quiet:
  assumes inv: "shard_inv sh" and q: "quiet sh sh'"
  shows "shard_inv sh'"
proof -
  have "attached_inv (sh_ids sh') (sh_version sh') c at'" if l: "fmlookup (sh_connections sh') c = Some at'" for c at'
  proof -
    obtain at where "fmlookup (sh_connections sh) c = Some at" and st: "queue_step at at'"
      using quietD(10) [OF q l] by blast
    then have "attached_inv (sh_ids sh) (sh_version sh) c at" using inv by (simp add: shard_inv_def)
    then show ?thesis using attached_inv_queue_step st by (simp add: quietD [OF q])
  qed
  then show ?thesis using inv by (simp add: shard_inv_def quietD [OF q])
qed

lemma attached_inv_extends:
  "attached_inv ids v c at \<Longrightarrow> extends s ids ids' \<Longrightarrow> attached_inv ids' v c at"
  by (auto simp: attached_inv_def extends_def)

lemma shard_inv_attach:
  assumes inv: "shard_inv sh" and "queue_ok q" and call: "attach lg c q cursor held ready sh = Some sh'"
  shows "shard_inv sh'"
proof -
  obtain res ids where al: "alloc_session (Connection c) (sh_ids sh) = (res, ids)" by fastforce
  have alloc: "alloc_inv (sh_ids sh)" using inv by (simp add: shard_inv_def)
  note facts = session_facts [OF alloc al]
  show ?thesis
  proof (cases res)
    case (Inl e)
    then have "sh' = sh\<lparr>sh_ids := ids, sh_out := sh_out sh @ [AttachRefused c (mark_fatal q)]\<rparr>"
      using call al by (simp add: attach_def)
    then show ?thesis
      using inv facts(1) attached_inv_extends [OF _ facts(2)] by (simp add: shard_inv_def)
  next
    case (Inr s)
    let ?at = "\<lparr>at_id = c, at_session = s, at_cursor = sh_version sh, at_see = NONE_SET,
        at_overlay_sent = empty_overlay, at_actions_sent = fmempty, at_held = Some held,
        at_ready = ready, at_ready_sent = False, at_queue = q, at_shared_cursor = sh_version sh\<rparr>"
    let ?sh = "sh\<lparr>sh_ids := ids, sh_connections := fmupd c ?at (sh_connections sh)\<rparr>"
    have "attached_inv ids (sh_version sh) c ?at" using facts(3) [OF Inr] assms(2) by (simp add: attached_inv_def)
    then have "shard_inv ?sh"
      using inv facts(1) attached_inv_extends [OF _ facts(2)] by (simp add: shard_inv_def)
    moreover have "quiet ?sh sh'" using call al Inr by (intro quiet_tell [of lg "Connected c"]) (simp add: attach_def Let_def)
    ultimately show ?thesis by (rule shard_inv_quiet)
  qed
qed

lemma shard_inv_out: "shard_inv (sh\<lparr>sh_out := out\<rparr>) = shard_inv sh"
  by (simp add: shard_inv_def)

lemma shard_inv_detach:
  assumes inv: "shard_inv sh" and call: "detach lg c reason handover sh = Some sh'"
  shows "shard_inv sh'"
proof (cases "fmlookup (sh_connections sh) c")
  case None
  then show ?thesis using call inv by (simp add: detach_def)
next
  case (Some at)
  let ?sh = "sh\<lparr>sh_connections := fmdrop c (sh_connections sh)\<rparr>"
  have drop: "shard_inv ?sh" using inv by (simp add: shard_inv_def)
  obtain out ev where "tell lg ev (?sh\<lparr>sh_out := out\<rparr>) = Some sh'"
    using call Some by (auto simp: detach_def Let_def split: option.splits)
  then have "quiet (?sh\<lparr>sh_out := out\<rparr>) sh'" by (rule quiet_tell)
  moreover have "shard_inv (?sh\<lparr>sh_out := out\<rparr>)" using drop unfolding shard_inv_out .
  ultimately show ?thesis by (rule shard_inv_quiet [rotated])
qed

lemma shard_inv_told:
  assumes "shard_inv sh" and "sh' = sh \<or> (\<exists>ev. tell lg ev sh = Some sh')"
  shows "shard_inv sh'"
  using assms shard_inv_quiet [OF assms(1)] quiet_tell [of lg _ sh sh'] by blast

lemma attached_inv_retire:
  "attached_inv (retire_channel_ids s is a) v c at = attached_inv a v c at"
  "attached_inv (retain_channels s ks a) v c at = attached_inv a v c at"
  by (simp_all add: attached_inv_def allocated_session_def retire_channel_ids_def retain_channels_def)

lemma shard_inv_retry: "shard_inv sh \<Longrightarrow> shard_inv (retry c sh)"
proof (cases "fmlookup (sh_connections sh) c")
  case (Some at)
  assume inv: "shard_inv sh"
  let ?p = "push (sh_journal sh) (jn_head (sh_journal sh)) (at_overlay_sent at) (at_actions_sent at) at"
  have "attached_inv (sh_ids sh) (sh_version sh) c (snd ?p)"
    using inv Some by (intro attached_inv_push) (auto simp: shard_inv_def)
  then show ?thesis
    using inv Some by (auto simp: retry_def shard_inv_def attached_inv_retire alloc_inv_retire case_prod_beta)
qed (simp add: retry_def shard_inv_def alloc_inv_retire attached_inv_retire)

fun command_ok :: "shard_command \<Rightarrow> bool" where
  "command_ok (Attach _ q _ _ _) = queue_ok q"
| "command_ok _ = True"

lemma shard_inv_handle:
  assumes inv: "shard_inv sh" and "command_ok cmd" and call: "handle lg cmd sh = Some sh'"
  shows "shard_inv sh'"
proof (cases cmd)
  case (Attach c q cursor held ready)
  then show ?thesis using shard_inv_attach [OF inv] assms(2) call by auto
next
  case (Detach c reason handover)
  then show ?thesis using shard_inv_detach [OF inv] call by auto
next
  case (Drained c)
  then show ?thesis using shard_inv_retry [OF inv] call by auto
next
  case (Requested c i)
  then have "sh' = sh \<or> (\<exists>ev. tell lg ev sh = Some sh')"
    using call by (auto simp: requested_channel_def split: option.splits)
  then show ?thesis by (rule shard_inv_told [OF inv])
next
  case (AskedSelfState c m d)
  then have "sh' = sh \<or> (\<exists>ev. tell lg ev sh = Some sh')"
    using call by (auto simp: requested_self_state_def split: if_splits)
  then show ?thesis by (rule shard_inv_told [OF inv])
next
  case (QueriedPermissions c i)
  then have "quiet sh sh'"
    using call quiet_answer by (auto simp: queried_permissions_def split: option.splits)
  then show ?thesis by (rule shard_inv_quiet [OF inv])
next
  case (QueriedUserStats c t)
  then have "quiet sh sh'"
    using call quiet_answer by (auto simp: queried_user_stats_def split: option.splits)
  then show ?thesis by (rule shard_inv_quiet [OF inv])
next
  case (Invoked c act s i)
  then have "sh' = sh \<or> (\<exists>ev. tell lg ev sh = Some sh')"
    using call by (auto simp: invoked_def split: option.splits)
  then show ?thesis by (rule shard_inv_told [OF inv])
next
  case (Wrote c t msg)
  then have "quiet sh sh'"
    using call quiet_answer quiet_tell [of lg _ sh sh'] by (auto simp: said_def split: option.splits if_splits)
  then show ?thesis by (rule shard_inv_quiet [OF inv])
qed

end
