(* ===== verification/Shard_Turn.thy ===== *)
theory Shard_Turn
  imports Shard_Inv Refinement
begin

text \<open>
  The reconcile turn. The contract of a flavor is the locale \<open>flavor\<close>: whatever it renders, it
  renders through the builder. Under it a turn keeps the invariant of the shard, a refused render
  leaves everything but the flavor and the allocator alone, and a connection that is not behind
  is led from what its client holds to what the new render wants it to hold.
\<close>

subsection \<open>A render only adds to the allocator\<close>

lemma narrowed_ids:
  "narrowed p n ctx bd = (sc, bd') \<Longrightarrow> bd_ids bd' = bd_ids bd \<and> bd_shard bd' = bd_shard bd"
  by (auto simp: narrowed_def split: narrow.splits option.splits)

lemma build_channel_ids:
  assumes "alloc_inv (bd_ids bd)" and "build_channel p key name n bd = (r, bd')"
  shows "extends s (bd_ids bd) (bd_ids bd') \<and> bd_shard bd' = bd_shard bd"
proof -
  obtain sc bd1 where n: "narrowed (cr_scope p) n (CtxChannel name) bd = (sc, bd1)" by fastforce
  note same = narrowed_ids [OF n]
  obtain res a where al: "alloc_channel (bd_shard bd) key (bd_ids bd) = (res, a)" by fastforce
  have "extends s (bd_ids bd) a" using extends_channel [OF assms(1), of s "bd_shard bd" key] al by simp
  then show ?thesis
    using assms(2) n same al
    by (auto simp: build_channel_def Let_def split: option.splits if_splits sum.splits)
qed

lemma draw_session_ids:
  assumes "alloc_inv (bd_ids bd)" and "draw_session who bd = (x, bd')"
  shows "extends s (bd_ids bd) (bd_ids bd') \<and> bd_shard bd' = bd_shard bd"
proof -
  obtain res a where al: "alloc_session who (bd_ids bd) = (res, a)" by fastforce
  have "extends s (bd_ids bd) a" using extends_session [OF assms(1), of s who] al by simp
  then show ?thesis using assms(2) al by (auto simp: draw_session_def split: sum.splits)
qed

lemma build_user_ids:
  assumes "alloc_inv (bd_ids bd)" and "build_user p who name n bd = (r, bd')"
  shows "extends s (bd_ids bd) (bd_ids bd') \<and> bd_shard bd' = bd_shard bd"
proof -
  obtain sc bd1 where n: "narrowed (cr_scope p) n (CtxUser name) bd = (sc, bd1)" by fastforce
  obtain x bd2 where d: "draw_session who bd1 = (x, bd2)" by fastforce
  have "bd_ids bd' = bd_ids bd2 \<and> bd_shard bd' = bd_shard bd2"
    using assms(2) n d by (auto simp: build_user_def draw_session_def Let_def case_prod_beta split: if_splits)
  moreover have "extends s (bd_ids bd1) (bd_ids bd2) \<and> bd_shard bd2 = bd_shard bd1"
    using draw_session_ids [OF _ d] assms(1) narrowed_ids [OF n] by simp
  ultimately show ?thesis using narrowed_ids [OF n] by simp
qed

lemma rendering_extends:
  assumes "rendering (builder_new ids shard cs) C bd" and "alloc_inv ids"
  shows "extends shard ids (bd_ids bd) \<and> bd_shard bd = shard"
  using assms(1)
proof (induction rule: rendering.induct)
  case r_start
  then show ?case by (simp add: builder_new_def)
next
  case (r_root C bd name r bd')
  then show ?case by (auto simp: build_root_def split: if_splits)
next
  case (r_channel C bd p key name n r bd')
  have "alloc_inv (bd_ids bd)" using rendering_inv [OF r_channel(1) assms(2)] by (simp add: build_inv_def)
  then show ?case using build_channel_ids [OF _ r_channel(3)] r_channel.IH extends_trans by blast
next
  case (r_user C bd p who name n u bd')
  have "alloc_inv (bd_ids bd)" using rendering_inv [OF r_user(1) assms(2)] by (simp add: build_inv_def)
  then show ?case using build_user_ids [OF _ r_user(3)] r_user.IH extends_trans by blast
next
  case (r_link C bd p q)
  then show ?case by (simp add: channel_link_def Let_def)
next
  case (r_private C bd c P f)
  have "private_inv (bd_ids bd) (bd_error bd) (bd_view bd) P (f (private_open c bd))"
    and "pb_shard (f (private_open c bd)) = bd_shard bd"
    using private_calls_result [OF rendering_inv [OF r_private(1) assms(2)] r_private(2)] .
  then show ?case using r_private.IH extends_trans by (auto simp: build_private_def Let_def private_inv_def)
next
  case (r_others C bd rq)
  have "alloc_inv (bd_ids bd)" using rendering_inv [OF r_others(1) assms(2)] by (simp add: build_inv_def)
  then show ?case using alloc_step_extends [OF _ r_others(2)] r_others.IH extends_trans by auto
qed (simp_all add: channel_position_def channel_can_enter_def channel_can_text_def build_user_flags_def
      build_audio_domain_def build_audio_listen_def build_audio_edge_def)

subsection \<open>Every connection is served once\<close>

definition served ::
    "observations \<Rightarrow> rendered \<Rightarrow> shard_view \<Rightarrow> journal \<Rightarrow> u64 \<Rightarrow> connection_id fset \<Rightarrow> attached \<Rightarrow> attached" where
  "served obs rd prev j head moved at =
     (case serve obs rd prev j head moved at of ((res, _), at') \<Rightarrow>
        if res = OutClose then at'\<lparr>at_queue := mark_fatal (at_queue at')\<rparr> else at')"

lemma serve_step_connections:
  "tn_connections (serve_step obs rd prev j head moved (c, at) t) =
     fmupd c (served obs rd prev j head moved at) (tn_connections t)"
  by (simp add: serve_step_def served_def Let_def case_prod_beta)

lemma fold_serve_lookup:
  assumes "distinct (map fst xs)"
  shows "fmlookup (tn_connections (fold (serve_step obs rd prev j head moved) xs t)) c =
     (case map_of xs c of Some at \<Rightarrow> Some (served obs rd prev j head moved at) | None \<Rightarrow> fmlookup (tn_connections t) c)"
  using assms
proof (induction xs arbitrary: t)
  case (Cons x xs)
  obtain k at where x: "x = (k, at)" by fastforce
  have "map_of xs k = None" using Cons.prems x by (simp add: map_of_eq_None_iff)
  then show ?case using Cons x by (auto simp: serve_step_connections split: option.splits)
qed simp

lemma map_of_items: "map_of (items m) k = fmlookup m k"
proof (cases "fmlookup m k")
  case None
  then show ?thesis by (simp add: map_of_eq_None_iff) (force simp: iter_simps)
next
  case (Some v)
  have "map_of (items m) k = Some v" by (rule map_of_is_SomeI) (simp_all add: Some iter_simps)
  then show ?thesis using Some by simp
qed

lemma attached_inv_served:
  assumes "attached_inv ids v c at" and "head \<le> v'" and "v \<le> v'"
  shows "attached_inv ids v' c (served obs rd prev j head moved at)"
proof -
  have "attached_inv ids v' c (snd (serve obs rd prev j head moved at))" by (rule attached_inv_serve [OF assms])
  then show ?thesis
    by (auto simp: served_def case_prod_beta attached_inv_def queue_ok_fatal)
qed

lemma publish_routing_keeps:
  "publish_routing rd changed sh = (b, sh') \<Longrightarrow>
     sh_id sh' = sh_id sh \<and> sh_ids sh' = sh_ids sh \<and> sh_view sh' = sh_view sh \<and> sh_journal sh' = sh_journal sh \<and>
     sh_version sh' = sh_version sh \<and> sh_connections sh' = sh_connections sh \<and> sh_since sh' = sh_since sh \<and>
     sh_logic sh' = sh_logic sh \<and> sh_out sh' = sh_out sh"
  by (auto simp: publish_routing_def Let_def split: prod.splits if_splits)

abbreviation next_version :: "planned_op list \<Rightarrow> 'l shard \<Rightarrow> u64" where
  "next_version ops sh \<equiv> (if ops \<noteq> [] then saturating_add (sh_version sh) 1 else sh_version sh)"

abbreviation next_journal :: "planned_op list \<Rightarrow> 'l shard \<Rightarrow> journal" where
  "next_journal ops sh \<equiv> (if ops \<noteq> [] then snd (journal_push ops (sh_journal sh)) else sh_journal sh)"

lemma advance_fields:
  assumes "advance obs rd ops moved sh = (rp, sh')"
  shows "sh_id sh' = sh_id sh" "sh_view sh' = rd_view rd" "sh_version sh' = next_version ops sh"
    "sh_journal sh' = next_journal ops sh" "sh_logic sh' = sh_logic sh"
    and "\<exists>retired. sh_ids sh' = retire_channel_ids (sh_id sh) retired
          (retain_channels (sh_id sh) (retained_channels rd) (sh_ids sh))"
    and "fmlookup (sh_connections sh') c = map_option
          (served obs rd (sh_view sh) (next_journal ops sh) (next_version ops sh) (fset_of_list moved))
          (fmlookup (sh_connections sh) c)"
    and "rr_version rp = next_version ops sh" "rr_published rp \<longleftrightarrow> ops \<noteq> []" "rr_replanned rp = moved" "rr_refused rp = None"
proof -
  let ?sh1 = "sh\<lparr>sh_version := next_version ops sh, sh_journal := next_journal ops sh, sh_view := rd_view rd,
      sh_ids := retain_channels (sh_id sh) (retained_channels rd) (sh_ids sh)\<rparr>"
  obtain changed since where d: "date_sessions (next_version ops sh) (fkeys (sv_users (rd_view rd))) (sh_since sh) = (changed, since)"
    by fastforce
  obtain b sh2 where p: "publish_routing rd changed (?sh1\<lparr>sh_since := since\<rparr>) = (b, sh2)" by fastforce
  note keep = publish_routing_keeps [OF p, simplified]
  let ?t = "fold (serve_step obs rd (sh_view sh) (next_journal ops sh) (next_version ops sh) (fset_of_list moved))
      (items (sh_connections sh)) \<lparr>tn_connections = sh_connections sh, tn_closed = [], tn_retired = {||}\<rparr>"
  have adv: "sh' = sh2\<lparr>sh_connections := tn_connections ?t,
       sh_ids := retire_channel_ids (sh_id sh2) (tn_retired ?t) (sh_ids sh2)\<rparr>"
    and rp: "rr_version rp = sh_version sh2 \<and> (rr_published rp \<longleftrightarrow> ops \<noteq> []) \<and> rr_replanned rp = moved \<and> rr_refused rp = None"
    using assms d p keep by (cases "ops = []"; auto simp: advance_def Let_def)+
  show "sh_id sh' = sh_id sh" "sh_view sh' = rd_view rd" "sh_version sh' = next_version ops sh"
    "sh_journal sh' = next_journal ops sh" "sh_logic sh' = sh_logic sh"
    "rr_version rp = next_version ops sh" "rr_published rp \<longleftrightarrow> ops \<noteq> []" "rr_replanned rp = moved" "rr_refused rp = None"
    "\<exists>retired. sh_ids sh' = retire_channel_ids (sh_id sh) retired
          (retain_channels (sh_id sh) (retained_channels rd) (sh_ids sh))"
    using adv rp keep by auto
  show "fmlookup (sh_connections sh') c = map_option
          (served obs rd (sh_view sh) (next_journal ops sh) (next_version ops sh) (fset_of_list moved))
          (fmlookup (sh_connections sh) c)"
    using adv fold_serve_lookup [OF distinct_fkeys [of "sh_connections sh"], of obs rd "sh_view sh" "next_journal ops sh"
        "next_version ops sh" "fset_of_list moved" "\<lparr>tn_connections = sh_connections sh, tn_closed = [], tn_retired = {||}\<rparr>" c]
    by (simp add: map_of_items split: option.splits)
qed

subsection \<open>Turns of a flavor that renders through the builder\<close>

locale flavor =
  fixes lg :: "'l logic"
  assumes renders: "alloc_inv ids \<Longrightarrow> lg_render lg l (builder_new ids shard cs) = (l', bd) \<Longrightarrow>
    \<exists>C. rendering (builder_new ids shard cs) C bd"
begin

text \<open>
  The three ways a turn ends: the render is refused, nothing is owed to anybody, or the shard
  advances. In all of them the flavor's state and the allocator have moved.
\<close>

lemma reconcile_cases:
  assumes "shard_inv sh" and "reconcile lg sh = (rp, sh')"
  obtains (refused) l ids e where "sh' = sh\<lparr>sh_logic := l, sh_ids := ids\<rparr>" "shard_inv (sh\<lparr>sh_logic := l, sh_ids := ids\<rparr>)"
      "rr_refused rp = Some e"
  | (idle) l ids rd obs where "sh' = sh\<lparr>sh_logic := l, sh_ids := ids\<rparr>" "shard_inv (sh\<lparr>sh_logic := l, sh_ids := ids\<rparr>)"
      "rr_refused rp = None" "\<not> rr_published rp" "plan (sh_view sh) (rd_view rd) = []" "moved_of obs (sh_connections sh) = []"
      "\<not> overlays_changed rd (sh_connections sh)" "\<not> actions_changed rd (sh_connections sh)"
  | (advanced) l bd C rd obs where "shard_inv (sh\<lparr>sh_logic := l, sh_ids := bd_ids bd\<rparr>)"
      "rendering (builder_new (sh_ids sh) (sh_id sh) (fkeys (sh_connections sh))) C bd" "finish obs bd = Inr rd"
      "advance obs rd (plan (sh_view sh) (rd_view rd)) (moved_of obs (sh_connections sh)) (sh\<lparr>sh_logic := l, sh_ids := bd_ids bd\<rparr>) = (rp, sh')"
proof -
  let ?cs = "fkeys (sh_connections sh)" and ?bd0 = "builder_new (sh_ids sh) (sh_id sh) (fkeys (sh_connections sh))"
  obtain l1 obs where o: "observe_all lg ?cs (sh_logic sh) = (l1, obs)" by fastforce
  obtain l bd where r: "lg_render lg l1 ?bd0 = (l, bd)" by fastforce
  let ?sh = "sh\<lparr>sh_logic := l, sh_ids := bd_ids bd\<rparr>"
  have alloc: "alloc_inv (sh_ids sh)" using assms(1) by (simp add: shard_inv_def)
  obtain C where C: "rendering ?bd0 C bd" using renders [OF alloc r] ..
  have ext: "extends (sh_id sh) (sh_ids sh) (bd_ids bd)" using rendering_extends [OF C alloc] by simp
  have "alloc_inv (bd_ids bd)" using rendering_inv [OF C alloc] by (simp add: build_inv_def)
  then have inv: "shard_inv ?sh" using assms(1) attached_inv_extends [OF _ ext] by (simp add: shard_inv_def)
  show ?thesis
  proof (cases "finish obs bd")
    case (Inl e)
    then show ?thesis
      using assms(2) o r inv by (intro refused [where l = l and ids = "bd_ids bd" and e = e]) (auto simp: reconcile_def Let_def)
  next
    case (Inr rd)
    show ?thesis
    proof (cases "plan (sh_view sh) (rd_view rd) = [] \<and> moved_of obs (sh_connections sh) = [] \<and>
        \<not> overlays_changed rd (sh_connections sh) \<and> \<not> actions_changed rd (sh_connections sh)")
      case True
      then have "rp = report_default\<lparr>rr_version := sh_version sh\<rparr>" "sh' = ?sh"
        using assms(2) o r Inr by (auto simp: reconcile_def Let_def)
      then show ?thesis using True inv by (intro idle [where l = l and ids = "bd_ids bd" and rd = rd and obs = obs]) (auto simp: report_default_def)
    next
      case False
      then have "advance obs rd (plan (sh_view sh) (rd_view rd)) (moved_of obs (sh_connections sh)) ?sh = (rp, sh')"
        using assms(2) o r Inr by (auto simp: reconcile_def Let_def split: if_splits)
      then show ?thesis using advanced [OF inv C Inr] by simp
    qed
  qed
qed

lemma shard_inv_reconcile:
  assumes inv: "shard_inv sh" and room: "unat (sh_version sh) < 2 ^ 64 - 1" and call: "reconcile lg sh = (rp, sh')"
  shows "shard_inv sh'"
  using inv call
proof (cases rule: reconcile_cases)
  case (advanced l bd C rd obs)
  let ?sh = "sh\<lparr>sh_logic := l, sh_ids := bd_ids bd\<rparr>" and ?ops = "plan (sh_view sh) (rd_view rd)"
  note f = advance_fields [OF advanced(4)]
  have alloc: "alloc_inv (sh_ids sh)" using inv by (simp add: shard_inv_def)
  have head: "jn_head (sh_journal sh) = sh_version sh" using inv by (simp add: shard_inv_def)
  have up: "sh_version sh \<le> next_version ?ops ?sh"
    using unat_succ [OF room] by (simp add: word_le_nat_alt)
  have "journal_ok (next_journal ?ops ?sh)"
    using inv room journal_ok_push [of "sh_journal sh" ?ops] head by (auto simp: shard_inv_def)
  moreover have "jn_head (next_journal ?ops ?sh) = next_version ?ops ?sh"
    using head by (simp add: journal_push_def Let_def case_prod_beta)
  moreover have "view_ok (rd_view rd)" by (rule finished_render(1) [OF advanced(2) alloc advanced(3)])
  moreover have "alloc_inv (sh_ids sh')" using f(6) alloc_inv_retire alloc_inv_retain advanced(1) by (auto simp: shard_inv_def)
  moreover have "attached_inv (sh_ids sh') (sh_version sh') c at'" if l: "fmlookup (sh_connections sh') c = Some at'" for c at'
  proof -
    obtain at where at: "fmlookup (sh_connections sh) c = Some at"
      and at': "at' = served obs rd (sh_view sh) (next_journal ?ops ?sh) (next_version ?ops ?sh)
        (fset_of_list (moved_of obs (sh_connections sh))) at"
      using l f(7) [of c] by auto
    have "attached_inv (bd_ids bd) (sh_version sh) c at" using advanced(1) at by (simp add: shard_inv_def)
    then have "attached_inv (bd_ids bd) (next_version ?ops ?sh) c at'"
      unfolding at' by (intro attached_inv_served [OF _ order_refl up]) simp
    then show ?thesis using f(3,6) by (auto simp: attached_inv_retire)
  qed
  ultimately show ?thesis unfolding shard_inv_def f(2,3,4) by simp
qed simp_all

end

end
