(* ===== verification/Arena.thy ===== *)
theory Arena
  imports Shard_Turn
begin

text \<open>
  The reference application, \<open>runtime/reference/arena/src\<close>: the directory of who is who, the
  lobby and the arena as flavors of the shard. The state two flavors share behind a lock in the
  source is part of each flavor's state here, the inbox of the lobby is the list of updates
  waiting in it.
\<close>

subsection \<open>The directory\<close>

record member =
  mb_name :: string
  mb_staff :: bool

record directory =
  di_members :: "(connection_id, member) fmap"
  di_voice :: "(connection_id, user_flags) fmap"

definition directory_new :: directory where
  "directory_new = \<lparr>di_members = fmempty, di_voice = fmempty\<rparr>"

definition directory_record :: "connection_id \<Rightarrow> member \<Rightarrow> directory \<Rightarrow> directory" where
  "directory_record connection m d = d\<lparr>di_members := fmupd connection m (di_members d)\<rparr>"

definition directory_forget :: "connection_id \<Rightarrow> directory \<Rightarrow> directory" where
  "directory_forget connection d = d\<lparr>di_members := fmdrop connection (di_members d), di_voice := fmdrop connection (di_voice d)\<rparr>"

definition set_self_state :: "connection_id \<Rightarrow> bool option \<Rightarrow> bool option \<Rightarrow> directory \<Rightarrow> directory" where
  "set_self_state connection mute deaf d =
     (let entry = fm_get_or default_flags (di_voice d) connection;
          entry = (case mute of Some b \<Rightarrow> entry\<lparr>fl_self_mute := b\<rparr> | None \<Rightarrow> entry);
          entry = (case deaf of Some b \<Rightarrow> entry\<lparr>fl_self_deaf := b\<rparr> | None \<Rightarrow> entry)
      in d\<lparr>di_voice := fmupd connection entry (di_voice d)\<rparr>)"

definition directory_flags :: "directory \<Rightarrow> connection_id \<Rightarrow> user_flags" where
  "directory_flags d connection = fm_get_or default_flags (di_voice d) connection"

definition directory_member :: "directory \<Rightarrow> connection_id \<Rightarrow> member option" where
  "directory_member d connection = fmlookup (di_members d) connection"

definition directory_name :: "directory \<Rightarrow> connection_id \<Rightarrow> string" where
  "directory_name d connection =
     (case directory_member d connection of None \<Rightarrow> ''unknown-'' @ decimal (unat connection) | Some m \<Rightarrow> mb_name m)"

definition is_staff :: "directory \<Rightarrow> connection_id \<Rightarrow> bool" where
  "is_staff d connection = (case directory_member d connection of None \<Rightarrow> False | Some m \<Rightarrow> mb_staff m)"

record destinations =
  de_lobby :: "shard_id option"
  de_arena :: "shard_id option"

definition once :: "'a \<Rightarrow> 'a option \<Rightarrow> 'a option" where
  "once x cell = (case cell of None \<Rightarrow> Some x | Some y \<Rightarrow> Some y)"

definition set_lobby :: "shard_id \<Rightarrow> destinations \<Rightarrow> destinations" where
  "set_lobby s d = d\<lparr>de_lobby := once s (de_lobby d)\<rparr>"

definition set_arena :: "shard_id \<Rightarrow> destinations \<Rightarrow> destinations" where
  "set_arena s d = d\<lparr>de_arena := once s (de_arena d)\<rparr>"

subsection \<open>Sides, intents and choices\<close>

datatype side = Red | Blue

fun side_segment :: "side \<Rightarrow> u32" where
  "side_segment Red = 1"
| "side_segment Blue = 2"

definition RED_BASE :: channel_key where "RED_BASE = 10"
definition BLUE_BASE :: channel_key where "BLUE_BASE = 11"
definition DECK :: channel_key where "DECK = 12"
definition NEUTRAL :: channel_key where "NEUTRAL = 13"
definition BACK :: channel_key where "BACK = 14"
definition OVERWATCH_BASE :: u64 where "OVERWATCH_BASE = push_bit 32 1"
definition RED_VOICE :: domain_id where "RED_VOICE = 1"
definition BLUE_VOICE :: domain_id where "BLUE_VOICE = 2"
definition DECK_VOICE :: domain_id where "DECK_VOICE = 3"
definition DECK_SEGMENT :: u32 where "DECK_SEGMENT = 3"

fun side_base :: "side \<Rightarrow> channel_key" where
  "side_base Red = RED_BASE"
| "side_base Blue = BLUE_BASE"

datatype intent = Undecided | Join side | Spectate

fun as_side :: "intent \<Rightarrow> side option" where
  "as_side (Join s) = Some s"
| "as_side _ = None"

type_synonym choices = "(connection_id, intent) fmap"

definition choices_get :: "choices \<Rightarrow> connection_id \<Rightarrow> intent" where
  "choices_get ch connection = fm_get_or Undecided ch connection"

subsection \<open>The lobby\<close>

definition LOBBY_RED :: channel_key where "LOBBY_RED = 1"
definition LOBBY_BLUE :: channel_key where "LOBBY_BLUE = 2"
definition LOBBY_SPECTATE :: channel_key where "LOBBY_SPECTATE = 3"
definition LOBBY_ENTER :: channel_key where "LOBBY_ENTER = 4"
definition JOIN_ACTION :: action_key where "JOIN_ACTION = 1"
definition LOBBY_VOICE :: domain_id where "LOBBY_VOICE = 1"

datatype lobby_update = Counter u64

record lobby =
  lo_directory :: directory
  lo_destinations :: destinations
  lo_waiting :: "(connection_id, intent) fmap"
  lo_chosen :: choices
  lo_updates :: "lobby_update list"
  lo_counter :: u64

definition lobby_intent :: "lobby \<Rightarrow> connection_id \<Rightarrow> intent" where
  "lobby_intent st connection = fm_get_or Undecided (lo_waiting st) connection"

definition drain_updates :: "lobby \<Rightarrow> lobby" where
  "drain_updates st = st\<lparr>lo_counter := fold (\<lambda>u n. case u of Counter k \<Rightarrow> k) (lo_updates st) (lo_counter st), lo_updates := []\<rparr>"

definition place :: "channel_ref \<Rightarrow> directory \<Rightarrow> connection_id \<Rightarrow> builder \<Rightarrow> builder" where
  "place channel d connection bd =
     (let (user, bd) = build_user channel (Connection connection) (directory_name d connection) Same bd
      in build_user_flags user (directory_flags d connection) bd)"

definition lobby_place :: "channel_ref \<Rightarrow> channel_ref \<Rightarrow> channel_ref \<Rightarrow> channel_ref \<Rightarrow> directory \<Rightarrow> connection_id \<times> intent \<Rightarrow> builder \<Rightarrow> builder" where
  "lobby_place root red blue spectate d e bd = (case e of (connection, i) \<Rightarrow>
     place (case i of Undecided \<Rightarrow> root | Join Red \<Rightarrow> red | Join Blue \<Rightarrow> blue | Spectate \<Rightarrow> spectate) d connection bd)"

definition lobby_render :: "lobby \<Rightarrow> builder \<Rightarrow> lobby \<times> builder" where
  "lobby_render st bd =
     (let st = drain_updates st;
          (root, bd) = build_root (''Mumble Server Runtime Arena | update '' @ decimal (unat (lo_counter st))) bd;
          (red, bd) = build_channel root LOBBY_RED ''Red Team'' Same bd;
          (blue, bd) = build_channel root LOBBY_BLUE ''Blue Team'' Same bd;
          (spectate, bd) = build_channel root LOBBY_SPECTATE ''Spectators'' Same bd;
          (enter, bd) = build_channel root LOBBY_ENTER ''> Enter the Arena'' Same bd;
          bd = channel_position red 1 bd;
          bd = channel_position blue 2 bd;
          bd = channel_position spectate 3 bd;
          bd = channel_position enter 4 bd;
          bd = channel_can_text enter False bd;
          bd = fold (\<lambda>connection. build_private connection (private_action JOIN_ACTION ''Enter the Arena'' ON_SERVER))
                 (fkeys (lo_waiting st)) bd;
          bd = fold (lobby_place root red blue spectate (lo_directory st)) (items (lo_waiting st)) bd
      in (st, build_audio_domain LOBBY_VOICE (fkeys (lo_waiting st)) bd))"

definition observe_scopes :: "scope list \<Rightarrow> scope_set" where
  "observe_scopes ss = (case scope_set_new ss of Inr see \<Rightarrow> see | Inl _ \<Rightarrow> NONE_SET)"

definition lobby_observation :: "lobby \<Rightarrow> connection_id \<Rightarrow> lobby \<times> scope_set" where
  "lobby_observation st connection = (st, observe_scopes [ROOT_SCOPE])"

definition lobby_choose :: "connection_id \<Rightarrow> intent \<Rightarrow> lobby \<Rightarrow> lobby" where
  "lobby_choose connection i st =
     st\<lparr>lo_waiting := fmupd connection i (lo_waiting st), lo_chosen := fmupd connection i (lo_chosen st)\<rparr>"

definition lobby_enter :: "connection_id \<Rightarrow> lobby \<Rightarrow> reply \<Rightarrow> lobby \<times> reply" where
  "lobby_enter connection st out =
     (let st = st\<lparr>lo_chosen := fmupd connection (lobby_intent st connection) (lo_chosen st)\<rparr>
      in case de_arena (lo_destinations st) of
           Some arena \<Rightarrow>
             let out = say connection ''Entering the arena.'' out;
                 out = announce (AudTree ROOT_KEY)
                   (directory_name (lo_directory st) connection @ '' has entered the arena.'') out
             in (st, switch connection arena out)
         | None \<Rightarrow> (st, refuse connection ''The arena is not running yet.'' out))"

definition lobby_requested :: "connection_id \<Rightarrow> channel_key \<Rightarrow> lobby \<Rightarrow> reply \<Rightarrow> lobby \<times> reply" where
  "lobby_requested connection key st out =
     (if key = LOBBY_RED then (lobby_choose connection (Join Red) st, out)
      else if key = LOBBY_BLUE then (lobby_choose connection (Join Blue) st, out)
      else if key = LOBBY_SPECTATE then (lobby_choose connection Spectate st, out)
      else if key = LOBBY_ENTER then lobby_enter connection st out
      else (lobby_choose connection Undecided st, out))"

fun lobby_observe :: "lobby \<Rightarrow> voice_event \<Rightarrow> reply \<Rightarrow> lobby \<times> reply" where
  "lobby_observe st (Connected c) out =
     (st\<lparr>lo_waiting := fmupd c (choices_get (lo_chosen st) c) (lo_waiting st)\<rparr>, out)"
| "lobby_observe st (Disconnected c _) out =
     (st\<lparr>lo_waiting := fmdrop c (lo_waiting st), lo_chosen := fmdrop c (lo_chosen st),
         lo_directory := directory_forget c (lo_directory st)\<rparr>, out)"
| "lobby_observe st (Migrated c _) out = (st\<lparr>lo_waiting := fmdrop c (lo_waiting st)\<rparr>, out)"
| "lobby_observe st (RequestedChannel c key) out = lobby_requested c key st out"
| "lobby_observe st (InvokedAction c act _) out =
     (if act = JOIN_ACTION then lobby_requested c LOBBY_ENTER st out else (st, out))"
| "lobby_observe st (RequestedSelfState c mute deaf) out =
     (st\<lparr>lo_directory := set_self_state c mute deaf (lo_directory st)\<rparr>, out)"
| "lobby_observe st (Said c aud text) out = (st, relay c aud text out)"

definition lobby_logic :: "lobby logic" where
  "lobby_logic = \<lparr>lg_render = lobby_render, lg_observation = lobby_observation, lg_observe = lobby_observe\<rparr>"

subsection \<open>The arena\<close>

datatype role = Player side | Spectator | Admin "side option"

record arena =
  an_directory :: directory
  an_destinations :: destinations
  an_chosen :: choices
  an_roles :: "(connection_id, role) fmap"

definition members_of :: "(connection_id, role) fmap \<Rightarrow> side \<Rightarrow> connection_id list" where
  "members_of roles s = map fst (filter (\<lambda>(_, role). role = Player s) (items roles))"

definition spectators :: "(connection_id, role) fmap \<Rightarrow> connection_id list" where
  "spectators roles = map fst (filter (\<lambda>(_, role). role = Spectator) (items roles))"

definition admins :: "(connection_id, role) fmap \<Rightarrow> (connection_id \<times> side option) list" where
  "admins roles = filter_map (\<lambda>(connection, role). case role of Admin addressing \<Rightarrow> Some (connection, addressing) | _ \<Rightarrow> None) (items roles)"

definition child_or_root :: "u32 \<Rightarrow> scope" where
  "child_or_root segment = (case child ROOT_SCOPE segment of Some s \<Rightarrow> s | None \<Rightarrow> ROOT_SCOPE)"

definition side_scope :: "side \<Rightarrow> scope" where
  "side_scope s = child_or_root (side_segment s)"

definition deck_scope :: scope where
  "deck_scope = child_or_root DECK_SEGMENT"

definition watcher_view :: scope_set where
  "watcher_view = observe_scopes [side_scope Red, side_scope Blue, deck_scope]"

definition arena_place :: "channel_ref \<Rightarrow> channel_ref \<Rightarrow> channel_ref \<Rightarrow> directory \<Rightarrow> connection_id \<times> role \<Rightarrow> builder \<Rightarrow> builder" where
  "arena_place red blue deck d e bd = (case e of (connection, role) \<Rightarrow>
     (case role of
        Player Red \<Rightarrow> place red d connection bd
      | Player Blue \<Rightarrow> place blue d connection bd
      | Spectator \<Rightarrow> place deck d connection bd
      | Admin _ \<Rightarrow> bd))"

definition overwatch_key :: "connection_id \<Rightarrow> channel_key" where
  "overwatch_key admin = OVERWATCH_BASE + admin"

definition overwatch :: "channel_ref \<Rightarrow> directory \<Rightarrow> connection_id \<Rightarrow> private_builder \<Rightarrow> private_builder" where
  "overwatch root d admin pb =
     (let (room, pb) = private_channel root (overwatch_key admin) ''Overwatch'' pb;
          (user, pb) = user_in room (Connection admin) (directory_name d admin @ '' (vanished)'') pb
      in private_user_flags user (directory_flags d admin) pb)"

definition staff_presence :: "channel_ref \<Rightarrow> directory \<Rightarrow> connection_id \<Rightarrow> private_builder \<Rightarrow> private_builder" where
  "staff_presence base d admin pb =
     (let (user, pb) = user_in base (Connection admin) (''[Staff] '' @ directory_name d admin) pb
      in private_user_flags user (directory_flags d admin) pb)"

definition address_member :: "channel_ref \<Rightarrow> directory \<Rightarrow> connection_id \<Rightarrow> connection_id \<Rightarrow> builder \<Rightarrow> builder" where
  "address_member base d admin member bd =
     build_audio_edge admin member (build_private member (staff_presence base d admin) bd)"

definition arena_admin ::
    "channel_ref \<Rightarrow> channel_ref \<Rightarrow> channel_ref \<Rightarrow> (connection_id, role) fmap \<Rightarrow> directory \<Rightarrow> connection_id \<times> side option \<Rightarrow> builder \<Rightarrow> builder" where
  "arena_admin root red blue roles d e bd = (case e of (admin, addressing) \<Rightarrow>
     let bd = build_private admin (overwatch root d admin) bd;
         bd = build_audio_listen admin RED_VOICE bd;
         bd = build_audio_listen admin BLUE_VOICE bd;
         bd = build_audio_listen admin DECK_VOICE bd
     in case addressing of
          None \<Rightarrow> bd
        | Some s \<Rightarrow>
            let base = (case s of Red \<Rightarrow> red | Blue \<Rightarrow> blue)
            in fold (address_member base d admin) (members_of roles s) bd)"

definition arena_listen :: "connection_id \<Rightarrow> builder \<Rightarrow> builder" where
  "arena_listen spectator bd = build_audio_listen spectator BLUE_VOICE (build_audio_listen spectator RED_VOICE bd)"

definition arena_render :: "arena \<Rightarrow> builder \<Rightarrow> arena \<times> builder" where
  "arena_render st bd =
     (let (root, bd) = build_root ''The Arena'' bd;
          (red, bd) = build_channel root RED_BASE ''Red Base'' (Into (side_segment Red)) bd;
          (blue, bd) = build_channel root BLUE_BASE ''Blue Base'' (Into (side_segment Blue)) bd;
          (deck, bd) = build_channel root DECK ''Observation Deck'' (Into DECK_SEGMENT) bd;
          (neutral, bd) = build_channel root NEUTRAL ''Neutral Ground'' Same bd;
          (back, bd) = build_channel root BACK ''< Back to the Lobby'' Same bd;
          bd = channel_position red 1 bd;
          bd = channel_position blue 2 bd;
          bd = channel_position deck 3 bd;
          bd = channel_position neutral 4 bd;
          bd = channel_position back 5 bd;
          bd = channel_can_text back False bd;
          roles = an_roles st;
          d = an_directory st;
          bd = fold (arena_place red blue deck d) (items roles) bd;
          bd = build_audio_domain RED_VOICE (members_of roles Red) bd;
          bd = build_audio_domain BLUE_VOICE (members_of roles Blue) bd;
          bd = build_audio_domain DECK_VOICE (spectators roles) bd;
          bd = fold arena_listen (spectators roles) bd
      in (st, fold (arena_admin root red blue roles d) (admins roles) bd))"

definition arena_observation :: "arena \<Rightarrow> connection_id \<Rightarrow> arena \<times> scope_set" where
  "arena_observation st connection =
     (st, case fmlookup (an_roles st) connection of
            Some (Player s) \<Rightarrow> observe_scopes [side_scope s]
          | Some Spectator \<Rightarrow> watcher_view
          | Some (Admin _) \<Rightarrow> watcher_view
          | None \<Rightarrow> observe_scopes [ROOT_SCOPE])"

definition arena_said :: "connection_id \<Rightarrow> audience \<Rightarrow> string \<Rightarrow> arena \<Rightarrow> reply \<Rightarrow> reply" where
  "arena_said connection aud text st out =
     (case aud of
        AudUser _ \<Rightarrow> relay connection aud text out
      | _ \<Rightarrow>
          (case fmlookup (an_roles st) connection of
             None \<Rightarrow> out
           | Some role \<Rightarrow>
               (case (case role of Player s \<Rightarrow> Some (side_base s) | Spectator \<Rightarrow> Some DECK
                      | Admin (Some s) \<Rightarrow> Some (side_base s) | Admin None \<Rightarrow> None) of
                  None \<Rightarrow> refuse connection ''Pick a base to address before writing into the arena.'' out
                | Some heard_in \<Rightarrow>
                    if aud = AudChannel heard_in then relay connection aud text out
                    else refuse connection ''You can only write where you are heard.'' out)))"

definition arena_next_role :: "role \<Rightarrow> channel_key \<Rightarrow> role" where
  "arena_next_role role key =
     (case role of
        Admin _ \<Rightarrow> Admin (if key = RED_BASE then Some Red else if key = BLUE_BASE then Some Blue else None)
      | _ \<Rightarrow>
          if key = RED_BASE then Player Red
          else if key = BLUE_BASE then Player Blue
          else if key = DECK \<or> key = NEUTRAL then Spectator
          else role)"

definition arena_requested :: "connection_id \<Rightarrow> channel_key \<Rightarrow> arena \<Rightarrow> reply \<Rightarrow> arena \<times> reply" where
  "arena_requested connection key st out =
     (if key = BACK then
        let i = (case fmlookup (an_roles st) connection of Some (Player s) \<Rightarrow> Join s | _ \<Rightarrow> Spectate);
            st = st\<lparr>an_chosen := fmupd connection i (an_chosen st)\<rparr>
        in (case de_lobby (an_destinations st) of
              Some shard \<Rightarrow> (st, switch connection shard out)
            | None \<Rightarrow> (st, refuse connection ''The lobby is not running.'' out))
      else case fmlookup (an_roles st) connection of
             None \<Rightarrow> (st, out)
           | Some role \<Rightarrow> (st\<lparr>an_roles := fmupd connection (arena_next_role role key) (an_roles st)\<rparr>, out))"

definition arena_arrival :: "arena \<Rightarrow> connection_id \<Rightarrow> role" where
  "arena_arrival st c =
     (if is_staff (an_directory st) c then Admin None
      else case as_side (choices_get (an_chosen st) c) of Some s \<Rightarrow> Player s | None \<Rightarrow> Spectator)"

fun arena_observe :: "arena \<Rightarrow> voice_event \<Rightarrow> reply \<Rightarrow> arena \<times> reply" where
  "arena_observe st (Connected c) out = (st\<lparr>an_roles := fmupd c (arena_arrival st c) (an_roles st)\<rparr>, out)"
| "arena_observe st (Disconnected c _) out =
     (st\<lparr>an_roles := fmdrop c (an_roles st), an_chosen := fmdrop c (an_chosen st),
         an_directory := directory_forget c (an_directory st)\<rparr>, out)"
| "arena_observe st (Migrated c _) out = (st\<lparr>an_roles := fmdrop c (an_roles st)\<rparr>, out)"
| "arena_observe st (RequestedChannel c key) out = arena_requested c key st out"
| "arena_observe st (RequestedSelfState c mute deaf) out =
     (st\<lparr>an_directory := set_self_state c mute deaf (an_directory st)\<rparr>, out)"
| "arena_observe st (Said c aud text) out = (st, arena_said c aud text st out)"
| "arena_observe st (InvokedAction c act _) out = (st, out)"

definition arena_logic :: "arena logic" where
  "arena_logic = \<lparr>lg_render = arena_render, lg_observation = arena_observation, lg_observe = arena_observe\<rparr>"

end
