(* ===== verification/Arena_Flavor.thy ===== *)
theory Arena_Flavor
  imports Arena
begin

text \<open>
  Both flavors of the reference application honour the contract of the shard, and the arena keeps
  its teams apart: whatever a render that is accepted shows a player is the player's own side, or
  staff that address it.
\<close>

subsection \<open>Renders through the builder\<close>

lemma rendering_place:
  assumes "rendering bd0 C bd" and "p \<in> C"
  shows "rendering bd0 C (place p d c bd)"
proof -
  obtain u bd' where u: "build_user p (Connection c) (directory_name d c) Same bd = (u, bd')" by fastforce
  show ?thesis unfolding place_def u by (simp add: r_flags [OF r_user [OF assms u]])
qed

lemma rendering_action:
  assumes "rendering bd0 C bd"
  shows "rendering bd0 C (build_private c (private_action k t on) bd)"
  by (rule r_private [OF assms]) (rule pc_action [OF pc_start])

lemma lobby_renders: "\<exists>C. rendering bd0 C (snd (lobby_render st bd0))"
proof -
  define st1 where "st1 = drain_updates st"
  obtain root bd1 where b1: "build_root (''Mumble Server Runtime Arena | update '' @ decimal (unat (lo_counter st1))) bd0 = (root, bd1)"
    by fastforce
  obtain red bd2 where b2: "build_channel root LOBBY_RED ''Red Team'' Same bd1 = (red, bd2)" by fastforce
  obtain blue bd3 where b3: "build_channel root LOBBY_BLUE ''Blue Team'' Same bd2 = (blue, bd3)" by fastforce
  obtain spec bd4 where b4: "build_channel root LOBBY_SPECTATE ''Spectators'' Same bd3 = (spec, bd4)" by fastforce
  obtain enter bd5 where b5: "build_channel root LOBBY_ENTER ''> Enter the Arena'' Same bd4 = (enter, bd5)" by fastforce
  define C where "C = {root, red, blue, spec, enter}"
  have "rendering bd0 {root} bd1" using r_root [OF r_start b1] by simp
  then have "rendering bd0 {red, root} bd2" using r_channel [OF _ _ b2] by simp
  then have "rendering bd0 {blue, red, root} bd3" using r_channel [OF _ _ b3] by simp
  then have "rendering bd0 {spec, blue, red, root} bd4" using r_channel [OF _ _ b4] by simp
  then have "rendering bd0 {enter, spec, blue, red, root} bd5" using r_channel [OF _ _ b5] by simp
  then have r5: "rendering bd0 C bd5" unfolding C_def by (simp add: insert_commute)
  let ?bd6 = "channel_can_text enter False (channel_position enter 4 (channel_position spec 3 (channel_position blue 2 (channel_position red 1 bd5))))"
  have r6: "rendering bd0 C ?bd6" by (intro r_position r_can_text r5) (simp_all add: C_def)
  let ?bd7 = "fold (\<lambda>c. build_private c (private_action JOIN_ACTION ''Enter the Arena'' ON_SERVER)) (fkeys (lo_waiting st1)) ?bd6"
  have r7: "rendering bd0 C ?bd7" using rendering_action by (intro rendering_fold [OF _ r6])
  let ?bd8 = "fold (lobby_place root red blue spec (lo_directory st1)) (items (lo_waiting st1)) ?bd7"
  have r8: "rendering bd0 C ?bd8"
    by (rule rendering_fold [OF _ r7])
      (auto simp: lobby_place_def C_def split: intent.split side.split intro: rendering_place)
  have "snd (lobby_render st bd0) = build_audio_domain LOBBY_VOICE (fkeys (lo_waiting st1)) ?bd8"
    unfolding lobby_render_def Let_def st1_def [symmetric] b1 prod.case b2 b3 b4 b5 by simp
  then show ?thesis using r_domain [OF r8] by metis
qed

interpretation lob: flavor lobby_logic
proof
  fix ids l shard cs l' bd
  assume "lg_render lobby_logic l (builder_new ids shard cs) = (l', bd)"
  then show "\<exists>C. rendering (builder_new ids shard cs) C bd"
    using lobby_renders [of "builder_new ids shard cs" l] by (simp add: lobby_logic_def)
qed

text \<open>Until staff are rendered no overlay has been touched; a private room is declared once.\<close>

lemma overlays_kept:
  "bd_overlays (snd (build_root name bd)) = bd_overlays bd"
  "bd_overlays (snd (build_channel p key name n bd)) = bd_overlays bd"
  "bd_overlays (place p d c bd) = bd_overlays bd"
  "bd_overlays (channel_position p x bd) = bd_overlays bd"
  "bd_overlays (channel_can_text p y bd) = bd_overlays bd"
  "bd_overlays (build_audio_domain dm ms bd) = bd_overlays bd"
  "bd_overlays (build_audio_listen l dm bd) = bd_overlays bd"
  "bd_overlays (build_audio_edge l r bd) = bd_overlays bd"
proof -
  have nar: "bd_overlays (snd (narrowed q n ctx b)) = bd_overlays b" for q n ctx b
    by (simp add: narrowed_def split: narrow.split option.split)
  show "bd_overlays (snd (build_root name bd)) = bd_overlays bd" by (simp add: build_root_def)
  obtain sc bd1 where n: "narrowed (cr_scope p) n (CtxChannel name) bd = (sc, bd1)" by fastforce
  then show "bd_overlays (snd (build_channel p key name n bd)) = bd_overlays bd"
    using nar [of "cr_scope p" n "CtxChannel name" bd]
    by (auto simp: build_channel_def Let_def split: option.split sum.split prod.split)
  show "bd_overlays (place p d c bd) = bd_overlays bd"
    by (simp add: place_def build_user_def narrowed_def build_user_flags_def Let_def case_prod_beta split: sum.split)
qed (simp_all add: channel_position_def channel_can_text_def build_audio_domain_def build_audio_listen_def build_audio_edge_def)

lemma overlays_fold:
  assumes "\<And>x bd. bd_overlays (f x bd) = bd_overlays bd"
  shows "bd_overlays (fold f xs bd) = bd_overlays bd"
  using assms by (induction xs arbitrary: bd) auto

definition vacant :: "connection_id set \<Rightarrow> builder \<Rightarrow> bool" where
  "vacant A bd \<longleftrightarrow> (\<forall>c \<in> A. ov_channels (fm_get_or empty_overlay (bd_overlays bd) c) = fmempty)"

lemma rendering_overwatch:
  assumes "rendering bd0 C bd" and "root \<in> C" and "vacant A bd" and "a \<in> A"
  shows "rendering bd0 C (build_private a (overwatch root d a) bd)" and "vacant (A - {a}) (build_private a (overwatch root d a) bd)"
proof -
  let ?pb = "private_open a bd"
  have none: "\<forall>i c. fmlookup (ov_channels (pb_overlay ?pb)) i = Some c \<longrightarrow> ch_key c \<noteq> overwatch_key a"
    using assms(3,4) by (simp add: vacant_def private_open_def)
  obtain room pb1 where p1: "private_channel root (overwatch_key a) ''Overwatch'' ?pb = (room, pb1)" by fastforce
  obtain u pb2 where p2: "user_in room (Connection a) (directory_name d a @ '' (vanished)'') pb1 = (u, pb2)" by fastforce
  have "private_calls C ?pb (insert room C) pb1" by (rule pc_channel [OF pc_start assms(2) none p1])
  then have "private_calls C ?pb (insert room C) pb2" by (rule pc_user_in [OF _ insertI1 p2])
  then have "private_calls C ?pb (insert room C) (overwatch root d a ?pb)"
    unfolding overwatch_def p1 prod.case Let_def p2 by (rule pc_flags)
  then show "rendering bd0 C (build_private a (overwatch root d a) bd)" by (rule r_private [OF assms(1)])
  show "vacant (A - {a}) (build_private a (overwatch root d a) bd)"
    using assms(3) by (simp add: vacant_def build_private_def Let_def fm_get_or_def)
qed

lemma staff_presence_channels: "ov_channels (pb_overlay (staff_presence b d a pb)) = ov_channels (pb_overlay pb)"
  by (simp add: staff_presence_def user_in_def private_user_flags_def Let_def case_prod_beta split: sum.split)

lemma rendering_address:
  assumes "rendering bd0 C bd" and "base \<in> C" and "vacant A bd"
  shows "rendering bd0 C (address_member base d a m bd)" and "vacant A (address_member base d a m bd)"
proof -
  let ?pb = "private_open m bd"
  obtain u pb1 where p1: "user_in base (Connection a) (''[Staff] '' @ directory_name d a) ?pb = (u, pb1)" by fastforce
  have "private_calls C ?pb C pb1" by (rule pc_user_in [OF pc_start assms(2) p1])
  then have "private_calls C ?pb C (staff_presence base d a ?pb)"
    unfolding staff_presence_def p1 prod.case Let_def by (rule pc_flags)
  then show "rendering bd0 C (address_member base d a m bd)"
    unfolding address_member_def by (intro r_edge r_private [OF assms(1)])
  show "vacant A (address_member base d a m bd)"
    using assms(3) staff_presence_channels [of base d a ?pb]
    by (auto simp: vacant_def address_member_def build_audio_edge_def build_private_def Let_def fm_get_or_def private_open_def
        split: option.splits)
qed

lemma rendering_admins:
  assumes "rendering bd0 C bd" and "{root, red, blue} \<subseteq> C" and "distinct (map fst es)" and "vacant (set (map fst es)) bd"
  shows "rendering bd0 C (fold (arena_admin root red blue roles d) es bd)"
  using assms
proof (induction es arbitrary: bd)
  case (Cons e es)
  obtain a addr where e: "e = (a, addr)" by fastforce
  let ?A = "set (map fst es)"
  let ?bd1 = "build_private a (overwatch root d a) bd"
  have A: "insert a ?A - {a} = ?A" using Cons.prems(3) e by auto
  have r1: "rendering bd0 C ?bd1" and v1: "vacant ?A ?bd1"
    using rendering_overwatch [OF Cons.prems(1), of root "insert a ?A" a d] Cons.prems(2,4) e unfolding A by auto
  let ?bd2 = "build_audio_listen a DECK_VOICE (build_audio_listen a BLUE_VOICE (build_audio_listen a RED_VOICE ?bd1))"
  have r2: "rendering bd0 C ?bd2" and v2: "vacant ?A ?bd2"
    using r1 v1 by (auto intro: r_listen simp: vacant_def overlays_kept)
  have each: "rendering bd0 C b \<and> vacant ?A b \<Longrightarrow> base \<in> C \<Longrightarrow>
      rendering bd0 C (fold (address_member base d a) ms b) \<and> vacant ?A (fold (address_member base d a) ms b)" for ms base b
    by (induction ms arbitrary: b) (auto intro: rendering_address)
  have "rendering bd0 C (arena_admin root red blue roles d e bd) \<and> vacant ?A (arena_admin root red blue roles d e bd)"
    using r2 v2 each [of ?bd2] Cons.prems(2) unfolding e arena_admin_def prod.case Let_def
    by (auto split: option.split side.split)
  then show ?case using Cons.IH Cons.prems(2,3) by simp
qed simp

lemma distinct_admins: "distinct (map fst (admins roles))"
  unfolding admins_def by (rule distinct_filter_map_items) (auto split: role.splits)

text \<open>The arena's render, with the references and the builders it goes through named.\<close>

lemma arena_render_parts:
  assumes "arena_render st bd0 = (st', bd)"
  obtains root red blue deck neutral home bd1 bd2 bd3 bd4 bd5 bd6 bd7 bd8 where
    "build_root ''The Arena'' bd0 = (root, bd1)"
    "build_channel root RED_BASE ''Red Base'' (Into (side_segment Red)) bd1 = (red, bd2)"
    "build_channel root BLUE_BASE ''Blue Base'' (Into (side_segment Blue)) bd2 = (blue, bd3)"
    "build_channel root DECK ''Observation Deck'' (Into DECK_SEGMENT) bd3 = (deck, bd4)"
    "build_channel root NEUTRAL ''Neutral Ground'' Same bd4 = (neutral, bd5)"
    "build_channel root BACK ''< Back to the Lobby'' Same bd5 = (home, bd6)"
    "bd7 = channel_can_text home False (channel_position home 5 (channel_position neutral 4
       (channel_position deck 3 (channel_position blue 2 (channel_position red 1 bd6)))))"
    "bd8 = fold arena_listen (spectators (an_roles st)) (build_audio_domain DECK_VOICE (spectators (an_roles st))
       (build_audio_domain BLUE_VOICE (members_of (an_roles st) Blue)
         (build_audio_domain RED_VOICE (members_of (an_roles st) Red)
           (fold (arena_place red blue deck (an_directory st)) (items (an_roles st)) bd7))))"
    "st' = st" "bd = fold (arena_admin root red blue (an_roles st) (an_directory st)) (admins (an_roles st)) bd8"
proof -
  obtain root bd1 where b1: "build_root ''The Arena'' bd0 = (root, bd1)" by fastforce
  obtain red bd2 where b2: "build_channel root RED_BASE ''Red Base'' (Into (side_segment Red)) bd1 = (red, bd2)" by fastforce
  obtain blue bd3 where b3: "build_channel root BLUE_BASE ''Blue Base'' (Into (side_segment Blue)) bd2 = (blue, bd3)" by fastforce
  obtain deck bd4 where b4: "build_channel root DECK ''Observation Deck'' (Into DECK_SEGMENT) bd3 = (deck, bd4)" by fastforce
  obtain neutral bd5 where b5: "build_channel root NEUTRAL ''Neutral Ground'' Same bd4 = (neutral, bd5)" by fastforce
  obtain home bd6 where b6: "build_channel root BACK ''< Back to the Lobby'' Same bd5 = (home, bd6)" by fastforce
  show ?thesis
    using that [OF b1 b2 b3 b4 b5 b6 refl refl] assms
    unfolding arena_render_def Let_def b1 prod.case b2 b3 b4 b5 b6 prod.inject by blast
qed

lemma arena_renders:
  assumes "arena_render st (builder_new ids shard cs) = (st', bd)"
  shows "\<exists>C. rendering (builder_new ids shard cs) C bd"
proof -
  let ?bd0 = "builder_new ids shard cs"
  obtain root red blue deck neutral home bd1 bd2 bd3 bd4 bd5 bd6 bd7 bd8 where
    b: "build_root ''The Arena'' ?bd0 = (root, bd1)"
    "build_channel root RED_BASE ''Red Base'' (Into (side_segment Red)) bd1 = (red, bd2)"
    "build_channel root BLUE_BASE ''Blue Base'' (Into (side_segment Blue)) bd2 = (blue, bd3)"
    "build_channel root DECK ''Observation Deck'' (Into DECK_SEGMENT) bd3 = (deck, bd4)"
    "build_channel root NEUTRAL ''Neutral Ground'' Same bd4 = (neutral, bd5)"
    "build_channel root BACK ''< Back to the Lobby'' Same bd5 = (home, bd6)"
    and bd7: "bd7 = channel_can_text home False (channel_position home 5 (channel_position neutral 4
       (channel_position deck 3 (channel_position blue 2 (channel_position red 1 bd6)))))"
    and bd8: "bd8 = fold arena_listen (spectators (an_roles st)) (build_audio_domain DECK_VOICE (spectators (an_roles st))
       (build_audio_domain BLUE_VOICE (members_of (an_roles st) Blue)
         (build_audio_domain RED_VOICE (members_of (an_roles st) Red)
           (fold (arena_place red blue deck (an_directory st)) (items (an_roles st)) bd7))))"
    and bd: "bd = fold (arena_admin root red blue (an_roles st) (an_directory st)) (admins (an_roles st)) bd8"
    by (rule arena_render_parts [OF assms])
  define C where "C = {root, red, blue, deck, neutral, home}"
  have "rendering ?bd0 {root} bd1" using r_root [OF r_start b(1)] by simp
  then have "rendering ?bd0 {red, root} bd2" using r_channel [OF _ _ b(2)] by simp
  then have "rendering ?bd0 {blue, red, root} bd3" using r_channel [OF _ _ b(3)] by simp
  then have "rendering ?bd0 {deck, blue, red, root} bd4" using r_channel [OF _ _ b(4)] by simp
  then have "rendering ?bd0 {neutral, deck, blue, red, root} bd5" using r_channel [OF _ _ b(5)] by simp
  then have "rendering ?bd0 {home, neutral, deck, blue, red, root} bd6" using r_channel [OF _ _ b(6)] by simp
  then have r6: "rendering ?bd0 C bd6" unfolding C_def by (simp add: insert_commute)
  have r7: "rendering ?bd0 C bd7" unfolding bd7 by (intro r_position r_can_text r6) (simp_all add: C_def)
  have r8: "rendering ?bd0 C bd8"
    unfolding bd8
    by (intro rendering_fold r_domain r7)
      (auto simp: arena_listen_def arena_place_def C_def split: role.split side.split intro: rendering_place r_listen)
  have places: "bd_overlays (fold (arena_place red blue deck d) es b) = bd_overlays b" for d es b
    by (rule overlays_fold) (simp add: arena_place_def overlays_kept split: prod.split role.split side.split)
  have listens: "bd_overlays (fold arena_listen cs b) = bd_overlays b" for cs b
    by (rule overlays_fold) (simp add: arena_listen_def overlays_kept)
  have "bd_overlays bd6 = bd_overlays bd1"
    using overlays_kept(2) [of root RED_BASE "''Red Base''" "Into (side_segment Red)" bd1]
      overlays_kept(2) [of root BLUE_BASE "''Blue Base''" "Into (side_segment Blue)" bd2]
      overlays_kept(2) [of root DECK "''Observation Deck''" "Into DECK_SEGMENT" bd3]
      overlays_kept(2) [of root NEUTRAL "''Neutral Ground''" Same bd4]
      overlays_kept(2) [of root BACK "''< Back to the Lobby''" Same bd5]
    unfolding b by simp
  then have "bd_overlays bd8 = fmempty"
    using overlays_kept(1) [of "''The Arena''" ?bd0] unfolding bd8 listens overlays_kept places bd7 b
    by (simp add: builder_new_def)
  then have v8: "vacant A bd8" for A by (simp add: vacant_def fm_get_or_def empty_overlay_def)
  have "rendering ?bd0 C bd"
    unfolding bd by (rule rendering_admins [OF r8 _ distinct_admins v8]) (simp add: C_def)
  then show ?thesis ..
qed

interpretation are: flavor arena_logic
proof
  fix ids l shard cs l' bd
  assume "lg_render arena_logic l (builder_new ids shard cs) = (l', bd)"
  then show "\<exists>C. rendering (builder_new ids shard cs) C bd"
    using arena_renders by (simp add: arena_logic_def)
qed

end
