(* ===== verification/Arena_Apart.thy ===== *)
theory Arena_Apart
  imports Arena_Flavor
begin

text \<open>
  The privacy of the arena: whatever an accepted render shows a player, shared or private, is a
  member of the player's own side or staff that address it.
\<close>

subsection \<open>A recorded error stays\<close>

lemma fail_error [simp]: "bd_error (fail e bd) = None \<longleftrightarrow> False"
  by (simp add: fail_def get_or_insert_def split: option.split)

lemma build_channel_clean:
  assumes "build_channel p key name n bd = (r, bd')" and "bd_error bd' = None"
  shows "bd_error bd = None" and "sv_users (bd_view bd') = sv_users (bd_view bd)"
    and "n = Into g \<Longrightarrow> child (cr_scope p) g = Some (cr_scope r)"
  using assms
  by (auto simp: build_channel_def narrowed_def Let_def split: narrow.splits option.splits if_splits prod.splits sum.splits)

lemma place_users:
  assumes "fmlookup (sv_users (bd_view (place p d c bd))) s = Some u"
  shows "(\<exists>v. fmlookup (sv_users (bd_view bd)) s = Some v \<and> us_occupant v = us_occupant u \<and> us_scope v = us_scope u) \<or>
     (us_occupant u = Connection c \<and> us_scope u = cr_scope p)"
proof -
  obtain w bd' where b: "build_user p (Connection c) (directory_name d c) Same bd = (w, bd')" by fastforce
  obtain v where v: "fmlookup (sv_users (bd_view bd')) s = Some v" "us_occupant v = us_occupant u" "us_scope v = us_scope u"
    using assms b by (auto simp: place_def build_user_flags_def split: if_splits)
  then show ?thesis
    using b by (auto simp: build_user_def narrowed_def Let_def case_prod_beta new_user_def split: if_splits sum.splits)
qed

lemma errors_kept:
  "bd_error (channel_position p x bd) = bd_error bd" "bd_error (channel_can_text p y bd) = bd_error bd"
  "bd_error (build_audio_domain dm ms bd) = bd_error bd" "bd_error (build_audio_listen l dm bd) = bd_error bd"
  "bd_error (build_audio_edge l r bd) = bd_error bd"
  by (simp_all add: channel_position_def channel_can_text_def build_audio_domain_def build_audio_listen_def build_audio_edge_def)

lemma place_error: "bd_error (place p d c bd) = None \<Longrightarrow> bd_error bd = None"
  by (auto simp: place_def build_user_def build_user_flags_def narrowed_def Let_def case_prod_beta split: if_splits sum.splits)

lemma private_error:
  assumes "\<And>pb. pb_error (f pb) = None \<Longrightarrow> pb_error pb = None"
  shows "bd_error (build_private c f bd) = None \<Longrightarrow> bd_error bd = None"
  using assms [of "private_open c bd"] by (simp add: build_private_def Let_def private_open_def)

lemma user_in_error: "pb_error (snd (user_in r who name pb)) = None \<Longrightarrow> pb_error pb = None"
  by (auto simp: user_in_def Let_def case_prod_beta private_fail_def get_or_insert_def split: sum.splits option.splits)

lemma private_channel_error: "pb_error (snd (private_channel r key name pb)) = None \<Longrightarrow> pb_error pb = None"
  by (auto simp: private_channel_def case_prod_beta private_fail_def get_or_insert_def split: sum.splits option.splits)

lemma staff_error: "pb_error (staff_presence b d a pb) = None \<Longrightarrow> pb_error pb = None"
  by (auto simp: staff_presence_def private_user_flags_def Let_def case_prod_beta dest: user_in_error)

lemma overwatch_error: "pb_error (overwatch r d a pb) = None \<Longrightarrow> pb_error pb = None"
  by (auto simp: overwatch_def private_user_flags_def Let_def case_prod_beta dest: user_in_error private_channel_error)

lemma fold_error:
  assumes "\<And>x bd. bd_error (f x bd) = None \<Longrightarrow> bd_error bd = None"
  shows "bd_error (fold f xs bd) = None \<Longrightarrow> bd_error bd = None"
proof (induction xs arbitrary: bd)
  case (Cons x xs)
  then show ?case using Cons.IH [of "f x bd"] assms [of x bd] by simp
qed simp

lemma address_error: "bd_error (address_member b d a m bd) = None \<Longrightarrow> bd_error bd = None"
  unfolding address_member_def errors_kept by (rule private_error [of "staff_presence b d a", OF staff_error])

lemma admin_error: "bd_error (arena_admin root red blue roles d e bd) = None \<Longrightarrow> bd_error bd = None"
proof -
  assume err: "bd_error (arena_admin root red blue roles d e bd) = None"
  obtain a addr where e: "e = (a, addr)" by fastforce
  have "bd_error (build_private a (overwatch root d a) bd) = None"
  proof (cases addr)
    case None
    then show ?thesis using err by (simp add: e arena_admin_def Let_def errors_kept)
  next
    case (Some s)
    let ?base = "case s of Red \<Rightarrow> red | Blue \<Rightarrow> blue"
    have "bd_error (fold (address_member ?base d a) (members_of roles s) (build_audio_listen a DECK_VOICE
        (build_audio_listen a BLUE_VOICE (build_audio_listen a RED_VOICE (build_private a (overwatch root d a) bd))))) = None"
      using err Some by (simp add: e arena_admin_def Let_def)
    from fold_error [OF _ this] have "bd_error (build_audio_listen a DECK_VOICE
        (build_audio_listen a BLUE_VOICE (build_audio_listen a RED_VOICE (build_private a (overwatch root d a) bd)))) = None"
      by (blast dest: address_error)
    then show ?thesis unfolding errors_kept .
  qed
  then show ?thesis by (rule private_error [rotated]) (blast dest: overwatch_error)
qed

subsection \<open>Who is rendered where\<close>

fun role_scope :: "role \<Rightarrow> scope" where
  "role_scope (Player s) = side_scope s"
| "role_scope Spectator = deck_scope"
| "role_scope (Admin _) = ROOT_SCOPE"

definition placed :: "(connection_id, role) fmap \<Rightarrow> user \<Rightarrow> bool" where
  "placed roles u \<longleftrightarrow> (\<exists>c role. us_occupant u = Connection c \<and> fmlookup roles c = Some role \<and>
     (\<forall>addr. role \<noteq> Admin addr) \<and> us_scope u = role_scope role)"

lemma arena_places:
  assumes "cr_scope red = side_scope Red" and "cr_scope blue = side_scope Blue" and "cr_scope deck = deck_scope"
    and "\<And>c role. (c, role) \<in> set es \<Longrightarrow> fmlookup roles c = Some role"
    and "\<And>s u. fmlookup (sv_users (bd_view bd)) s = Some u \<Longrightarrow> placed roles u"
    and "fmlookup (sv_users (bd_view (fold (arena_place red blue deck d) es bd))) s = Some u"
  shows "placed roles u"
  using assms(4-6)
proof (induction es arbitrary: bd)
  case (Cons e es)
  obtain c role where e: "e = (c, role)" by fastforce
  have role: "fmlookup roles c = Some role" using Cons.prems(1) e by simp
  have "placed roles w" if w: "fmlookup (sv_users (bd_view (arena_place red blue deck d e bd))) k = Some w" for k w
  proof (cases "\<exists>v. fmlookup (sv_users (bd_view bd)) k = Some v \<and> us_occupant v = us_occupant w \<and> us_scope v = us_scope w")
    case True
    then show ?thesis using Cons.prems(2) by (force simp: placed_def)
  next
    case False
    then show ?thesis
      using w role assms(1-3) unfolding e arena_place_def placed_def
      by (cases role) (auto dest!: place_users split: side.splits)
  qed
  then show ?case using Cons.IH [of "arena_place red blue deck d e bd"] Cons.prems(1,3) by simp
qed simp

lemma places_error: "bd_error (fold (arena_place red blue deck d) es bd) = None \<Longrightarrow> bd_error bd = None"
  by (rule fold_error [of "arena_place red blue deck d"])
    (auto simp: arena_place_def split: prod.splits role.splits side.splits dest: place_error)

subsection \<open>What staff leave in overlays\<close>

definition staffed :: "(connection_id, role) fmap \<Rightarrow> builder \<Rightarrow> bool" where
  "staffed roles bd \<longleftrightarrow> (\<forall>c side s u. fmlookup roles c = Some (Player side) \<longrightarrow>
     fmlookup (ov_users (fm_get_or empty_overlay (bd_overlays bd) c)) s = Some u \<longrightarrow>
     (\<exists>a. us_occupant u = Connection a \<and> fmlookup roles a = Some (Admin (Some side))))"

lemma staff_users:
  assumes "fmlookup (ov_users (pb_overlay (staff_presence b d a pb))) s = Some u"
  shows "(\<exists>v. fmlookup (ov_users (pb_overlay pb)) s = Some v \<and> us_occupant v = us_occupant u) \<or> us_occupant u = Connection a"
  using assms
  by (auto simp: staff_presence_def user_in_def private_user_flags_def Let_def case_prod_beta new_user_def
      split: sum.splits if_splits)

lemma overlay_of_private:
  "fm_get_or empty_overlay (bd_overlays (build_private c f bd)) k =
     (if k = c then pb_overlay (f (private_open c bd)) else fm_get_or empty_overlay (bd_overlays bd) k)"
  by (simp add: build_private_def Let_def fm_get_or_def)

lemma staffed_address:
  assumes "staffed roles bd" and "fmlookup roles a = Some (Admin (Some side))" and "fmlookup roles m = Some (Player side)"
  shows "staffed roles (address_member b d a m bd)"
  unfolding staffed_def address_member_def overlays_kept overlay_of_private
proof (intro allI impI)
  fix c s k u
  assume c: "fmlookup roles c = Some (Player s)"
    and u: "fmlookup (ov_users (if c = m then pb_overlay (staff_presence b d a (private_open m bd))
      else fm_get_or empty_overlay (bd_overlays bd) c)) k = Some u"
  have old: "\<exists>a. us_occupant w = Connection a \<and> fmlookup roles a = Some (Admin (Some s))"
    if "fmlookup (ov_users (fm_get_or empty_overlay (bd_overlays bd) c)) k = Some w" for w
    using assms(1) c that by (auto simp: staffed_def)
  show "\<exists>a. us_occupant u = Connection a \<and> fmlookup roles a = Some (Admin (Some s))"
  proof (cases "c = m")
    case True
    then have "pb_overlay (private_open m bd) = fm_get_or empty_overlay (bd_overlays bd) c"
      and "fmlookup (ov_users (pb_overlay (staff_presence b d a (private_open m bd)))) k = Some u"
      using u by (simp_all add: private_open_def)
    then show ?thesis using staff_users [of b d a "private_open m bd" k u] old assms(2,3) c True by force
  next
    case False
    then show ?thesis using old u by simp
  qed
qed

lemma staffed_admin:
  assumes "staffed roles bd" and "fmlookup roles a = Some (Admin addr)"
  shows "staffed roles (arena_admin root red blue roles d (a, addr) bd)"
proof -
  let ?bd = "build_audio_listen a DECK_VOICE (build_audio_listen a BLUE_VOICE (build_audio_listen a RED_VOICE
      (build_private a (overwatch root d a) bd)))"
  have start: "staffed roles ?bd"
    using assms unfolding staffed_def overlays_kept overlay_of_private by auto
  have each: "staffed roles b \<Longrightarrow> addr = Some s \<Longrightarrow> (\<And>m. m \<in> set ms \<Longrightarrow> fmlookup roles m = Some (Player s)) \<Longrightarrow>
      staffed roles (fold (address_member base d a) ms b)" for s ms base b
    using assms(2) by (induction ms arbitrary: b) (auto intro: staffed_address)
  have "fmlookup roles m = Some (Player s)" if "m \<in> set (members_of roles s)" for m s
    using that by (auto simp: members_of_def iter_simps)
  then show ?thesis using start each [OF start] by (auto simp: arena_admin_def Let_def split: option.split)
qed

lemma admins_view:
  "bd_view (fold (arena_admin root red blue roles d) es bd) = bd_view bd"
proof (induction es arbitrary: bd)
  case (Cons e es)
  have "bd_view (address_member b d' a m bd) = bd_view bd" for b d' a m bd
    by (simp add: address_member_def build_audio_edge_def build_private_def Let_def)
  then have "bd_view (fold (address_member b d' a) ms bd) = bd_view bd" for b d' a ms bd
    by (induction ms arbitrary: bd) auto
  then have "bd_view (arena_admin root red blue roles d e bd) = bd_view bd"
    by (simp add: arena_admin_def Let_def build_audio_listen_def build_private_def split: prod.split option.split)
  then show ?case using Cons.IH by simp
qed simp

lemma staffed_admins:
  assumes "staffed roles bd" and "\<And>a addr. (a, addr) \<in> set es \<Longrightarrow> fmlookup roles a = Some (Admin addr)"
  shows "staffed roles (fold (arena_admin root red blue roles d) es bd)"
  using assms
proof (induction es arbitrary: bd)
  case (Cons e es)
  obtain a addr where e: "e = (a, addr)" by fastforce
  have "staffed roles (arena_admin root red blue roles d e bd)"
    using staffed_admin [OF Cons.prems(1)] Cons.prems(2) e by simp
  then show ?case using Cons.IH Cons.prems(2) by simp
qed simp

subsection \<open>Two sides do not see each other\<close>

lemma arena_scopes:
  "side_scope Red = Scope [1, 0, 0, 0] 1" "side_scope Blue = Scope [2, 0, 0, 0] 1" "deck_scope = Scope [3, 0, 0, 0] 1"
  by code_simp+

lemma player_sees:
  "sees (observe_scopes [side_scope s]) (role_scope (Player t)) \<longleftrightarrow> s = t"
  "\<not> sees (observe_scopes [side_scope s]) (role_scope Spectator)"
proof -
  obtain see where new: "scope_set_new [side_scope s] = Inr see"
    by (simp add: scope_set_new_def MAX_OBSERVED_def)
  then have "observe_scopes [side_scope s] = see" by (simp add: observe_scopes_def)
  then have *: "sees (observe_scopes [side_scope s]) x \<longleftrightarrow> comparable x (side_scope s)" for x
    using sees_new [OF new, of x] by simp
  show "sees (observe_scopes [side_scope s]) (role_scope (Player t)) \<longleftrightarrow> s = t"
    "\<not> sees (observe_scopes [side_scope s]) (role_scope Spectator)"
    unfolding * by (cases s; cases t; simp add: arena_scopes comparable_def is_prefix_of_def)+
qed

lemma in_admins: "(a, addr) \<in> set (admins roles) \<Longrightarrow> fmlookup roles a = Some (Admin addr)"
proof -
  assume "(a, addr) \<in> set (admins roles)"
  then obtain k v where "fmlookup roles k = Some v" "(case v of Admin x \<Rightarrow> Some (k, x) | _ \<Rightarrow> None) = Some (a, addr)"
    by (auto simp: admins_def in_filter_map_items)
  then show ?thesis by (cases v) auto
qed

lemma root_child: "child ROOT_SCOPE g = Some x \<Longrightarrow> x = child_or_root g"
  by (simp add: child_or_root_def)

text \<open>What a render accepted for these observations holds: shared presences placed by role, and overlays of players
  holding only the staff that address their side.\<close>

lemma arena_holds:
  assumes "arena_render st (builder_new ids shard cs) = (st', bd)" and "bd_error bd = None"
  shows "fmlookup (sv_users (bd_view bd)) s = Some u \<Longrightarrow> placed (an_roles st) u" and "staffed (an_roles st) bd"
proof -
  let ?bd0 = "builder_new ids shard cs"
  obtain root red blue deck neutral home bd1 bd2 bd3 bd4 bd5 bd6 bd7 bd8 where
    b: "build_root ''The Arena'' ?bd0 = (root, bd1)"
    "build_channel root RED_BASE ''Red Base'' (Into (side_segment Red)) bd1 = (red, bd2)"
    "build_channel root BLUE_BASE ''Blue Base'' (Into (side_segment Blue)) bd2 = (blue, bd3)"
    "build_channel root DECK ''Observation Deck'' (Into DECK_SEGMENT) bd3 = (deck, bd4)"
    "build_channel root NEUTRAL ''Neutral Ground'' Same bd4 = (neutral, bd5)"
    "build_channel root BACK ''< Back to the Lobby'' Same bd5 = (home, bd6)"
    and bd7: "bd7 = channel_can_text home False (channel_position home 5 (channel_position neutral 4
       (channel_position deck 3 (channel_position blue 2 (channel_position red 1 bd6)))))"
    and bd8: "bd8 = fold arena_listen (spectators (an_roles st)) (build_audio_domain DECK_VOICE (spectators (an_roles st))
       (build_audio_domain BLUE_VOICE (members_of (an_roles st) Blue)
         (build_audio_domain RED_VOICE (members_of (an_roles st) Red)
           (fold (arena_place red blue deck (an_directory st)) (items (an_roles st)) bd7))))"
    and bd: "bd = fold (arena_admin root red blue (an_roles st) (an_directory st)) (admins (an_roles st)) bd8"
    by (rule arena_render_parts [OF assms(1)])
  have e8: "bd_error bd8 = None" using fold_error [OF _ assms(2) [unfolded bd]] by (blast dest: admin_error)
  have listens: "bd_error (fold arena_listen ls x) = bd_error x" "bd_view (fold arena_listen ls x) = bd_view x"
      "bd_overlays (fold arena_listen ls x) = bd_overlays x" for ls x
    by (induction ls arbitrary: x) (simp_all add: arena_listen_def build_audio_listen_def)
  have e7: "bd_error bd7 = None"
    using e8 unfolding bd8 listens errors_kept by (rule places_error)
  have e6: "bd_error bd6 = None" using e7 unfolding bd7 errors_kept .
  note c6 = build_channel_clean [OF b(6) e6]
  note c5 = build_channel_clean [OF b(5) c6(1)]
  note c4 = build_channel_clean [OF b(4) c5(1)]
  note c3 = build_channel_clean [OF b(3) c4(1)]
  note c2 = build_channel_clean [OF b(2) c3(1)]
  have root: "cr_scope root = ROOT_SCOPE" "sv_users (bd_view bd1) = fmempty" "bd_overlays bd1 = fmempty"
    using b(1) by (auto simp: build_root_def builder_new_def empty_view_def)
  have scopes: "cr_scope red = side_scope Red" "cr_scope blue = side_scope Blue" "cr_scope deck = deck_scope"
    using c2(3) [OF refl] c3(3) [OF refl] c4(3) [OF refl] unfolding root side_scope_def deck_scope_def
    by (simp_all add: root_child)
  have "sv_users (bd_view bd7) = fmempty"
    unfolding bd7 using c2(2) c3(2) c4(2) c5(2) c6(2) root(2)
    by (simp add: channel_position_def channel_can_text_def)
  then have none: "fmlookup (sv_users (bd_view bd7)) k = Some v \<Longrightarrow> placed (an_roles st) v" for k v by simp
  show "fmlookup (sv_users (bd_view bd)) s = Some u \<Longrightarrow> placed (an_roles st) u"
    using arena_places [OF scopes, of "items (an_roles st)" "an_roles st" bd7 "an_directory st" s u] none
    unfolding bd admins_view bd8 listens by (simp add: build_audio_domain_def iter_simps)
  have "bd_overlays (fold (arena_place red blue deck d) es x) = bd_overlays x" for d es x
    by (rule overlays_fold) (simp add: arena_place_def overlays_kept split: prod.split role.split side.split)
  moreover have "bd_overlays bd6 = bd_overlays bd1"
    using overlays_kept(2) [of root RED_BASE "''Red Base''" "Into (side_segment Red)" bd1]
      overlays_kept(2) [of root BLUE_BASE "''Blue Base''" "Into (side_segment Blue)" bd2]
      overlays_kept(2) [of root DECK "''Observation Deck''" "Into DECK_SEGMENT" bd3]
      overlays_kept(2) [of root NEUTRAL "''Neutral Ground''" Same bd4]
      overlays_kept(2) [of root BACK "''< Back to the Lobby''" Same bd5]
    unfolding b by simp
  ultimately have "bd_overlays bd8 = fmempty"
    unfolding bd8 listens overlays_kept by (simp add: bd7 overlays_kept root)
  then have "staffed (an_roles st) bd8" by (simp add: staffed_def fm_get_or_def empty_overlay_def)
  then show "staffed (an_roles st) bd"
    unfolding bd by (rule staffed_admins) (rule in_admins)
qed

lemma arena_sides_apart:
  assumes "arena_render st (builder_new ids shard cs) = (st', bd)" and "finish obs bd = Inr rd"
    and "fmlookup (an_roles st) c = Some (Player side)" and "observed obs c = snd (arena_observation st c)"
    and "fmlookup (sv_users (compose (restrict (rd_view rd) (observed obs c)) (fm_get_or empty_overlay (rd_overlays rd) c))) s = Some u"
  obtains d where "us_occupant u = Connection d"
    and "fmlookup (an_roles st) d = Some (Player side) \<or> fmlookup (an_roles st) d = Some (Admin (Some side))"
proof -
  have fin: "bd_error bd = None" "rd_view rd = bd_view bd" "rd_overlays rd = bd_overlays bd"
    using assms(2) by (auto simp: finish_def split: option.splits if_splits sum.splits)
  note holds = arena_holds [OF assms(1) fin(1)]
  have see: "observed obs c = observe_scopes [side_scope side]" using assms(3,4) by (simp add: arena_observation_def)
  show ?thesis
  proof (cases "fmlookup (ov_users (fm_get_or empty_overlay (rd_overlays rd) c)) s")
    case None
    then have u: "fmlookup (sv_users (bd_view bd)) s = Some u" "sees (observed obs c) (us_scope u)"
      using assms(5) fin by (auto simp: compose_def restrict_def split: option.splits if_splits)
    from holds(1) [OF u(1)] obtain d role where d: "us_occupant u = Connection d" "fmlookup (an_roles st) d = Some role"
      "\<forall>addr. role \<noteq> Admin addr" "us_scope u = role_scope role" by (auto simp: placed_def)
    then have "role = Player side" using u(2) player_sees unfolding see by (cases role) auto
    then show ?thesis using that d by simp
  next
    case (Some v)
    then have "v = u" using assms(5) by (auto simp: compose_def)
    then show ?thesis using that holds(2) Some assms(3) fin by (force simp: staffed_def)
  qed
qed

end
