(* ===== verification/Shard_Client.thy ===== *)
theory Shard_Client
  imports Shard_Turn
begin

text \<open>
  What a turn means to a client. The messages one connection is handed, through the journal or
  through a replan, lead the strict client from the view the connection is known to hold to the
  view it is recorded as holding afterwards.
\<close>

subsection \<open>Context actions leave the view alone\<close>

lemma apply_msgs_append:
  "apply_msgs (xs @ ys) m = (case apply_msgs xs m of Inl e \<Rightarrow> Inl e | Inr m' \<Rightarrow> apply_msgs ys m')"
  by (induction xs arbitrary: m) (auto split: sum.splits)

lemma apply_actions:
  assumes "judged m = Inr m"
  shows "apply_msgs (emit_actions old new) m = Inr m"
proof -
  have "apply_msgs ms m = Inr m" if "\<forall>msg \<in> set ms. \<exists>a. msg = ContextActionModify a" for ms
    using that assms by (induction ms) (auto simp: apply_msg_def)
  moreover have "\<forall>msg \<in> set (emit_actions old new). \<exists>a. msg = ContextActionModify a"
    by (auto simp: emit_actions_def withdraw_action_def offer_action_def)
  ultimately show ?thesis by blast
qed

lemma apply_transition_messages:
  assumes "apply_msgs (emit ops (at_session at)) (model_of v) = Inr (model_of w)"
    and "view_ok w" and "ranked r (sv_channels w)"
  shows "apply_msgs (transition_messages ops acts at) (model_of v) = Inr (model_of w)"
  using assms apply_actions [OF coherent_judged [OF coherent_model [OF assms(2,3)]]]
  by (simp add: transition_messages_def apply_msgs_append)

subsection \<open>The slow path\<close>

lemma plan_is_plan_with: "plan b a = plan_with (withdrawn_users b a) b a"
  by (simp add: plan_phases plan_with_def)

lemma no_overlay_ops: "splice_ops ops (plan_elements empty_overlay empty_overlay) = ops"
  by (simp add: splice_ops_def plan_elements_phases empty_overlay_def order_creations_def Let_def
      overlay_gone_users_def overlay_gone_channels_def order_loop.simps [of _ "[]"])

lemma replan_transition:
  assumes "transition_ok r v empty_overlay w empty_overlay"
  shows "apply_msgs (emit (collapse (map po_op (plan v w))) self) (model_of v) = Inr (model_of w)"
  using composed_transition [OF assms refl, of self] plan_is_plan_with [of v w]
  by (simp add: no_overlay_ops)

subsection \<open>The fast path\<close>

lemma replay_latest:
  assumes "journal_ok j" and "unat (jn_head j) < 2 ^ 64 - 1"
  shows "replay (jn_head j) (saturating_add (jn_head j) 1) (snd (journal_push ops j)) = Inr ops"
proof -
  let ?j = "snd (journal_push ops j)"
  have head: "jn_head ?j = saturating_add (jn_head j) 1"
    by (simp add: journal_push_def Let_def case_prod_beta)
  have ok: "journal_ok ?j" by (rule journal_ok_push [OF assms])
  have succ: "unat (jn_head ?j) = Suc (unat (jn_head j))" unfolding head by (rule unat_succ [OF assms(2)])
  obtain es where es: "jn_entries ?j = es @ [ops]"
  proof (rule journal_push_cases [OF assms, of ops])
    assume "snd (journal_push ops j) = \<lparr>jn_tail = jn_tail j, jn_head = saturating_add (jn_head j) 1,
        jn_entries = jn_entries j @ [ops]\<rparr>"
    then show ?thesis using that by simp
  next
    assume full: "length (jn_entries j) = JOURNAL_DEPTH"
      and j: "snd (journal_push ops j) = \<lparr>jn_tail = saturating_add (jn_tail j) 1, jn_head = saturating_add (jn_head j) 1,
        jn_entries = tl (jn_entries j @ [ops])\<rparr>"
    then have "jn_entries j \<noteq> []" by (auto simp: JOURNAL_DEPTH_def)
    then show ?thesis using that [of "tl (jn_entries j)"] j by simp
  qed
  have len: "unat (jn_head j) = unat (jn_tail ?j) + length es"
    using ok succ es by (simp add: journal_ok_def)
  have start: "unat (jn_head j - jn_tail ?j) = length es"
    using len by (simp add: unat_sub word_le_nat_alt)
  have stop: "unat (jn_head ?j - jn_tail ?j) = Suc (length es)"
    using len succ by (simp add: unat_sub word_le_nat_alt)
  have "\<not> jn_head j < jn_tail ?j" using len by (simp add: word_less_nat_alt)
  moreover have "\<not> jn_head ?j \<le> jn_head j" using succ by (simp add: word_le_nat_alt)
  ultimately show ?thesis
    using start stop es unfolding replay_def head [symmetric] by (simp add: Let_def)
qed

lemma replay_nothing: "journal_ok j \<Longrightarrow> replay (jn_head j) (jn_head j) j = Inr []"
  using unat_tail_bound [of j] by (auto simp: replay_def Let_def word_less_nat_alt)

lemma push_transition:
  assumes "view_ok b" and "view_ok a" and "known_parents b a see"
    and "transition_ok r (restrict b see) ob (restrict a see) oa"
  shows "apply_msgs (emit (collapse (splice_ops (filter_ops (plan b a) see) (plan_elements ob oa))) self)
     (model_of (compose (restrict b see) ob)) = Inr (model_of (compose (restrict a see) oa))"
proof -
  obtain ws where ws: "mset ws = mset (withdrawn_users (restrict b see) (restrict a see))"
    "filter_ops (plan b a) see = map po_op (plan_with ws (restrict b see) (restrict a see))"
    using filter_plan [OF assms(1-3)] by blast
  show ?thesis unfolding ws(2) by (rule composed_transition [OF assms(4) ws(1)])
qed

subsection \<open>The turn of one connection\<close>

text \<open>
  \<open>smooth\<close>: the transition one connection goes through can be handed over in this order of
  messages. A connection whose observation moved, or that holds a view the shard did not produce,
  is planned from view to view; the others are sent the visible part of the delta.
\<close>

definition smooth :: "shard_view \<Rightarrow> shard_view \<Rightarrow> attached \<Rightarrow> attached \<Rightarrow> bool" where
  "smooth b a at at' \<longleftrightarrow>
     (\<exists>r. if at_held at \<noteq> None \<or> at_see at \<noteq> at_see at'
          then transition_ok r (composed at b) empty_overlay (composed at' a) empty_overlay
          else known_parents b a (at_see at) \<and>
            transition_ok r (restrict b (at_see at)) (at_overlay_sent at) (restrict a (at_see at)) (at_overlay_sent at'))"

definition unmoved :: "attached \<Rightarrow> attached \<Rightarrow> bool" where
  "unmoved at at' \<longleftrightarrow> at_cursor at' = at_cursor at \<and> at_see at' = at_see at \<and> at_overlay_sent at' = at_overlay_sent at \<and>
     at_actions_sent at' = at_actions_sent at \<and> at_held at' = at_held at \<and>
     qu_messages (at_queue at') = qu_messages (at_queue at)"

definition led :: "shard_view \<Rightarrow> shard_view \<Rightarrow> attached \<Rightarrow> attached \<Rightarrow> bool" where
  "led b a at at' \<longleftrightarrow> (\<exists>ms. qu_messages (at_queue at') = qu_messages (at_queue at) @ ms \<and>
     apply_msgs ms (model_of (composed at b)) = Inr (model_of (composed at' a)))"

lemma hand_over_leads:
  assumes "queue_ok (at_queue at)"
    and "apply_msgs (emit ops (at_session at)) (model_of (composed at b)) = Inr (model_of (compose (restrict a see) ov))"
    and "view_ok (compose (restrict a see) ov)" and "ranked r (sv_channels (compose (restrict a see) ov))"
    and "hand_over ops head see ov acts at = ((res, ret), at')"
  shows "if res = Advanced then led b a at at' else unmoved at at'"
proof (rule hand_over_cases [OF assms(1), of ops head see ov acts])
  fix ret'
  assume "hand_over ops head see ov acts at = ((Advanced, ret'), commit head see ov acts
     (at\<lparr>at_queue := extended (transition_messages ops acts at) (at_queue at)\<rparr>))"
  then show ?thesis
    using assms(5) apply_transition_messages [OF assms(2-4), of acts] by (auto simp: led_def composed_def)
next
  fix res' fatal
  assume "hand_over ops head see ov acts at = ((res', {||}), at\<lparr>at_queue := (at_queue at)\<lparr>qu_must_close := fatal\<rparr>\<rparr>)"
    and "res' \<noteq> Advanced"
  then show ?thesis using assms(5) by (auto simp: unmoved_def)
qed

text \<open>Whether or not the client can follow, the committed state moves with the messages or not at all.\<close>

lemma hand_over_see:
  assumes "queue_ok (at_queue at)" and "hand_over ops head see ov acts at = ((res, ret), at')"
  shows "if res = Advanced then at_see at' = see \<and> at_overlay_sent at' = ov \<and> at_held at' = None else unmoved at at'"
  by (rule hand_over_cases [OF assms(1), of ops head see ov acts]) (use assms(2) in \<open>auto simp: unmoved_def\<close>)

lemma unmoved_fatal: "unmoved at at' \<Longrightarrow> unmoved at (at'\<lparr>at_queue := mark_fatal (at_queue at')\<rparr>)"
  by (simp add: unmoved_def mark_fatal_def)

lemma replay_delta:
  assumes "journal_ok j" and "unat (jn_head j) < 2 ^ 64 - 1"
  shows "replay (jn_head j) (if ops \<noteq> [] then saturating_add (jn_head j) 1 else jn_head j)
     (if ops \<noteq> [] then snd (journal_push ops j) else j) = Inr ops"
  using replay_latest [OF assms] replay_nothing [OF assms(1)] by simp

lemma served_leads:
  fixes b :: shard_view and rd :: rendered and j :: journal
  defines "a \<equiv> rd_view rd" and "ops \<equiv> plan b (rd_view rd)"
  assumes q: "queue_ok (at_queue at)" and j: "journal_ok j" "unat (jn_head j) < 2 ^ 64 - 1"
    and ok: "view_ok b" "view_ok a"
    and near: "at_held at \<noteq> None \<or> at_cursor at = jn_head j"
    and moved: "at_id at |\<in>| moved \<longleftrightarrow> at_held at \<noteq> None \<or> at_see at \<noteq> observed obs (at_id at)"
    and at': "at' = served obs rd b (if ops \<noteq> [] then snd (journal_push ops j) else j)
      (if ops \<noteq> [] then saturating_add (jn_head j) 1 else jn_head j) moved at"
    and smooth: "smooth b a at at'"
  shows "unmoved at at' \<or> led b a at at'"
proof -
  let ?j = "if ops \<noteq> [] then snd (journal_push ops j) else j"
  let ?head = "if ops \<noteq> [] then saturating_add (jn_head j) 1 else jn_head j"
  let ?ov = "fm_get_or empty_overlay (rd_overlays rd) (at_id at)" and ?acts = "fm_get_or fmempty (rd_actions rd) (at_id at)"
  define see where "see = (if at_id at |\<in>| moved then observed obs (at_id at) else at_see at)"
  define out where "out = (if at_id at |\<in>| moved then collapse (map po_op (plan (composed at b) (compose (restrict a see) ?ov)))
    else collapse (splice_ops (filter_ops ops (at_see at)) (plan_elements (at_overlay_sent at) ?ov)))"
  obtain res ret at1 where h: "hand_over out ?head see ?ov ?acts at = ((res, ret), at1)" by (metis prod.exhaust)
  have serve: "serve obs rd b ?j ?head moved at = ((res, ret), at1)"
    using h near moved replay_delta [OF j, of ops]
    by (auto simp: serve_def replan_def push_def Let_def see_def out_def a_def)
  note after = hand_over_see [OF q h]
  show ?thesis
  proof (cases "res = Advanced")
    case False
    then have "unmoved at at1" using after by simp
    then show ?thesis using unmoved_fatal at' serve by (auto simp: served_def)
  next
    case True
    then have at1: "at' = at1" using at' serve by (simp add: served_def)
    have see': "at_see at' = see" and comp: "composed at' a = compose (restrict a see) ?ov" and ov: "at_overlay_sent at' = ?ov"
      using after True at1 by (auto simp: composed_def)
    have "\<exists>r. apply_msgs (emit out (at_session at)) (model_of (composed at b)) = Inr (model_of (compose (restrict a see) ?ov)) \<and>
        view_ok (compose (restrict a see) ?ov) \<and> ranked r (sv_channels (compose (restrict a see) ?ov))"
    proof (cases "at_id at |\<in>| moved")
      case mv: True
      then obtain r where t: "transition_ok r (composed at b) empty_overlay (compose (restrict a see) ?ov) empty_overlay"
        using smooth moved comp see' unfolding smooth_def see_def by (auto split: if_splits)
      then show ?thesis
        using mv replan_transition [OF t] transition_okD(4,8) [OF t] by (auto simp: out_def)
    next
      case mv: False
      then have same: "see = at_see at" "at_held at = None" using moved by (auto simp: see_def)
      then obtain r where known: "known_parents b a see"
        and t: "transition_ok r (restrict b see) (at_overlay_sent at) (restrict a see) ?ov"
        using smooth see' ov unfolding smooth_def by auto
      have "composed at b = compose (restrict b see) (at_overlay_sent at)" using same by (simp add: composed_def)
      then show ?thesis
        using mv same push_transition [OF ok known t] transition_okD(4,8) [OF t] by (auto simp: out_def ops_def a_def)
    qed
    then obtain r where "apply_msgs (emit out (at_session at)) (model_of (composed at b)) = Inr (model_of (compose (restrict a see) ?ov))"
        "view_ok (compose (restrict a see) ?ov)" "ranked r (sv_channels (compose (restrict a see) ?ov))"
      by blast
    from hand_over_leads [OF q this h] show ?thesis using True at1 by simp
  qed
qed

lemma in_moved_of:
  "c |\<in>| fset_of_list (moved_of obs m) \<longleftrightarrow>
     (\<exists>at. fmlookup m c = Some at \<and> (at_held at \<noteq> None \<or> at_see at \<noteq> observed obs c))"
  unfolding fset_of_list_elem moved_of_def set_filter in_set_fkeys
  by (auto simp: fmlookup_dom_iff split: option.splits)

context flavor
begin

lemma turn_leads:
  assumes inv: "shard_inv sh" and room: "unat (sh_version sh) < 2 ^ 64 - 1" and call: "reconcile lg sh = (rp, sh')"
    and at: "fmlookup (sh_connections sh) c = Some at" and at': "fmlookup (sh_connections sh') c = Some at'"
    and near: "at_held at \<noteq> None \<or> at_cursor at = sh_version sh"
    and smooth: "smooth (sh_view sh) (sh_view sh') at at'"
  shows "unmoved at at' \<or> led (sh_view sh) (sh_view sh') at at'"
  using inv call
proof (cases rule: reconcile_cases)
  case (refused l ids e)
  then show ?thesis using at at' by (simp add: unmoved_def)
next
  case (idle l ids rd obs)
  then show ?thesis using at at' by (simp add: unmoved_def)
next
  case (advanced l bd C rd obs)
  note f = advance_fields [OF advanced(4), simplified]
  have head: "jn_head (sh_journal sh) = sh_version sh" and j: "journal_ok (sh_journal sh)" and v: "view_ok (sh_view sh)"
    and alloc: "alloc_inv (sh_ids sh)" and q: "queue_ok (at_queue at)" and i: "at_id at = c"
    using inv at by (auto simp: shard_inv_def attached_inv_def)
  have v': "view_ok (rd_view rd)" by (rule finished_render(1) [OF advanced(2) alloc advanced(3)])
  have "unmoved at at' \<or> led (sh_view sh) (rd_view rd) at at'"
  proof (rule served_leads [OF q j])
    show "at' = served obs rd (sh_view sh)
        (if plan (sh_view sh) (rd_view rd) \<noteq> [] then snd (journal_push (plan (sh_view sh) (rd_view rd)) (sh_journal sh)) else sh_journal sh)
        (if plan (sh_view sh) (rd_view rd) \<noteq> [] then saturating_add (jn_head (sh_journal sh)) 1 else jn_head (sh_journal sh))
        (fset_of_list (moved_of obs (sh_connections sh))) at"
      using f(7) [of c] at at' head by simp
  next
    show "at_id at |\<in>| fset_of_list (moved_of obs (sh_connections sh)) \<longleftrightarrow>
        at_held at \<noteq> None \<or> at_see at \<noteq> observed obs (at_id at)"
      unfolding in_moved_of i using at by simp
  qed (use room head v v' near smooth f(2) in simp_all)
  then show ?thesis using f(2) by simp
qed

end

end
