(* ===== verification/Shard_Text.thy ===== *)
theory Shard_Text
  imports Shard_Client
begin

text \<open>
  What a connection may name and what it is told. The three places a client may legitimately name
  an element from are the view it holds; the walk up a tree ends when what is visible is a
  tree; a relayed message only names what its recipient holds.
\<close>

subsection \<open>What is visible is what is held\<close>

lemma visible_composed:
  assumes "at_held at = None" and "apart (restrict (sh_view sh) (at_see at)) (at_overlay_sent at)"
  shows "visible_channel sh at i = fmlookup (sv_channels (composed at (sh_view sh))) i"
    and "seen_user sh at s = fmlookup (sv_users (composed at (sh_view sh))) s"
proof -
  let ?v = "restrict (sh_view sh) (at_see at)" and ?ov = "at_overlay_sent at"
  have "fmlookup (ov_channels ?ov) i = None \<or> fmlookup (sv_channels ?v) i = None"
    using apartD(2) [OF assms(2), of i] by (cases "fmlookup (sv_channels ?v) i") auto
  then show "visible_channel sh at i = fmlookup (sv_channels (composed at (sh_view sh))) i"
    using assms(1)
    by (auto simp: visible_channel_def composed_def compose_lookup restrict_lookup or_else_def opt_filter_def split: option.splits if_splits)
  have "fmlookup (ov_users ?ov) s = None \<or> fmlookup (sv_users ?v) s = None"
    using apartD(4) [OF assms(2), of s] by (cases "fmlookup (sv_users ?v) s") auto
  then show "seen_user sh at s = fmlookup (sv_users (composed at (sh_view sh))) s"
    using assms(1)
    by (auto simp: seen_user_def composed_def compose_lookup restrict_lookup or_else_def opt_filter_def split: option.splits if_splits)
qed

subsection \<open>The walk up the tree\<close>

definition climbs :: "(channel_id \<Rightarrow> nat) \<Rightarrow> (channel_id \<Rightarrow> channel option) \<Rightarrow> bool" where
  "climbs r visible \<longleftrightarrow> (\<forall>i c. visible i = Some c \<longrightarrow> ch_parent c \<noteq> i \<longrightarrow> r (ch_parent c) < r i)"

inductive below_in :: "(channel_id \<Rightarrow> channel option) \<Rightarrow> channel_id \<Rightarrow> channel_id \<Rightarrow> bool" for visible root where
  below_root: "below_in visible root root"
| below_step: "visible i = Some c \<Longrightarrow> below_in visible root (ch_parent c) \<Longrightarrow> below_in visible root i"

inductive_simps below_in_iff: "below_in visible root i"

lemma descends_from_returns:
  assumes "climbs r visible"
  shows "\<exists>b. descends_from visible root i = Some b \<and> (b \<longleftrightarrow> below_in visible root i)"
proof (induction "r i" arbitrary: i rule: less_induct)
  case less
  show ?case
  proof (cases "i = root \<or> visible i = None")
    case True
    then show ?thesis
      using below_in_iff [of visible root i] by (subst descends_from.simps) auto
  next
    case False
    then obtain c where c: "visible i = Some c" by auto
    show ?thesis
    proof (cases "ch_parent c = i")
      case own: True
      have "\<not> below_in visible root i"
      proof
        assume "below_in visible root i"
        then have "i = root" using c own by (induction) auto
        then show False using False by simp
      qed
      then show ?thesis using False c own by (subst descends_from.simps) auto
    next
      case up: False
      then have "r (ch_parent c) < r i" using assms c by (simp add: climbs_def)
      then obtain b where "descends_from visible root (ch_parent c) = Some b"
          "b \<longleftrightarrow> below_in visible root (ch_parent c)" using less by blast
      moreover have "below_in visible root i \<longleftrightarrow> below_in visible root (ch_parent c)"
        using c False below_in_iff [of visible root i] by simp
      ultimately show ?thesis using False c up by (subst descends_from.simps) auto
    qed
  qed
qed

text \<open>With two channels that are each other's parent the walk never returns.\<close>

lemma descends_from_cycle:
  assumes "visible i = Some c" "ch_parent c = k" "visible k = Some d" "ch_parent d = i"
    and "i \<noteq> k" "root \<noteq> i" "root \<noteq> k"
  shows "descends_from visible root i = None"
proof -
  have "v = visible \<longrightarrow> t = root \<longrightarrow> j \<noteq> i \<and> j \<noteq> k" if "descends_from v t j = Some b" for v t j b
    by (rule descends_from.raw_induct [where P = "\<lambda>v t j _. v = visible \<longrightarrow> t = root \<longrightarrow> j \<noteq> i \<and> j \<noteq> k", OF _ that])
      (use assms in \<open>fastforce split: if_splits option.splits\<close>)
  then show ?thesis by (cases "descends_from visible root i") auto
qed

subsection \<open>Commands return\<close>

definition sight_ok :: "shard_view \<Rightarrow> attached \<Rightarrow> bool" where
  "sight_ok v at \<longleftrightarrow> (\<forall>sh :: unit shard. sh_view sh = v \<longrightarrow> (\<exists>r. climbs r (visible_channel sh at)))"

lemma visible_channel_view: "sh_view sh = sh_view sh' \<Longrightarrow> visible_channel sh at = visible_channel sh' at"
  by (simp add: visible_channel_def fun_eq_iff)

lemma seen_user_view: "sh_view sh = sh_view sh' \<Longrightarrow> seen_user sh at = seen_user sh' at"
  by (simp add: seen_user_def fun_eq_iff)

lemma sight_okD:
  assumes "sight_ok (sh_view sh) at"
  shows "\<exists>r. climbs r (visible_channel sh at)"
proof -
  let ?sh = "(with_ids 0 () allocator_new)\<lparr>sh_view := sh_view sh\<rparr> :: unit shard"
  have "visible_channel ?sh at = visible_channel sh at" by (simp add: visible_channel_def fun_eq_iff)
  moreover have "\<exists>r. climbs r (visible_channel ?sh at)" using assms by (simp add: sight_ok_def)
  ultimately show ?thesis by simp
qed

lemma sight_ok_queue: "sight_ok v (at\<lparr>at_queue := q\<rparr>) = sight_ok v at"
  by (simp add: sight_ok_def climbs_def visible_channel_def)

lemma ranked_climbs: "ranked r m \<Longrightarrow> climbs r (fmlookup m)"
  unfolding ranked_def climbs_def by metis

lemma sight_ok_composed:
  assumes "at_held at = None" and "apart (restrict v (at_see at)) (at_overlay_sent at)" and "view_ok (composed at v)"
  shows "sight_ok v at"
proof -
  obtain r where r: "ranked r (sv_channels (composed at v))" using view_ok_rank [OF assms(3)] ..
  have "visible_channel sh at = fmlookup (sv_channels (composed at v))" if "sh_view sh = v" for sh :: "unit shard"
    using visible_composed(1) [of at sh] assms(1,2) that by (auto simp: fun_eq_iff)
  then show ?thesis using ranked_climbs [OF r] by (auto simp: sight_ok_def)
qed

lemma sight_ok_held:
  assumes "at_held at = Some h" and "at_see at = NONE_SET" and "at_overlay_sent at = empty_overlay" and "view_ok h"
  shows "sight_ok v at"
proof -
  obtain r where r: "ranked r (sv_channels h)" using view_ok_rank [OF assms(4)] ..
  have "visible_channel sh at = fmlookup (sv_channels h)" for sh :: "unit shard"
    using assms(1-3)
    by (auto simp: visible_channel_def fun_eq_iff or_else_def opt_filter_def empty_overlay_def split: option.splits)
  then show ?thesis using ranked_climbs [OF r] by (auto simp: sight_ok_def)
qed

definition sighted :: "'l shard \<Rightarrow> bool" where
  "sighted sh \<longleftrightarrow> (\<forall>c at. fmlookup (sh_connections sh) c = Some at \<longrightarrow> sight_ok (sh_view sh) at)"

lemma sighted_quiet:
  assumes "sighted sh" and "quiet sh sh'"
  shows "sighted sh'"
  unfolding sighted_def quietD(3) [OF assms(2)]
proof (intro allI impI)
  fix c at' assume "fmlookup (sh_connections sh') c = Some at'"
  then obtain at where at: "fmlookup (sh_connections sh) c = Some at" "queue_step at at'"
    using quietD(10) [OF assms(2)] by blast
  then have "at' = at\<lparr>at_queue := at_queue at'\<rparr>" by (simp add: queue_step_def)
  then show "sight_ok (sh_view sh) at'" using sight_ok_queue assms(1) at(1) unfolding sighted_def by metis
qed

lemma fold_option_total:
  assumes "\<And>x s. x \<in> set xs \<Longrightarrow> I s \<Longrightarrow> \<exists>s'. f x s = Some s' \<and> I s'" and "I s"
  shows "\<exists>s'. fold_option f xs s = Some s' \<and> I s'"
  using assms
proof (induction xs arbitrary: s)
  case (Cons x xs)
  then obtain s1 where "f x s = Some s1" "I s1" by (metis list.set_intros(1))
  then show ?case using Cons.IH [OF _ \<open>I s1\<close>] Cons.prems(1) by simp
qed simp

lemma addressed_total:
  assumes "sight_ok (sh_view sh) at"
  shows "\<exists>b. addressed sh at tt = Some b"
proof -
  obtain r where "climbs r (visible_channel sh at)" using sight_okD [OF assms] ..
  then show ?thesis
    using descends_from_returns by (fastforce simp: addressed_def split: text_target.splits option.splits)
qed

lemma deliver_one_total:
  assumes "sight_ok (sh_view sh) at"
  shows "\<exists>sh'. deliver_one sp speaker tt at sh = Some sh'"
proof -
  obtain b where "addressed sh at tt = Some b" using addressed_total [OF assms] ..
  then show ?thesis by (cases b) (simp_all add: deliver_one_def)
qed

lemma deliver_total:
  assumes "sighted sh"
  shows "\<exists>sh'. deliver sp sh = Some sh' \<and> sighted sh'"
proof -
  let ?at = "fvals (sh_connections sh)"
  have "\<exists>s'. fold_option (deliver_one sp speaker tt) ?at sh = Some s' \<and> sh_view s' = sh_view sh" for speaker tt
  proof (rule fold_option_total)
    fix at and s :: "'a shard"
    assume "at \<in> set ?at" and v: "sh_view s = sh_view sh"
    then have "sight_ok (sh_view s) at" using assms unfolding sighted_def in_set_fvals by auto
    then obtain s' where s': "deliver_one sp speaker tt at s = Some s'" using deliver_one_total by blast
    then show "\<exists>s'. deliver_one sp speaker tt at s = Some s' \<and> sh_view s' = sh_view sh"
      using quietD(3) [OF quiet_deliver_one [OF s']] v by simp
  qed simp
  then have "\<exists>sh'. deliver sp sh = Some sh'"
    by (auto simp: deliver_def Let_def split: option.split)
  then show ?thesis using sighted_quiet [OF assms quiet_deliver] by blast
qed

lemma tell_total:
  assumes "sighted sh"
  shows "\<exists>sh'. tell lg ev sh = Some sh'"
proof -
  obtain l rp where o: "lg_observe lg (sh_logic sh) ev reply_default = (l, rp)" by fastforce
  let ?s1 = "fold deliver_words (items (rp_words rp)) (sh\<lparr>sh_logic := l\<rparr>)"
  have "quiet sh ?s1" using quiet_trans [OF quiet_logic quiet_fold [of deliver_words, OF quiet_words]] .
  then have "sighted ?s1" by (rule sighted_quiet [OF assms])
  then have "\<exists>s2. fold_option deliver (rp_spoken rp) ?s1 = Some s2 \<and> sighted s2"
    using deliver_total by (intro fold_option_total) auto
  then show ?thesis
    using o by (auto simp: tell_def Let_def drain_def drain_spoken_def drain_effects_def)
qed

fun command_sane :: "shard_command \<Rightarrow> bool" where
  "command_sane (Attach _ q _ held _) = (queue_ok q \<and> view_ok held)"
| "command_sane _ = True"

lemma handle_total:
  assumes "sighted sh" and "command_sane cmd"
  shows "\<exists>sh'. handle lg cmd sh = Some sh'"
proof (cases cmd)
  case (Attach c q cursor held ready)
  obtain res ids where al: "alloc_session (Connection c) (sh_ids sh) = (res, ids)" by fastforce
  show ?thesis
  proof (cases res)
    case (Inr s)
    let ?at = "\<lparr>at_id = c, at_session = s, at_cursor = sh_version sh, at_see = NONE_SET,
        at_overlay_sent = empty_overlay, at_actions_sent = fmempty, at_held = Some held,
        at_ready = ready, at_ready_sent = False, at_queue = q, at_shared_cursor = sh_version sh\<rparr>"
    have "sight_ok (sh_view sh) ?at" using assms(2) Attach by (intro sight_ok_held [of _ held]) simp_all
    then have "sighted (sh\<lparr>sh_ids := ids, sh_connections := fmupd c ?at (sh_connections sh)\<rparr>)"
      using assms(1) by (simp add: sighted_def)
    then show ?thesis using tell_total al Inr Attach by (simp add: attach_def Let_def)
  qed (use Attach al in \<open>simp add: attach_def\<close>)
next
  case (Detach c reason handover)
  have "\<exists>sh'. tell lg ev (sh\<lparr>sh_connections := fmdrop c (sh_connections sh), sh_out := out\<rparr>) = Some sh'" for ev out
    using assms(1) by (intro tell_total) (simp add: sighted_def)
  then show ?thesis using Detach by (auto simp: detach_def Let_def split: option.split)
qed (use tell_total [OF assms(1)] in
      \<open>auto simp: requested_channel_def invoked_def said_def requested_self_state_def split: option.split\<close>)

subsection \<open>Relayed text only names what its reader holds\<close>

lemma below_in_closed:
  assumes "below_in visible root i" and "visible i \<noteq> None"
    and "\<And>j c. visible j = Some c \<Longrightarrow> visible (ch_parent c) \<noteq> None"
  shows "visible root \<noteq> None"
  using assms(1,2) by (induction) (use assms(3) in auto)

lemma check_text_relayed:
  assumes "view_ok w" and "\<And>s. actor = Some s \<Longrightarrow> s |\<in>| fmdom (sv_users w)"
    and "case tt of TTSession s \<Rightarrow> s |\<in>| fmdom (sv_users w) | TTChannel i \<Rightarrow> i |\<in>| fmdom (sv_channels w)
      | TTTree i \<Rightarrow> i |\<in>| fmdom (sv_channels w)"
  shows "apply_msg (relayed actor tt text) (model_of w) = Inr (model_of w)"
proof -
  obtain r where r: "ranked r (sv_channels w)" using view_ok_rank [OF assms(1)] ..
  have "judged (model_of w) = Inr (model_of w)" by (rule coherent_judged [OF coherent_model [OF assms(1) r]])
  moreover have "s |\<in>| fmdom (cm_users (model_of w))" if "s |\<in>| fmdom (sv_users w)" for s
    using that model_of_user [OF view_ok_keyed [OF assms(1)], of s] by (auto simp: fmlookup_dom_iff)
  moreover have "i |\<in>| fmdom (cm_channels (model_of w))" if "i |\<in>| fmdom (sv_channels w)" for i
    using that model_of_channel [OF view_ok_keyed [OF assms(1)], of i] by (auto simp: fmlookup_dom_iff)
  ultimately show ?thesis
    using assms(2,3)
    by (auto simp: relayed_def Let_def apply_msg_def check_text_def default_text_def for_all_ok_iff
        split: text_target.splits option.splits)
qed

lemma deliver_one_accepted:
  assumes "at_held at = None" and "apart (restrict (sh_view sh) (at_see at)) (at_overlay_sent at)"
    and ok: "view_ok (composed at (sh_view sh))" and own: "seen_user sh at (at_session at) = Some u"
    and call: "deliver_one sp speaker tt at sh = Some sh'"
  shows "sh' = sh \<or> (sh' = send_to (at_id at) [relayed speaker tt (sp_text sp)] sh \<and>
     apply_msg (relayed speaker tt (sp_text sp)) (model_of (composed at (sh_view sh))) = Inr (model_of (composed at (sh_view sh))))"
proof (cases "addressed sh at tt = Some True \<and> (\<forall>s. speaker = Some s \<longrightarrow> seen_user sh at s \<noteq> None)")
  case False
  then show ?thesis using call by (auto simp: deliver_one_def split: if_splits option.splits bool.splits)
next
  case True
  let ?w = "composed at (sh_view sh)"
  note vis = visible_composed [OF assms(1,2)]
  have actor: "s |\<in>| fmdom (sv_users ?w)" if "speaker = Some s" for s
    using True that vis(2) [of s] by (auto simp: fmlookup_dom_iff)
  have chan: "us_channel u |\<in>| fmdom (sv_channels ?w)" and self: "at_session at |\<in>| fmdom (sv_users ?w)"
    using own vis(2) [of "at_session at"] view_okD(4) [OF ok, of "at_session at" u] by (auto simp: fmlookup_dom_iff)
  have tree: "root |\<in>| fmdom (sv_channels ?w)"
    if "descends_from (visible_channel sh at) root (us_channel u) = Some True" for root
  proof -
    obtain r where "ranked r (sv_channels ?w)" using view_ok_rank [OF ok] ..
    then have "climbs r (visible_channel sh at)" using ranked_climbs vis(1) by (simp add: climbs_def)
    then have "below_in (visible_channel sh at) root (us_channel u)"
      using descends_from_returns [of r "visible_channel sh at" root "us_channel u"] that by auto
    then have "visible_channel sh at root \<noteq> None"
    proof (rule below_in_closed)
      show "visible_channel sh at (us_channel u) \<noteq> None" using chan vis(1) by (auto simp: fmlookup_dom_iff)
      show "visible_channel sh at (ch_parent c) \<noteq> None" if "visible_channel sh at j = Some c" for j c
        using that view_okD(3) [OF ok, of j c] vis(1) by auto
    qed
    then show ?thesis using vis(1) by (auto simp: fmlookup_dom_iff)
  qed
  have "case tt of TTSession s \<Rightarrow> s |\<in>| fmdom (sv_users ?w) | TTChannel i \<Rightarrow> i |\<in>| fmdom (sv_channels ?w)
      | TTTree i \<Rightarrow> i |\<in>| fmdom (sv_channels ?w)"
    using True own chan self tree by (auto simp: addressed_def split: text_target.splits)
  then have "apply_msg (relayed speaker tt (sp_text sp)) (model_of ?w) = Inr (model_of ?w)"
    by (intro check_text_relayed [OF ok actor]) auto
  then show ?thesis using call by (auto simp: deliver_one_def split: if_splits option.splits bool.splits)
qed

end
