(* ===== verification/Driver.thy ===== *)
theory Driver
  imports Shard_Turn
begin

text \<open>
  The task that drives a shard, \<open>run_with_reports\<close> of \<open>shard.rs\<close>, as a step relation. One step is one
  pass through the top of the loop or one completed branch of its \<open>select!\<close>. What the task shares with the
  rest of the program (the mailbox, the wake-up permit and the clock, in milliseconds) is part of the
  state and moves by the steps of the world around it.
\<close>

subsection \<open>The state and its steps\<close>

definition MIN_INTERVAL :: nat where "MIN_INTERVAL = 50"

datatype phase = Top | Waiting | Ended

record 'l driver =
  dr_shard :: "'l shard"
  dr_dirty :: bool
  dr_open :: bool
  dr_next :: nat
  dr_phase :: phase
  dr_box :: "shard_command list"
  dr_gone :: bool
  dr_permit :: bool
  dr_now :: nat

datatype driver_event = Handled shard_command | Published nat reconcile_report

definition driver_start :: "nat \<Rightarrow> 'l shard \<Rightarrow> 'l driver" where
  "driver_start now sh = \<lparr>dr_shard = sh, dr_dirty = False, dr_open = True, dr_next = now, dr_phase = Top,
     dr_box = [], dr_gone = False, dr_permit = False, dr_now = now\<rparr>"

definition due :: "'l driver \<Rightarrow> bool" where
  "due d \<longleftrightarrow> dr_dirty d \<and> (\<not> dr_open d \<or> dr_next d \<le> dr_now d)"

text \<open>The commands a burst took out of the mailbox, of which \<open>box\<close> is what remains.\<close>

definition burst :: "shard_command list \<Rightarrow> shard_command list \<Rightarrow> shard_command list" where
  "burst before box = take (length before - length box) before"

text \<open>
  The steps of the task. While dirty the branches are tried in order (the sleep, the mailbox, the
  permit); otherwise any ready branch may complete.
\<close>

inductive driver_step :: "'l logic \<Rightarrow> 'l driver \<Rightarrow> driver_event list \<Rightarrow> 'l driver \<Rightarrow> bool" for lg where
  publish: "dr_phase d = Top \<Longrightarrow> due d \<Longrightarrow>
     drain_commands lg (dr_gone d) (dr_box d) (dr_shard d) = Some (still, box, sh) \<Longrightarrow>
     reconcile lg sh = (rp, sh') \<Longrightarrow> dr_now d \<le> now \<Longrightarrow>
     driver_step lg d (map Handled (burst (dr_box d) box) @ [Published (dr_now d) rp])
       (d\<lparr>dr_shard := sh', dr_box := box, dr_open := still, dr_dirty := False, dr_now := now,
          dr_next := now + MIN_INTERVAL, dr_phase := if still then Top else Ended\<rparr>)"
| quit: "dr_phase d = Top \<Longrightarrow> \<not> due d \<Longrightarrow> \<not> dr_open d \<Longrightarrow> driver_step lg d [] (d\<lparr>dr_phase := Ended\<rparr>)"
| wait: "dr_phase d = Top \<Longrightarrow> \<not> due d \<Longrightarrow> dr_open d \<Longrightarrow> driver_step lg d [] (d\<lparr>dr_phase := Waiting\<rparr>)"
| slept: "dr_phase d = Waiting \<Longrightarrow> dr_dirty d \<Longrightarrow> dr_next d \<le> dr_now d \<Longrightarrow> driver_step lg d [] (d\<lparr>dr_phase := Top\<rparr>)"
| took_dirty: "dr_phase d = Waiting \<Longrightarrow> dr_dirty d \<Longrightarrow> dr_now d < dr_next d \<Longrightarrow> dr_box d = c # box \<Longrightarrow>
     handle lg c (dr_shard d) = Some sh \<Longrightarrow>
     driver_step lg d [Handled c] (d\<lparr>dr_shard := sh, dr_box := box, dr_phase := Top\<rparr>)"
| closed_dirty: "dr_phase d = Waiting \<Longrightarrow> dr_dirty d \<Longrightarrow> dr_now d < dr_next d \<Longrightarrow> dr_box d = [] \<Longrightarrow> dr_gone d \<Longrightarrow>
     driver_step lg d [] (d\<lparr>dr_open := False, dr_phase := Top\<rparr>)"
| woken_dirty: "dr_phase d = Waiting \<Longrightarrow> dr_dirty d \<Longrightarrow> dr_now d < dr_next d \<Longrightarrow> dr_box d = [] \<Longrightarrow> \<not> dr_gone d \<Longrightarrow>
     dr_permit d \<Longrightarrow> driver_step lg d [] (d\<lparr>dr_permit := False, dr_phase := Top\<rparr>)"
| took: "dr_phase d = Waiting \<Longrightarrow> \<not> dr_dirty d \<Longrightarrow> dr_box d = c # box \<Longrightarrow> handle lg c (dr_shard d) = Some sh \<Longrightarrow>
     driver_step lg d [Handled c] (d\<lparr>dr_shard := sh, dr_box := box, dr_dirty := True, dr_phase := Top\<rparr>)"
| closed: "dr_phase d = Waiting \<Longrightarrow> \<not> dr_dirty d \<Longrightarrow> dr_box d = [] \<Longrightarrow> dr_gone d \<Longrightarrow>
     driver_step lg d [] (d\<lparr>dr_phase := Ended\<rparr>)"
| woken: "dr_phase d = Waiting \<Longrightarrow> \<not> dr_dirty d \<Longrightarrow> dr_permit d \<Longrightarrow>
     driver_step lg d [] (d\<lparr>dr_permit := False, dr_dirty := True, dr_phase := Top\<rparr>)"

text \<open>What handles of the shard and the clock do meanwhile; a full mailbox refuses the sender.\<close>

inductive world_step :: "'l driver \<Rightarrow> 'l driver \<Rightarrow> bool" where
  tick: "dr_now d \<le> now \<Longrightarrow> world_step d (d\<lparr>dr_now := now\<rparr>)"
| send: "\<not> dr_gone d \<Longrightarrow> length (dr_box d) < MAILBOX_DEPTH \<Longrightarrow> command_ok c \<Longrightarrow>
     world_step d (d\<lparr>dr_box := dr_box d @ [c]\<rparr>)"
| hang_up: "world_step d (d\<lparr>dr_gone := True\<rparr>)"
| wake: "\<not> dr_gone d \<Longrightarrow> world_step d (d\<lparr>dr_permit := True\<rparr>)"

inductive driver_run :: "'l logic \<Rightarrow> 'l driver \<Rightarrow> driver_event list \<Rightarrow> 'l driver \<Rightarrow> bool" for lg where
  run_start: "driver_run lg d [] d"
| run_driver: "driver_run lg d es d' \<Longrightarrow> driver_step lg d' fs d'' \<Longrightarrow> driver_run lg d (es @ fs) d''"
| run_world: "driver_run lg d es d' \<Longrightarrow> world_step d' d'' \<Longrightarrow> driver_run lg d es d''"

inductive_cases waiting_step: "driver_step lg d es d'"

fun published_at :: "driver_event \<Rightarrow> nat option" where
  "published_at (Published t _) = Some t"
| "published_at (Handled _) = None"

abbreviation publications :: "driver_event list \<Rightarrow> nat list" where
  "publications es \<equiv> filter_map published_at es"

subsection \<open>The bounded burst\<close>

lemma drain_burst_cases:
  assumes "drain_burst n lg gone box sh = Some (still, rest, sh')"
  shows "\<exists>k \<le> n. k \<le> length box \<and> rest = drop k box" and "\<not> still \<Longrightarrow> gone \<and> rest = []" and "0 < n \<Longrightarrow> gone \<Longrightarrow> box = [] \<Longrightarrow> \<not> still"
proof -
  show "\<exists>k \<le> n. k \<le> length box \<and> rest = drop k box"
    using assms
  proof (induction n lg gone box sh rule: drain_burst.induct)
    case (3 n lg gone c box sh)
    then obtain sh1 where "handle lg c sh = Some sh1" "drain_burst n lg gone box sh1 = Some (still, rest, sh')"
      by (auto split: option.splits)
    from 3(1) [OF this] obtain k where "k \<le> n" "k \<le> length box" "rest = drop k box" by blast
    then show ?case by (intro exI [of _ "Suc k"]) simp
  qed auto
  show "\<not> still \<Longrightarrow> gone \<and> rest = []"
    using assms by (induction n lg gone box sh rule: drain_burst.induct) (auto split: option.splits)
  show "0 < n \<Longrightarrow> gone \<Longrightarrow> box = [] \<Longrightarrow> \<not> still" using assms by (cases n) auto
qed

lemma drain_commands_cases:
  assumes "drain_commands lg gone box sh = Some (still, rest, sh')"
  shows "length (burst box rest) \<le> MAILBOX_DEPTH" and "burst box rest @ rest = box"
    and "\<not> still \<Longrightarrow> gone \<and> rest = []" and "gone \<Longrightarrow> box = [] \<Longrightarrow> \<not> still"
proof -
  note a = assms [unfolded drain_commands_def]
  obtain k where "k \<le> MAILBOX_DEPTH" "k \<le> length box" "rest = drop k box" using drain_burst_cases(1) [OF a] by blast
  then show "length (burst box rest) \<le> MAILBOX_DEPTH" "burst box rest @ rest = box" by (auto simp: burst_def)
  show "\<not> still \<Longrightarrow> gone \<and> rest = []" "gone \<Longrightarrow> box = [] \<Longrightarrow> \<not> still"
    using drain_burst_cases(2,3) [OF a] by (auto simp: MAILBOX_DEPTH_def)
qed

subsection \<open>Commands publish nothing\<close>

definition unpublished :: "'l shard \<Rightarrow> 'l shard \<Rightarrow> bool" where
  "unpublished sh sh' \<longleftrightarrow> sh_version sh' = sh_version sh \<and> sh_view sh' = sh_view sh \<and> sh_journal sh' = sh_journal sh \<and>
     sh_routing sh' = sh_routing sh"

lemma unpublished_refl [simp]: "unpublished sh sh"
  by (simp add: unpublished_def)

lemma unpublished_told: "tell lg ev sh = Some sh' \<Longrightarrow> unpublished sh sh'"
  using quietD(3,4,5,7) [OF quiet_tell [of lg ev sh sh']] by (simp add: unpublished_def)

lemma unpublished_from: "unpublished sh1 sh' \<Longrightarrow> unpublished sh sh1 \<Longrightarrow> unpublished sh sh'"
  by (simp add: unpublished_def)

lemma unpublished_quiet: "quiet sh sh' \<Longrightarrow> unpublished sh sh'"
  by (simp add: unpublished_def quietD)

lemma unpublished_attach: "attach lg c q cursor held ready sh = Some sh' \<Longrightarrow> unpublished sh sh'"
  by (auto simp: attach_def Let_def unpublished_def split: sum.splits prod.splits
      dest!: unpublished_told [unfolded unpublished_def])

lemma unpublished_detach: "detach lg c reason handover sh = Some sh' \<Longrightarrow> unpublished sh sh'"
  by (auto simp: detach_def Let_def unpublished_def split: option.splits
      dest!: unpublished_told [unfolded unpublished_def])

lemma unpublished_retry: "unpublished sh (retry c sh)"
  by (simp add: retry_def unpublished_def split: option.split prod.split)

lemma handle_unpublished:
  assumes "handle lg cmd sh = Some sh'"
  shows "unpublished sh sh'"
proof (cases cmd)
  case (Attach c q cursor held ready)
  then show ?thesis using unpublished_attach assms by simp
next
  case (Detach c reason handover)
  then show ?thesis using unpublished_detach assms by simp
next
  case (Drained c)
  then show ?thesis using unpublished_retry assms by auto
next
  case (QueriedPermissions c i)
  then have "quiet sh sh'" using assms quiet_answer by (auto simp: queried_permissions_def split: option.splits)
  then show ?thesis by (rule unpublished_quiet)
next
  case (QueriedUserStats c t)
  then have "quiet sh sh'" using assms quiet_answer by (auto simp: queried_user_stats_def split: option.splits)
  then show ?thesis by (rule unpublished_quiet)
next
  case (Wrote c t msg)
  then have "quiet sh sh'"
    using assms quiet_answer quiet_tell [of lg _ sh sh'] by (auto simp: said_def split: option.splits if_splits)
  then show ?thesis by (rule unpublished_quiet)
next
  case (Requested c i)
  then show ?thesis using assms unpublished_told by (auto simp: requested_channel_def split: option.splits)
next
  case (AskedSelfState c m d)
  then show ?thesis using assms unpublished_told by (auto simp: requested_self_state_def split: if_splits)
next
  case (Invoked c act s i)
  then show ?thesis using assms unpublished_told by (auto simp: invoked_def split: option.splits)
qed

lemma drain_keeps:
  assumes "drain_burst n lg gone box sh = Some (still, rest, sh')"
  shows "unpublished sh sh'" and "shard_inv sh \<Longrightarrow> list_all command_ok box \<Longrightarrow> shard_inv sh'"
  using assms
proof (induction n lg gone box sh rule: drain_burst.induct)
  case (3 n lg gone c box sh)
  case 1
  then obtain sh1 where "handle lg c sh = Some sh1" "drain_burst n lg gone box sh1 = Some (still, rest, sh')"
    by (auto split: option.splits)
  then show ?case using 3(1) handle_unpublished unpublished_from by blast
next
  case (3 n lg gone c box sh)
  case 2
  then obtain sh1 where "handle lg c sh = Some sh1" "drain_burst n lg gone box sh1 = Some (still, rest, sh')"
    by (auto split: option.splits)
  then show ?case using 3(2) shard_inv_handle 2 by auto
qed auto

subsection \<open>What a run of the task keeps\<close>

definition driver_inv :: "'l driver \<Rightarrow> bool" where
  "driver_inv d \<longleftrightarrow>
     (dr_phase d = Ended \<longrightarrow> \<not> dr_dirty d) \<and>
     (\<not> dr_open d \<longrightarrow> dr_gone d \<and> dr_box d = [] \<and> (dr_dirty d \<or> dr_phase d = Ended)) \<and>
     list_all command_ok (dr_box d)"

lemma driver_inv_start: "driver_inv (driver_start t sh)"
  by (simp add: driver_inv_def driver_start_def)

lemma driver_inv_step: "driver_step lg d es d' \<Longrightarrow> driver_inv d \<Longrightarrow> driver_inv d'"
proof (induction rule: driver_step.cases)
  case (publish d still box sh rp sh' now)
  have "list_all command_ok (burst (dr_box d) box @ box)"
    unfolding drain_commands_cases(2) [OF publish(6)] using publish(1,9) by (simp add: driver_inv_def)
  then have "list_all command_ok box" by simp
  then show ?case using drain_commands_cases(3) [OF publish(6)] publish by (auto simp: driver_inv_def)
qed (auto simp: driver_inv_def due_def)

lemma driver_inv_world: "world_step d d' \<Longrightarrow> driver_inv d \<Longrightarrow> driver_inv d'"
  by (induction rule: world_step.cases) (auto simp: driver_inv_def)

lemma driver_inv_run: "driver_run lg d es d' \<Longrightarrow> driver_inv d \<Longrightarrow> driver_inv d'"
  by (induction rule: driver_run.induct) (auto intro: driver_inv_step driver_inv_world)

text \<open>A command taken is published before the task ends.\<close>

definition unsettled :: "driver_event list \<Rightarrow> bool" where
  "unsettled es \<longleftrightarrow> es \<noteq> [] \<and> published_at (last es) = None"

lemma unsettled_step: "driver_step lg d fs d' \<Longrightarrow> (unsettled es \<longrightarrow> dr_dirty d) \<Longrightarrow> dr_phase d \<noteq> Ended \<Longrightarrow>
    (unsettled (es @ fs) \<longrightarrow> dr_dirty d')"
  by (induction rule: driver_step.cases) (auto simp: unsettled_def)

lemma unsettled_run:
  assumes "driver_run lg d es d'" and "\<not> dr_dirty d"
  shows "unsettled es \<longrightarrow> dr_dirty d'"
  using assms
proof (induction rule: driver_run.induct)
  case (run_driver d es d' fs d'')
  then show ?case using unsettled_step [OF run_driver(2)] by (auto elim: driver_step.cases)
next
  case (run_world d es d' d'')
  then show ?case by (auto elim!: world_step.cases)
qed (simp add: unsettled_def)

text \<open>Publications of a live mailbox keep their distance.\<close>

definition spaced :: "nat list \<Rightarrow> bool" where
  "spaced ts \<longleftrightarrow> sorted_wrt (\<lambda>t u. t + MIN_INTERVAL \<le> u) ts"

definition rate_inv :: "driver_event list \<Rightarrow> 'l driver \<Rightarrow> bool" where
  "rate_inv es d \<longleftrightarrow> spaced (if dr_phase d = Ended then butlast (publications es) else publications es) \<and>
     (dr_phase d \<noteq> Ended \<longrightarrow> (\<forall>t \<in> set (publications es). t + MIN_INTERVAL \<le> dr_next d))"

lemma spaced_snoc: "spaced (ts @ [u]) \<longleftrightarrow> spaced ts \<and> (\<forall>t \<in> set ts. t + MIN_INTERVAL \<le> u)"
  by (auto simp: spaced_def sorted_wrt_append)

lemma spaced_butlast: "spaced ts \<Longrightarrow> spaced (butlast ts)"
  by (cases ts rule: rev_cases) (simp_all add: spaced_snoc)

lemma publications_handled [simp]: "publications (map Handled cs) = []"
  by (induction cs) auto

lemma rate_step:
  assumes "driver_step lg d fs d'" and "driver_inv d" and "rate_inv es d"
  shows "rate_inv (es @ fs) d'"
  using assms
proof (induction rule: driver_step.cases)
  case (publish d still box sh rp sh' now)
  note drained = drain_commands_cases [OF publish(6)]
  have "dr_open d \<or> \<not> still" using publish(1,9) drained(4) by (auto simp: driver_inv_def)
  then consider "\<not> still" | "still" "dr_next d \<le> dr_now d" using publish(5) by (auto simp: due_def)
  then show ?case
  proof cases
    case 1
    then show ?thesis using publish by (simp add: rate_inv_def)
  next
    case 2
    then show ?thesis using publish by (auto simp: rate_inv_def spaced_snoc intro: order_trans)
  qed
qed (auto simp: rate_inv_def intro: spaced_butlast)

lemma rate_world: "world_step d d' \<Longrightarrow> rate_inv es d \<Longrightarrow> rate_inv es d'"
  by (induction rule: world_step.cases) (simp_all add: rate_inv_def)

lemma rate_run:
  assumes "driver_run lg d es d'" and "driver_inv d" and "rate_inv [] d"
  shows "rate_inv es d'"
  using assms
proof (induction rule: driver_run.induct)
  case (run_driver d es d' fs d'')
  then show ?case using rate_step driver_inv_run by blast
next
  case (run_world d es d' d'')
  then show ?case using rate_world by blast
qed

text \<open>No sender can postpone a publication that is due.\<close>

lemma due_publishes:
  assumes "dr_dirty d" and "dr_next d \<le> dr_now d" and "driver_step lg d es d'" and "driver_step lg d' fs d''"
  shows "publications (es @ fs) \<noteq> []"
proof -
  have "dr_phase d = Top \<Longrightarrow> publications es \<noteq> []"
    using assms(3) by (rule driver_step.cases) (use assms(1,2) in \<open>auto simp: due_def\<close>)
  moreover have "dr_phase d \<noteq> Top \<Longrightarrow> d' = d\<lparr>dr_phase := Top\<rparr>"
    using assms(3) by (rule driver_step.cases) (use assms(1,2) in auto)
  moreover have "dr_phase d' = Top \<Longrightarrow> dr_dirty d' \<Longrightarrow> dr_next d' \<le> dr_now d' \<Longrightarrow> publications fs \<noteq> []"
    using assms(4) by (rule driver_step.cases) (auto simp: due_def)
  ultimately show ?thesis using assms(1,2) by (cases "dr_phase d = Top") auto
qed

subsection \<open>The shard under its driver\<close>

context flavor
begin

lemma reconcile_version:
  assumes "shard_inv sh" and "reconcile lg sh = (rp, sh')"
  shows "unat (sh_version sh') \<le> Suc (unat (sh_version sh))"
  using assms
proof (cases rule: reconcile_cases)
  case (advanced l bd C rd obs)
  have "unat (saturating_add v 1) \<le> Suc (unat v)" for v :: u64
    by (simp add: unat_saturating_add)
  then show ?thesis using advance_fields [OF advanced(4)] by simp
qed auto

lemma driver_shard_inv:
  assumes "driver_run lg d es d'" and "driver_inv d" and "shard_inv (dr_shard d)"
    and "unat (sh_version (dr_shard d)) + length (publications es) < 2 ^ 64"
  shows "shard_inv (dr_shard d') \<and>
    unat (sh_version (dr_shard d')) \<le> unat (sh_version (dr_shard d)) + length (publications es)"
  using assms
proof (induction rule: driver_run.induct)
  case (run_driver d es d' fs d'')
  let ?v = "unat (sh_version (dr_shard d))"
  have inv: "shard_inv (dr_shard d')" and v: "unat (sh_version (dr_shard d')) \<le> ?v + length (publications es)"
    using run_driver by auto
  have box: "list_all command_ok (dr_box d')" using driver_inv_run [OF run_driver(1,4)] by (simp add: driver_inv_def)
  have plain: ?case if "dr_shard d'' = dr_shard d' \<or> (\<exists>c \<in> set (dr_box d'). handle lg c (dr_shard d') = Some (dr_shard d''))"
    using that inv v box shard_inv_handle [OF inv] handle_unpublished [of lg _ "dr_shard d'" "dr_shard d''"]
    by (auto simp: list_all_iff unpublished_def)
  from run_driver(2) show ?case
  proof (cases rule: driver_step.cases)
    case (publish still box' sh rp sh')
    note kept = drain_keeps [OF publish(5) [unfolded drain_commands_def]]
    have shard: "shard_inv sh" using kept(2) inv box by simp
    have ver: "sh_version sh = sh_version (dr_shard d')" using kept(1) by (simp add: unpublished_def)
    have n: "length (publications (es @ fs)) = Suc (length (publications es))" using publish(1) by simp
    have "unat (sh_version sh) < 2 ^ 64 - 1" using v ver n run_driver(6) by simp
    then have "shard_inv sh'" using shard_inv_reconcile [OF shard _ publish(6)] by simp
    then show ?thesis using reconcile_version [OF shard publish(6)] ver v n publish(2) by simp
  qed (rule plain, simp)+
next
  case (run_world d es d' d'')
  then have "dr_shard d'' = dr_shard d'" by (auto elim: world_step.cases)
  then show ?case using run_world by simp
qed simp

end

end
