(* ===== verification/Samples_Shard.thy ===== *)
theory Samples_Shard
  imports Samples Shard_Text Driver
begin

text \<open>
  A concrete shard for the examples: a flavor that renders one public room, a connection that has just
  attached to it, and the first turn, which hands that connection the room.
\<close>

definition room_logic :: "unit logic" where
  "room_logic = \<lparr>lg_render = (\<lambda>l bd. (l, snd (build_root ''Room'' bd))),
     lg_observation = (\<lambda>l _. (l, w_see)), lg_observe = (\<lambda>l _ out. (l, out))\<rparr>"

definition room_view :: shard_view where
  "room_view = \<lparr>sv_channels = fmupd ROOT_ID (new_channel ROOT_KEY ROOT_ID ROOT_ID ROOT_SCOPE ''Room'') fmempty, sv_users = fmempty\<rparr>"

definition room_at :: attached where
  "room_at = \<lparr>at_id = 7, at_session = 1, at_cursor = 0, at_see = NONE_SET,
     at_overlay_sent = empty_overlay, at_actions_sent = fmempty, at_held = Some empty_view,
     at_ready = False, at_ready_sent = False, at_queue = with_capacity 10, at_shared_cursor = 0\<rparr>"

definition room_shard :: "unit shard" where
  "room_shard = (shard_new 1 ())\<lparr>sh_ids := snd (alloc_session (Connection 7) allocator_new),
     sh_connections := fmupd 7 room_at fmempty\<rparr>"

lemma room_fields: "sh_view room_shard = empty_view" "sh_connections room_shard = fmupd 7 room_at fmempty"
  "sh_version room_shard = 0" "sh_logic room_shard = ()"
  by (simp_all add: room_shard_def shard_new_def with_ids_def)

lemma room_flavor: "flavor room_logic"
proof
  fix ids shard cs and l l' :: unit and bd
  assume "lg_render room_logic l (builder_new ids shard cs) = (l', bd)"
  then have "build_root ''Room'' (builder_new ids shard cs) = (fst (build_root ''Room'' (builder_new ids shard cs)), bd)"
    by (simp add: room_logic_def) (metis prod.collapse)
  then show "\<exists>C. rendering (builder_new ids shard cs) C bd" using r_root [OF r_start] by blast
qed

lemma room_attached: "handle room_logic (attach_command 7 (with_capacity 10)) (shard_new 1 ()) = Some room_shard"
  by (simp add: attach_command_def attach_def shard_new_def with_ids_def alloc_session_def allocator_new_def room_at_def
      tell_def room_logic_def drain_def drain_spoken_def drain_effects_def reply_default_def items_empty room_shard_def)

lemma room_inv: "shard_inv (shard_new 1 ())" "shard_inv room_shard"
proof -
  show new: "shard_inv (shard_new 1 ())" unfolding shard_new_def by (rule shard_inv_new [OF alloc_inv_new])
  show "shard_inv room_shard"
    by (rule shard_inv_handle [OF new _ room_attached]) (simp add: attach_command_def queue_ok_new)
qed

lemma room_rendered:
  "finish obs (snd (build_root ''Room'' (builder_new ids i cs))) =
     Inr \<lparr>rd_view = room_view, rd_overlays = fmempty, rd_actions = fmempty, rd_audio = relation_default\<rparr>"
  unfolding finish_iff
  by (simp add: build_root_def builder_new_def room_view_def empty_view_def new_channel_def check_shared_xor_private_def
      check_overlay_references_def check_receivers_see_senders_def relation_default_def items_empty listeners_of_def
      explicit_edges_def Let_def sorted_list_of_fset.rep_eq bot_fset.rep_eq filter_map_def)

lemma room_plan: "map po_op (plan empty_view room_view) = [CreateChannel (new_channel ROOT_KEY ROOT_ID ROOT_ID ROOT_SCOPE ''Room'')]"
  by (simp add: plan_phases room_view_def items_upd order_creations_def empty_view_def items_empty chan_create_def chan_update_def
      withdrawn_users_def withdrawn_channels_def order_removals_def planned_def order_loop.simps chan_rescoped_def new_channel_def)

lemma room_view_ok: "view_ok room_view" "ranked (\<lambda>_. 0) (sv_channels room_view)"
proof -
  show r: "ranked (\<lambda>_. 0) (sv_channels room_view)" by (auto simp: ranked_def room_view_def new_channel_def split: if_splits)
  show "view_ok room_view"
    unfolding view_ok_def view_keyed_def view_closed_def sc.refs_closed_def
    using r by (auto simp: room_view_def new_channel_def split: if_splits)
qed

lemma room_transition: "transition_ok (\<lambda>_. 0) empty_view empty_overlay room_view empty_overlay"
proof -
  have "ranked (\<lambda>_. 0) (sv_channels empty_view)" "keeps_links empty_view empty_overlay room_view empty_overlay" "settled empty_overlay room_view empty_overlay"
    "apart empty_view empty_overlay" "apart room_view empty_overlay" "ROOT_ID |\<in>| fmdom (sv_channels room_view)"
    by (simp_all add: ranked_def empty_view_def keeps_links_def compose_lookup empty_overlay_def settled_def apart_def room_view_def
      in_filter_map_items)
  then show ?thesis using room_view_ok view_ok_empty by (simp add: transition_ok_def compose_empty)
qed

definition room_served :: attached where
  "room_served = commit 1 w_see empty_overlay fmempty
     (room_at\<lparr>at_queue := extended (transition_messages (collapse (map po_op (plan empty_view room_view))) fmempty room_at) (at_queue room_at)\<rparr>)"

lemma room_replanned:
  "serve (fmupd 7 w_see fmempty) \<lparr>rd_view = room_view, rd_overlays = fmempty, rd_actions = fmempty, rd_audio = relation_default\<rparr>
     empty_view j 1 {|7|} room_at = ((Advanced, {||}), room_served)"
  by (simp add: serve_def room_at_def replan_def Let_def fm_get_or_def observed_def compose_empty w_restrict composed_def hand_over_def
    room_plan collapse_def transition_messages_def emit_def extended_def try_reserve_def retired_channels_def try_send_all_def with_capacity_def
    emit_actions_def items_empty room_served_def)

lemma room_turn:
  obtains rp sh' where "reconcile room_logic room_shard = (rp, sh')" "fmlookup (sh_connections sh') 7 = Some room_served"
    "sh_view sh' = room_view"
proof -
  let ?obs = "fmupd 7 w_see fmempty" and ?rd = "\<lparr>rd_view = room_view, rd_overlays = fmempty, rd_actions = fmempty, rd_audio = relation_default\<rparr>"
  note fields = room_fields
  have keys: "fkeys (fmupd 7 room_at fmempty) = [7]" by (simp add: items_upd items_empty)
  have moved: "moved_of ?obs (fmupd 7 room_at fmempty) = [7]"
    unfolding moved_of_def keys by (simp add: room_at_def)
  have "map po_op (plan empty_view room_view) \<noteq> []" unfolding room_plan by simp
  then have ops: "plan empty_view room_view \<noteq> []" by auto
  let ?sh = "room_shard\<lparr>sh_logic := (), sh_ids := bd_ids (snd (build_root ''Room'' (builder_new (sh_ids room_shard) (sh_id room_shard) [7])))\<rparr>"
  have rec: "reconcile room_logic room_shard = advance ?obs ?rd (plan empty_view room_view) [7] ?sh"
    unfolding reconcile_def fields keys
    using ops by (simp add: room_logic_def observe_all_def Let_def room_rendered fields moved)
  obtain rp sh' where adv: "advance ?obs ?rd (plan empty_view room_view) [7] ?sh = (rp, sh')" by fastforce
  note f = advance_fields [OF adv]
  have "fmlookup (sh_connections sh') 7 = Some room_served"
    using f(7) [of 7] ops room_replanned by (simp add: fields served_def saturating_add_def)
  then show ?thesis using that rec adv f(2) by simp
qed

text \<open>A render in which one user is heard by another.\<close>

definition duet_builder :: builder where
  "duet_builder =
     (let (room, bd) = build_root ''Room'' (builder_new allocator_new 1 [7, 8]);
          bd = snd (build_user room (Connection 7) ''Ann'' Same bd);
          bd = snd (build_user room (Connection 8) ''Bob'' Same bd)
      in build_audio_edge 7 8 bd)"

definition duet_view :: shard_view where
  "duet_view = room_view\<lparr>sv_users := fmupd 2 (new_user (Connection 8) 2 ROOT_ID ROOT_SCOPE ''Bob'')
     (fmupd 1 (new_user (Connection 7) 1 ROOT_ID ROOT_SCOPE ''Ann'') fmempty)\<rparr>"

lemma duet_rendering: "\<exists>C. rendering (builder_new allocator_new 1 [7, 8]) C duet_builder"
proof -
  let ?bd = "builder_new allocator_new 1 [7, 8]"
  obtain room bd1 where r: "build_root ''Room'' ?bd = (room, bd1)" by fastforce
  obtain u bd2 where u: "build_user room (Connection 7) ''Ann'' Same bd1 = (u, bd2)" by fastforce
  obtain v bd3 where v: "build_user room (Connection 8) ''Bob'' Same bd2 = (v, bd3)" by fastforce
  have "rendering ?bd {room} (build_audio_edge 7 8 bd3)"
    using r_edge [OF r_user [OF r_user [OF r_root [OF r_start r] _ u] _ v]] by simp
  then show ?thesis using r u v by (auto simp: duet_builder_def)
qed

lemma duet_fields: "bd_error duet_builder = None" "bd_rooted duet_builder" "bd_view duet_builder = duet_view"
  "bd_overlays duet_builder = fmempty" "bd_actions duet_builder = fmempty" "bd_audio duet_builder = audio_edge 7 8 relation_default"
  by (simp_all add: duet_builder_def build_root_def builder_new_def build_user_def narrowed_def alloc_session_def allocator_new_def
      checked_add_def build_audio_edge_def duet_view_def room_view_def empty_view_def Let_def
      new_channel_def new_user_def)

definition duet_rendered :: rendered where
  "duet_rendered = \<lparr>rd_view = duet_view, rd_overlays = fmempty, rd_actions = fmempty, rd_audio = audio_edge 7 8 relation_default\<rparr>"

lemma duet_audio: "sees_itself duet_view (audio_edge 7 8 relation_default) obs" "xor_private duet_view fmempty"
  "(s, r) |\<in>| resolve (audio_edge 7 8 relation_default) \<longleftrightarrow> s = 7 \<and> r = 8"
  by (simp_all add: sees_itself_def audio_edge_def relation_default_def xor_private_def sees_privately_def privately_of_def
      in_resolve hears_def collect_map_def items_empty)

lemma duet_checked: "check_receivers_see_senders duet_view fmempty (audio_edge 7 8 relation_default) (fmupd 8 w_see fmempty) = Inr ()"
proof -
  have "fmlookup (shared_scopes_of duet_view) 7 = Some ROOT_SCOPE"
    by (simp add: shared_scopes_of_def duet_view_def items_upd items_empty collect_map_def new_user_def fmdrop_fmupd)
  then have "can_see 8 7 (shared_scopes_of duet_view) (privately_of fmempty) (fmupd 8 w_see fmempty)"
    by (simp add: can_see_def observed_def fm_get_or_def w_sees)
  then show ?thesis using check_receivers_iff [OF duet_audio(1,2)] duet_audio(3) by simp
qed

lemma duet_finished: "finish (fmupd 8 w_see fmempty) duet_builder = Inr duet_rendered"
  unfolding finish_iff duet_fields using duet_checked
  by (simp add: duet_rendered_def check_xor_iff check_overlay_iff duet_fields(2))

definition blank_logic :: "unit logic" where
  "blank_logic = room_logic\<lparr>lg_render := \<lambda>l bd. (l, bd)\<rparr>"

text \<open>A run of the task: one connection attaches, every handle is dropped, the turn is published and the task ends.\<close>

lemma room_run:
  obtains rp d where "driver_run room_logic (driver_start 0 (shard_new 1 ())) [Handled (attach_command 7 (with_capacity 10)), Published 0 rp] d"
    "dr_phase d = Ended" "fmlookup (sh_connections (dr_shard d)) 7 = Some room_served"
proof -
  let ?c = "attach_command 7 (with_capacity 10)" and ?d = "driver_start 0 (shard_new 1 ())"
  obtain rp sh' where turn: "reconcile room_logic room_shard = (rp, sh')" "fmlookup (sh_connections sh') 7 = Some room_served"
    by (rule room_turn)
  have "driver_run room_logic ?d [] (?d\<lparr>dr_box := [?c]\<rparr>)"
    using run_world [OF run_start, of ?d "?d\<lparr>dr_box := dr_box ?d @ [?c]\<rparr>"] send [of ?d ?c]
    by (simp add: driver_start_def MAILBOX_DEPTH_def attach_command_def queue_ok_new)
  then have "driver_run room_logic ?d [] (?d\<lparr>dr_box := [?c], dr_gone := True\<rparr>)" using run_world hang_up by blast
  moreover have "driver_step room_logic (?d\<lparr>dr_box := [?c], dr_gone := True\<rparr>) [] (?d\<lparr>dr_box := [?c], dr_gone := True, dr_phase := Waiting\<rparr>)"
    using wait [of "?d\<lparr>dr_box := [?c], dr_gone := True\<rparr>"] by (simp add: driver_start_def due_def)
  ultimately have "driver_run room_logic ?d ([] @ []) (?d\<lparr>dr_box := [?c], dr_gone := True, dr_phase := Waiting\<rparr>)" by (rule run_driver)
  moreover have "driver_step room_logic (?d\<lparr>dr_box := [?c], dr_gone := True, dr_phase := Waiting\<rparr>) [Handled ?c]
      (?d\<lparr>dr_shard := room_shard, dr_gone := True, dr_dirty := True\<rparr>)"
    using took [of "?d\<lparr>dr_box := [?c], dr_gone := True, dr_phase := Waiting\<rparr>" ?c "[]" room_logic room_shard] room_attached
    by (simp add: driver_start_def)
  ultimately have "driver_run room_logic ?d (([] @ []) @ [Handled ?c]) (?d\<lparr>dr_shard := room_shard, dr_gone := True, dr_dirty := True\<rparr>)"
    by (rule run_driver)
  moreover have "driver_step room_logic (?d\<lparr>dr_shard := room_shard, dr_gone := True, dr_dirty := True\<rparr>) [Published 0 rp]
      (?d\<lparr>dr_shard := sh', dr_gone := True, dr_open := False, dr_next := MIN_INTERVAL, dr_phase := Ended\<rparr>)"
    using publish [of "?d\<lparr>dr_shard := room_shard, dr_gone := True, dr_dirty := True\<rparr>" room_logic False "[]" room_shard rp sh' 0] turn(1)
    by (simp add: driver_start_def due_def drain_commands_def MAILBOX_DEPTH_def burst_def eval_nat_numeral)
  ultimately have "driver_run room_logic ?d ((([] @ []) @ [Handled ?c]) @ [Published 0 rp])
      (?d\<lparr>dr_shard := sh', dr_gone := True, dr_open := False, dr_next := MIN_INTERVAL, dr_phase := Ended\<rparr>)" by (rule run_driver)
  then show ?thesis using that turn(2) by simp
qed

end
