(* ===== verification/Samples_Arena.thy ===== *)
theory Samples_Arena
  imports Arena_Apart Samples_Shard
begin

text \<open>A concrete arena with a single player, whose render is accepted.\<close>

definition solo_arena :: arena where
  "solo_arena = \<lparr>an_directory = directory_new, an_destinations = \<lparr>de_lobby = None, de_arena = None\<rparr>, an_chosen = fmempty,
     an_roles = fmupd 7 (Player Red) fmempty\<rparr>"

text \<open>A builder without errors, overlays, sound or users so far, and the numbers it has drawn.\<close>

definition bare :: "u32 \<Rightarrow> channel_key fset \<Rightarrow> builder \<Rightarrow> bool" where
  "bare n ks bd \<longleftrightarrow> bd_error bd = None \<and> bd_keys_seen bd = ks \<and> bd_shard bd = 1 \<and> bd_rooted bd \<and> bd_overlays bd = fmempty \<and>
     bd_audio bd = relation_default \<and> bd_occupants_seen bd = {||} \<and> sv_users (bd_view bd) = fmempty \<and>
     next_channel (bd_ids bd) = Some n \<and> (\<forall>k. k |\<in>| ks \<or> fmlookup (al_channels (bd_ids bd)) (1, k) = None) \<and>
     next_session (bd_ids bd) = Some 1 \<and> al_sessions (bd_ids bd) = fmempty"

lemma bare_channel:
  assumes "bare n ks bd" and "build_channel p key name w bd = (r, bd')" and "cr_scope p = ROOT_SCOPE" and "key |\<notin>| ks"
    and "checked_add n 1 = Some m"
  shows "bare m (finsert key ks) bd' \<and> (\<forall>g. w = Into g \<longrightarrow> cr_scope r = child_or_root g)"
proof -
  have "child ROOT_SCOPE g = Some (child_or_root g)" for g
    by (simp add: child_or_root_def child_def ROOT_SCOPE_def MAX_DEPTH_def)
  moreover have "fmlookup (al_channels (bd_ids bd)) (1, key) = None" using assms(1,4) by (auto simp: bare_def)
  ultimately show ?thesis
    using assms by (cases w) (auto simp: bare_def build_channel_def narrowed_def Let_def alloc_channel_def split: if_splits)
qed

lemma bare_edits: "bare n ks bd \<Longrightarrow> bare n ks (channel_position p x bd)" "bare n ks bd \<Longrightarrow> bare n ks (channel_can_text p y bd)"
  by (simp_all add: bare_def channel_position_def channel_can_text_def)

lemma solo_render:
  obtains bd u where "arena_render solo_arena (builder_new allocator_new 1 [7]) = (solo_arena, bd)"
    "finish (fmupd 7 (snd (arena_observation solo_arena 7)) fmempty) bd =
       Inr \<lparr>rd_view = bd_view bd, rd_overlays = fmempty, rd_actions = bd_actions bd, rd_audio = bd_audio bd\<rparr>"
    "fmlookup (sv_users (bd_view bd)) 1 = Some u" "us_scope u = side_scope Red"
proof -
  let ?bd0 = "builder_new allocator_new 1 [7]"
  obtain st bd where r: "arena_render solo_arena ?bd0 = (st, bd)" by fastforce
  obtain root red blue deck neutral home bd1 bd2 bd3 bd4 bd5 bd6 bd7 bd8 where
    b: "build_root ''The Arena'' ?bd0 = (root, bd1)"
    "build_channel root RED_BASE ''Red Base'' (Into (side_segment Red)) bd1 = (red, bd2)"
    "build_channel root BLUE_BASE ''Blue Base'' (Into (side_segment Blue)) bd2 = (blue, bd3)"
    "build_channel root DECK ''Observation Deck'' (Into DECK_SEGMENT) bd3 = (deck, bd4)"
    "build_channel root NEUTRAL ''Neutral Ground'' Same bd4 = (neutral, bd5)"
    "build_channel root BACK ''< Back to the Lobby'' Same bd5 = (home, bd6)"
    and bd7: "bd7 = channel_can_text home False (channel_position home 5 (channel_position neutral 4
       (channel_position deck 3 (channel_position blue 2 (channel_position red 1 bd6)))))"
    and bd8: "bd8 = fold arena_listen (spectators (an_roles solo_arena)) (build_audio_domain DECK_VOICE (spectators (an_roles solo_arena))
       (build_audio_domain BLUE_VOICE (members_of (an_roles solo_arena) Blue)
         (build_audio_domain RED_VOICE (members_of (an_roles solo_arena) Red)
           (fold (arena_place red blue deck (an_directory solo_arena)) (items (an_roles solo_arena)) bd7))))"
    and st: "st = solo_arena" and bd: "bd = fold (arena_admin root red blue (an_roles solo_arena) (an_directory solo_arena)) (admins (an_roles solo_arena)) bd8"
    by (rule arena_render_parts [OF r])
  have root: "cr_scope root = ROOT_SCOPE" and 1: "bare 1 {||} bd1"
    using b(1) by (auto simp: build_root_def builder_new_def bare_def empty_view_def allocator_new_def)
  note keys = RED_BASE_def BLUE_BASE_def DECK_def NEUTRAL_def BACK_def checked_add_def
  have 2: "bare 2 {|RED_BASE|} bd2" and red: "cr_scope red = side_scope Red"
    using bare_channel [OF 1 b(2) root, of 2] by (simp_all add: keys side_scope_def)
  have "bare 3 {|BLUE_BASE, RED_BASE|} bd3" using bare_channel [OF 2 b(3) root, of 3] by (simp add: keys)
  from bare_channel [OF this b(4) root, of 4] have "bare 4 {|DECK, BLUE_BASE, RED_BASE|} bd4" by (simp add: keys)
  from bare_channel [OF this b(5) root, of 5] have "bare 5 {|NEUTRAL, DECK, BLUE_BASE, RED_BASE|} bd5" by (simp add: keys)
  from bare_channel [OF this b(6) root, of 6] have "bare 6 {|BACK, NEUTRAL, DECK, BLUE_BASE, RED_BASE|} bd6" by (simp add: keys)
  then have 7: "bare 6 {|BACK, NEUTRAL, DECK, BLUE_BASE, RED_BASE|} bd7" unfolding bd7 by (intro bare_edits)
  have roles: "items (an_roles solo_arena) = [(7, Player Red)]" by (simp add: solo_arena_def items_upd items_empty)
  have e: "members_of (an_roles solo_arena) Red = [7]" "members_of (an_roles solo_arena) Blue = []"
    "spectators (an_roles solo_arena) = []" "admins (an_roles solo_arena) = []"
    by (simp_all add: members_of_def spectators_def admins_def roles)
  have bd': "bd = build_audio_domain DECK_VOICE [] (build_audio_domain BLUE_VOICE [] (build_audio_domain RED_VOICE [7]
      (place red (an_directory solo_arena) 7 bd7)))"
    by (simp add: bd bd8 e roles arena_place_def)
  let ?p = "place red (an_directory solo_arena) 7 bd7"
  have p: "bd_error ?p = None" "bd_rooted ?p" "bd_overlays ?p = fmempty" "bd_audio ?p = relation_default"
    "\<exists>u. fmlookup (sv_users (bd_view ?p)) 1 = Some u \<and> us_scope u = side_scope Red"
    using 7 red
    by (simp_all add: bare_def place_def build_user_def narrowed_def alloc_session_def Let_def new_user_def build_user_flags_def)
  have audio: "ar_listeners (bd_audio bd) = {||}" "\<not> (s, r) |\<in>| resolve (bd_audio bd)" for s r
    using p(4) unfolding bd'
    by (auto simp: build_audio_domain_def audio_domain_def relation_default_def in_resolve hears_def fm_get_or_def split: if_splits)
  have keep: "bd_error bd = None" "bd_rooted bd" "bd_overlays bd = fmempty" "bd_view bd = bd_view ?p"
    using p(1-3) unfolding bd' by (simp_all add: build_audio_domain_def)
  have "sees_itself v (bd_audio bd) obs" "xor_private v fmempty" for v obs
    using audio(1) by (simp_all add: sees_itself_def xor_private_def sees_privately_def privately_of_def collect_map_def items_empty)
  then have "check_receivers_see_senders v fmempty (bd_audio bd) obs = Inr ()" for v obs
    using check_receivers_iff audio(2) by blast
  then have "finish (fmupd 7 (snd (arena_observation solo_arena 7)) fmempty) bd =
       Inr \<lparr>rd_view = bd_view bd, rd_overlays = fmempty, rd_actions = bd_actions bd, rd_audio = bd_audio bd\<rparr>"
    unfolding finish_iff using keep by (simp add: check_xor_iff check_overlay_iff)
  then show ?thesis using that r st p(5) keep(4) by auto
qed

end
