(* ===== verification/Props_Shard.thy ===== *)
theory Props_Shard
  imports Samples_Arena
begin

text \<open>
  Properties of the shard as a whole: what an accepted render guarantees, what a turn does to every client,
  what commands may do between turns, and how the task that drives it behaves.
\<close>

subsection \<open>Renders\<close>







subsection \<open>Turns\<close>



text \<open>
  C33. A refused render costs nothing: the turn reports why, publishes nothing, and leaves the view, the version,
  the journal, the routing and every connection as they were; only the flavor's own state and the shared
  allocator have moved.
\<close>

theorem refused_render_keeps:
  assumes "reconcile lg sh = (rp, sh')" and "rr_refused rp = Some e"
  shows "sh' = sh\<lparr>sh_logic := sh_logic sh', sh_ids := sh_ids sh'\<rparr> \<and> \<not> rr_published rp \<and> rr_closed rp = [] \<and>
    rr_version rp = sh_version sh"
proof -
  obtain l1 obs where o: "observe_all lg (fkeys (sh_connections sh)) (sh_logic sh) = (l1, obs)" by fastforce
  obtain l bd where r: "lg_render lg l1 (builder_new (sh_ids sh) (sh_id sh) (fkeys (sh_connections sh))) = (l, bd)" by fastforce
  show ?thesis
  proof (cases "finish obs bd")
    case (Inl x)
    then show ?thesis using assms o r by (auto simp: reconcile_def Let_def report_default_def)
  next
    case (Inr rd)
    then have "rr_refused rp = None"
      using assms(1) o r advance_fields(11) by (fastforce simp: reconcile_def Let_def report_default_def split: if_splits)
    then show ?thesis using assms(2) by simp
  qed
qed

theorem refused_render_keeps_witness:
  "\<exists>rp sh'. reconcile blank_logic room_shard = (rp, sh') \<and> rr_refused rp = Some MissingRoot \<and> sh_connections sh' = sh_connections room_shard"
proof -
  obtain l obs where o: "observe_all blank_logic (fkeys (sh_connections room_shard)) (sh_logic room_shard) = (l, obs)"
    by (metis prod.exhaust)
  obtain rp sh' where turn: "reconcile blank_logic room_shard = (rp, sh')" by fastforce
  have "rr_refused rp = Some MissingRoot"
    using turn o by (auto simp: reconcile_def blank_logic_def Let_def finish_def builder_new_def)
  then show ?thesis using refused_render_keeps [OF turn] turn by (metis shard.select_convs(7) shard.surjective shard.update_convs(2,3))
qed

subsection \<open>Commands\<close>

text \<open>
  Commands publish nothing: whatever a client or the gateway asks, the view, its version, the journal and the
  routing table stay as the last turn left them.
\<close>

lemma commands_publish_nothing: "handle lg cmd sh = Some sh' \<Longrightarrow> unpublished sh sh'"
  by (rule handle_unpublished)

text \<open>
  C31. Every command is carried out: in a shard whose connections see channel trees without cycles, no command of
  any connection keeps the task busy forever.
\<close>

theorem commands_terminate: "sighted sh \<Longrightarrow> command_sane cmd \<Longrightarrow> \<exists>sh'. handle lg cmd sh = Some sh'"
  by (rule handle_total)

theorem commands_terminate_witness: "\<exists>sh'. handle room_logic (Wrote 7 (TTTree 0) ''hello'') room_shard = Some sh'"
proof (rule commands_terminate)
  have "visible_channel sh room_at i = None" if "sh_view sh = empty_view" for sh :: "unit shard" and i
    using that by (simp add: visible_channel_def room_at_def opt_filter_def or_else_def empty_view_def empty_overlay_def)
  then have "sight_ok empty_view room_at" by (simp add: sight_ok_def climbs_def)
  then show "sighted room_shard" unfolding sighted_def room_fields by (metis fmupd_lookup fmempty_lookup option.inject option.distinct(1))
qed simp

text \<open>
  C34. The walk that decides whether a text reaches a subtree is right when it ends, and it ends exactly on trees:
  with ranked parents it answers whether the channel lies below the root of the subtree, and on two
  channels that are each other's parents it does not end.
\<close>

theorem subtree_walk:
  "(climbs r visible \<longrightarrow> (\<exists>b. descends_from visible root i = Some b \<and> (b \<longleftrightarrow> below_in visible root i))) \<and>
   (visible j = Some c \<and> ch_parent c = k \<and> visible k = Some d \<and> ch_parent d = j \<and> j \<noteq> k \<and> root \<noteq> j \<and> root \<noteq> k \<longrightarrow>
      descends_from visible root j = None)"
  by (intro conjI impI descends_from_returns) (auto intro: descends_from_cycle)

theorem subtree_walk_witness:
  "descends_from (fmlookup (sv_channels room_view)) ROOT_ID 5 = Some False \<and>
   descends_from (\<lambda>i. Some (new_channel 0 i (3 - i) ROOT_SCOPE ''loop'')) 0 1 = None"
proof
  have "climbs (\<lambda>_. 0) (fmlookup (sv_channels room_view))" by (auto simp: climbs_def room_view_def new_channel_def split: if_splits)
  moreover have "\<not> below_in (fmlookup (sv_channels room_view)) ROOT_ID 5"
    by (subst below_in_iff) (simp add: room_view_def ROOT_ID_def)
  ultimately show "descends_from (fmlookup (sv_channels room_view)) ROOT_ID 5 = Some False"
    using conjunct1 [OF subtree_walk [of "\<lambda>_. 0" "fmlookup (sv_channels room_view)" ROOT_ID 5]] by auto
  show "descends_from (\<lambda>i. Some (new_channel 0 i (3 - i) ROOT_SCOPE ''loop'')) 0 1 = None"
    by (rule conjunct2 [OF subtree_walk [where c = "new_channel 0 1 2 ROOT_SCOPE ''loop''" and k = 2
        and d = "new_channel 0 2 1 ROOT_SCOPE ''loop''"], THEN mp]) (simp add: new_channel_def)
qed

text \<open>
  C30. Naming something one cannot see is like naming something that is not there: a request, a query or a text
  aimed at a channel or a user outside a connection's sight changes nothing and is not answered.
\<close>

theorem unseen_is_absent:
  assumes "fmlookup (sh_connections sh) c = Some at" and "visible_channel sh at i = None" and "seen_user sh at s = None"
    and "cmd \<in> {Requested c i, QueriedPermissions c i, QueriedUserStats c s, Wrote c (TTChannel i) m, Wrote c (TTTree i) m, Wrote c (TTSession s) m}"
  shows "handle lg cmd sh = Some sh"
  using assms by (auto simp: requested_channel_def queried_permissions_def queried_user_stats_def said_def text_audience_def)

theorem unseen_is_absent_witness: "handle room_logic (QueriedPermissions 7 0) room_shard = Some room_shard"
  by (rule unseen_is_absent [of _ 7 room_at 0 3])
    (simp_all add: room_shard_def shard_new_def with_ids_def visible_channel_def seen_user_def room_at_def opt_filter_def or_else_def
      empty_view_def empty_overlay_def)





subsection \<open>The task that drives a shard\<close>



text \<open>
  Nothing taken is forgotten: when the task ends, the last thing it did was to publish, so every command it
  handled is covered by a later turn.
\<close>

lemma ended_after_publishing:
  assumes "driver_run lg (driver_start now sh) es d" and "dr_phase d = Ended"
  shows "es = [] \<or> (\<exists>t rp. last es = Published t rp)"
proof -
  have "driver_inv d" by (rule driver_inv_run [OF assms(1) driver_inv_start])
  then have "\<not> dr_dirty d" using assms(2) by (simp add: driver_inv_def)
  then have "\<not> unsettled es" using unsettled_run [OF assms(1)] by (auto simp: driver_start_def)
  then show ?thesis by (cases "last es") (auto simp: unsettled_def)
qed

text \<open>
  Publications keep their distance: at least the minimal interval lies between any two turns of a run, except
  for the last turn of a task whose handles are all gone, which does not wait.
\<close>

lemma publications_spaced:
  assumes "driver_run lg (driver_start now sh) es d"
  shows "sorted_wrt (\<lambda>t u. t + MIN_INTERVAL \<le> u) (if dr_phase d = Ended then butlast (publications es) else publications es)"
  using rate_run [OF assms driver_inv_start] by (simp add: rate_inv_def spaced_def driver_start_def)



subsection \<open>The reference application\<close>

text \<open>
  C6. The two sides of the arena never see each other: every user in the view of a player, shared or private, is
  a player of the same side or staff that address that side.
\<close>

theorem arena_keeps_sides_apart:
  assumes "arena_render st (builder_new ids shard cs) = (st', bd)" and "finish obs bd = Inr rd"
    and "fmlookup (an_roles st) c = Some (Player side)" and "observed obs c = snd (arena_observation st c)"
    and "fmlookup (sv_users (compose (restrict (rd_view rd) (observed obs c)) (fm_get_or empty_overlay (rd_overlays rd) c))) s = Some u"
  shows "\<exists>d. us_occupant u = Connection d \<and>
    (fmlookup (an_roles st) d = Some (Player side) \<or> fmlookup (an_roles st) d = Some (Admin (Some side)))"
  by (rule arena_sides_apart [OF assms]) blast

theorem arena_keeps_sides_apart_witness:
  "\<exists>rd u. fmlookup (sv_users (compose (restrict (rd_view rd) (observe_scopes [side_scope Red])) (fm_get_or empty_overlay (rd_overlays rd) 7))) 1 = Some u \<and>
     us_occupant u = Connection 7"
proof -
  obtain bd u where r: "arena_render solo_arena (builder_new allocator_new 1 [7]) = (solo_arena, bd)"
    and f: "finish (fmupd 7 (snd (arena_observation solo_arena 7)) fmempty) bd =
       Inr \<lparr>rd_view = bd_view bd, rd_overlays = fmempty, rd_actions = bd_actions bd, rd_audio = bd_audio bd\<rparr>"
    and u: "fmlookup (sv_users (bd_view bd)) 1 = Some u" "us_scope u = side_scope Red"
    by (rule solo_render)
  let ?obs = "fmupd 7 (snd (arena_observation solo_arena 7)) fmempty"
  have roles: "fmlookup (an_roles solo_arena) 7 = Some (Player Red)" "\<And>d x. fmlookup (an_roles solo_arena) d = Some x \<Longrightarrow> d = 7"
    by (auto simp: solo_arena_def split: if_splits)
  have obs: "observed ?obs 7 = snd (arena_observation solo_arena 7)" "snd (arena_observation solo_arena 7) = observe_scopes [side_scope Red]"
    using roles(1) by (simp_all add: observed_def fm_get_or_def arena_observation_def)
  have seen: "fmlookup (sv_users (compose (restrict (bd_view bd) (observed ?obs 7)) (fm_get_or empty_overlay fmempty (7 :: connection_id)))) 1 = Some u"
    using u player_sees(1) [of Red Red] by (simp add: obs(2) observed_def fm_get_or_def compose_empty restrict_lookup)
  from arena_keeps_sides_apart [OF r f roles(1) obs(1), of 1 u] obtain d where "us_occupant u = Connection d"
    "fmlookup (an_roles solo_arena) d = Some (Player Red) \<or> fmlookup (an_roles solo_arena) d = Some (Admin (Some Red))"
    using seen by auto
  then have "us_occupant u = Connection 7" using roles(2) by blast
  then show ?thesis using seen [unfolded obs(1), unfolded obs(2)] f by (metis rendered.select_convs(1,2))
qed

end
