(* ===== verification/Control.thy ===== *)
theory Control
  imports Prelude "HOL-Library.List_Lexorder" "HOL-Library.Char_ord"
begin

text \<open>
  The synchronisation state of the controller, \<open>control/coordination/rust/src\<close>: profiles, the registry of
  controller sessions, the registry of entity ownership with its fencing tokens, and the log of completed
  commands. Instants and durations are natural numbers of one unit. A hash map has no order: what the
  source collects from one into a vector is a finite set here.
\<close>

subsection \<open>Profiles\<close>

record profile_ref =
  pr_id :: string
  pr_version :: u32
  pr_digest :: string

datatype profile_error = InvalidReference | UnknownProfile | UnknownSchemaVersion | DescriptorMismatch

definition profile_new :: "string \<Rightarrow> u32 \<Rightarrow> string \<Rightarrow> (profile_error, profile_ref) result" where
  "profile_new i version digest =
     (if i = [] \<or> version = 0 \<or> digest = [] then Inl InvalidReference
      else Inr \<lparr>pr_id = i, pr_version = version, pr_digest = digest\<rparr>)"

definition negotiate_profile :: "profile_ref \<Rightarrow> profile_ref \<Rightarrow> (profile_error, profile_ref) result" where
  "negotiate_profile requested supported =
     (if pr_id requested \<noteq> pr_id supported then Inl UnknownProfile
      else if pr_version requested \<noteq> pr_version supported then Inl UnknownSchemaVersion
      else if pr_digest requested \<noteq> pr_digest supported then Inl DescriptorMismatch
      else Inr supported)"

subsection \<open>Sessions\<close>

type_synonym token = "u8 list"
type_synonym control_id = u64

record credentials =
  cd_session_token :: token
  cd_resume_token :: token

datatype session_error =
    InvalidIdentity
  | EmptyCredential
  | ResourceExhausted
  | CredentialCollision
  | SessionIdExhausted
  | MissingSession control_id
  | InvalidSessionToken

definition credentials_new :: "token \<Rightarrow> token \<Rightarrow> (session_error, credentials) result" where
  "credentials_new session resume =
     (if session = [] \<or> resume = [] then Inl EmptyCredential
      else Inr \<lparr>cd_session_token = session, cd_resume_token = resume\<rparr>)"

record open_session =
  op_controller :: string
  op_instance :: token
  op_resume_token :: token
  op_profile :: profile_ref
  op_credentials :: credentials
  op_now :: nat

record session_ready =
  sr_session :: control_id
  sr_session_token :: token
  sr_resume_token :: token
  sr_profile :: profile_ref
  sr_resumed :: bool

datatype renew_outcome = Current | ResyncRequired

record session =
  se_controller :: string
  se_instance :: token
  se_session_token :: token
  se_resume_token :: token
  se_profile :: profile_ref
  se_expires_at :: nat
  se_desired_revision :: u64
  se_needs_resync :: bool

record session_registry =
  sg_maximum :: nat
  sg_lease :: nat
  sg_sessions :: "(control_id, session) fmap"
  sg_resume_tokens :: "(token, control_id) fmap"
  sg_next :: control_id

definition sessions_new :: "nat \<Rightarrow> nat \<Rightarrow> session_registry" where
  "sessions_new maximum lease = \<lparr>sg_maximum = maximum, sg_lease = lease, sg_sessions = fmempty,
     sg_resume_tokens = fmempty, sg_next = 1\<rparr>"

definition session_token_exists :: "token \<Rightarrow> session_registry \<Rightarrow> bool" where
  "session_token_exists t g = list_ex (\<lambda>s. se_session_token s = t) (fvals (sg_sessions g))"

definition resumable :: "open_session \<Rightarrow> session_registry \<Rightarrow> control_id option" where
  "resumable r g =
     (case fmlookup (sg_resume_tokens g) (op_resume_token r) of
        None \<Rightarrow> None
      | Some i \<Rightarrow>
          (case fmlookup (sg_sessions g) i of
             None \<Rightarrow> None
           | Some s \<Rightarrow>
               if se_controller s = op_controller r \<and> se_instance s = op_instance r \<and> se_profile s = op_profile r
                  \<and> op_now r < se_expires_at s
               then Some i else None))"

definition resume_session :: "control_id \<Rightarrow> open_session \<Rightarrow> session_registry \<Rightarrow> (session_error, session_ready) result \<times> session_registry" where
  "resume_session i r g =
     (if session_token_exists (cd_session_token (op_credentials r)) g then (Inl CredentialCollision, g)
      else case fmlookup (sg_sessions g) i of
             None \<Rightarrow> (Inl (MissingSession i), g)
           | Some s \<Rightarrow>
               let s = s\<lparr>se_session_token := cd_session_token (op_credentials r), se_expires_at := op_now r + sg_lease g\<rparr>
               in (Inr \<lparr>sr_session = i, sr_session_token = se_session_token s, sr_resume_token = se_resume_token s,
                        sr_profile = se_profile s, sr_resumed = True\<rparr>,
                   g\<lparr>sg_sessions := fmupd i s (sg_sessions g)\<rparr>))"

definition create_session :: "open_session \<Rightarrow> session_registry \<Rightarrow> (session_error, session_ready) result \<times> session_registry" where
  "create_session r g =
     (if sg_maximum g \<le> fcard (fmdom (sg_sessions g)) then (Inl ResourceExhausted, g)
      else if fm_has (sg_resume_tokens g) (cd_resume_token (op_credentials r))
              \<or> session_token_exists (cd_session_token (op_credentials r)) g
      then (Inl CredentialCollision, g)
      else case checked_add (sg_next g) 1 of
             None \<Rightarrow> (Inl SessionIdExhausted, g)
           | Some n \<Rightarrow>
               let i = sg_next g;
                   s = \<lparr>se_controller = op_controller r, se_instance = op_instance r,
                        se_session_token = cd_session_token (op_credentials r), se_resume_token = cd_resume_token (op_credentials r),
                        se_profile = op_profile r, se_expires_at = op_now r + sg_lease g, se_desired_revision = 0, se_needs_resync = False\<rparr>
               in (Inr \<lparr>sr_session = i, sr_session_token = cd_session_token (op_credentials r),
                        sr_resume_token = cd_resume_token (op_credentials r), sr_profile = op_profile r, sr_resumed = False\<rparr>,
                   g\<lparr>sg_next := n, sg_resume_tokens := fmupd (se_resume_token s) i (sg_resume_tokens g),
                     sg_sessions := fmupd i s (sg_sessions g)\<rparr>))"

definition open_request :: "open_session \<Rightarrow> session_registry \<Rightarrow> (session_error, session_ready) result \<times> session_registry" where
  "open_request r g =
     (if op_controller r = [] \<or> op_instance r = [] then (Inl InvalidIdentity, g)
      else case resumable r g of
             Some i \<Rightarrow> resume_session i r g
           | None \<Rightarrow> create_session r g)"

definition authorize :: "control_id \<Rightarrow> token \<Rightarrow> session_registry \<Rightarrow> bool" where
  "authorize i t g = (case fmlookup (sg_sessions g) i of None \<Rightarrow> False | Some s \<Rightarrow> se_session_token s = t)"

definition edit_session :: "control_id \<Rightarrow> (session \<Rightarrow> session) \<Rightarrow> session_registry \<Rightarrow> session_registry" where
  "edit_session i f g = g\<lparr>sg_sessions := fm_adjust i f (sg_sessions g)\<rparr>"

definition renew :: "control_id \<Rightarrow> token \<Rightarrow> u64 \<Rightarrow> nat \<Rightarrow> session_registry \<Rightarrow> (session_error, renew_outcome) result \<times> session_registry" where
  "renew i t desired now g =
     (if \<not> authorize i t g then (Inl InvalidSessionToken, g)
      else case fmlookup (sg_sessions g) i of
             None \<Rightarrow> (Inl (MissingSession i), g)
           | Some s \<Rightarrow>
               (Inr (if se_needs_resync s \<or> se_desired_revision s \<noteq> desired then ResyncRequired else Current),
                edit_session i (\<lambda>s. s\<lparr>se_expires_at := now + sg_lease g, se_needs_resync := False\<rparr>) g))"

definition advance_desired_revision :: "control_id \<Rightarrow> session_registry \<Rightarrow> session_registry" where
  "advance_desired_revision i g = edit_session i (\<lambda>s. s\<lparr>se_desired_revision := saturating_add (se_desired_revision s) 1\<rparr>) g"

definition set_desired_revision :: "control_id \<Rightarrow> u64 \<Rightarrow> session_registry \<Rightarrow> session_registry" where
  "set_desired_revision i r g = edit_session i (\<lambda>s. s\<lparr>se_desired_revision := r\<rparr>) g"

definition mark_resync_required :: "control_id \<Rightarrow> session_registry \<Rightarrow> session_registry" where
  "mark_resync_required i g = edit_session i (\<lambda>s. s\<lparr>se_needs_resync := True\<rparr>) g"

definition refresh_lease :: "control_id \<Rightarrow> nat \<Rightarrow> session_registry \<Rightarrow> session_registry" where
  "refresh_lease i now g = edit_session i (\<lambda>s. s\<lparr>se_expires_at := now + sg_lease g\<rparr>) g"

definition next_deadline :: "session_registry \<Rightarrow> nat option" where
  "next_deadline g =
     (case map se_expires_at (fvals (sg_sessions g)) of [] \<Rightarrow> None | t # ts \<Rightarrow> Some (fold min ts t))"

definition expired_sessions :: "nat \<Rightarrow> session_registry \<Rightarrow> control_id fset" where
  "expired_sessions now g = fset_of_list (map fst (filter (\<lambda>(_, s). se_expires_at s \<le> now) (items (sg_sessions g))))"

definition remove_session :: "control_id \<Rightarrow> session_registry \<Rightarrow> bool \<times> session_registry" where
  "remove_session i g =
     (case fmlookup (sg_sessions g) i of
        None \<Rightarrow> (False, g)
      | Some s \<Rightarrow> (True, g\<lparr>sg_sessions := fmdrop i (sg_sessions g),
                          sg_resume_tokens := fmdrop (se_resume_token s) (sg_resume_tokens g)\<rparr>))"

definition contains_session :: "control_id \<Rightarrow> session_registry \<Rightarrow> bool" where
  "contains_session i g = fm_has (sg_sessions g) i"

subsection \<open>Ownership\<close>

datatype claim_mode = Snapshot | Explicit

record claim_request =
  cl_entity :: string
  cl_owner :: control_id
  cl_registration :: token
  cl_presented :: token
  cl_revision :: u64
  cl_new_token :: token
  cl_mode :: claim_mode

record ownership_state =
  ow_entity :: string
  ow_owner :: control_id
  ow_registration :: token
  ow_token :: token
  ow_revision :: u64

datatype claim_outcome = Resumed token bool | Acquired token "ownership_state option"

datatype revision_outcome = Unchanged | RevisionAdvanced

datatype ownership_error =
    InvalidClaim
  | SnapshotConflict
  | GlobalLimit
  | OwnerLimit
  | FencingTokenCollision
  | OwnerNotFound
  | OwnershipLost
  | StaleRevision

record ownership_registry =
  og_maximum :: nat
  og_maximum_per_owner :: nat
  og_entries :: "(string, ownership_state) fmap"

definition ownership_new :: "nat \<Rightarrow> nat \<Rightarrow> ownership_registry" where
  "ownership_new maximum per_owner = \<lparr>og_maximum = maximum, og_maximum_per_owner = per_owner, og_entries = fmempty\<rparr>"

definition owned_count :: "control_id \<Rightarrow> ownership_registry \<Rightarrow> nat" where
  "owned_count owner g = length (filter (\<lambda>s. ow_owner s = owner) (fvals (og_entries g)))"

definition claim_resumable :: "claim_request \<Rightarrow> ownership_state \<Rightarrow> bool" where
  "claim_resumable r current \<longleftrightarrow> ow_owner current = cl_owner r \<and> ow_registration current = cl_registration r \<and>
     (cl_mode r = Explicit \<or> ow_token current = cl_presented r)"

definition acquire :: "claim_request \<Rightarrow> ownership_registry \<Rightarrow> (ownership_error, claim_outcome) result \<times> ownership_registry" where
  "acquire r g =
     (let previous = fmlookup (og_entries g) (cl_entity r) in
      if previous = None \<and> og_maximum g \<le> fcard (fmdom (og_entries g)) then (Inl GlobalLimit, g)
      else if (case previous of None \<Rightarrow> True | Some s \<Rightarrow> ow_owner s \<noteq> cl_owner r)
              \<and> og_maximum_per_owner g \<le> owned_count (cl_owner r) g then (Inl OwnerLimit, g)
      else if cl_new_token r = [] then (Inl InvalidClaim, g)
      else if list_ex (\<lambda>s. ow_token s = cl_new_token r) (fvals (og_entries g)) then (Inl FencingTokenCollision, g)
      else (Inr (Acquired (cl_new_token r) previous),
            g\<lparr>og_entries := fmupd (cl_entity r)
                \<lparr>ow_entity = cl_entity r, ow_owner = cl_owner r, ow_registration = cl_registration r,
                 ow_token = cl_new_token r, ow_revision = cl_revision r\<rparr> (og_entries g)\<rparr>))"

definition claim :: "claim_request \<Rightarrow> ownership_registry \<Rightarrow> (ownership_error, claim_outcome) result \<times> ownership_registry" where
  "claim r g =
     (if cl_entity r = [] \<or> cl_registration r = [] then (Inl InvalidClaim, g)
      else case fmlookup (og_entries g) (cl_entity r) of
             Some current \<Rightarrow>
               if claim_resumable r current
               then let advanced = ow_revision current < cl_revision r in
                    (Inr (Resumed (ow_token current) advanced),
                     if advanced
                     then g\<lparr>og_entries := fmupd (cl_entity r) (current\<lparr>ow_revision := cl_revision r\<rparr>) (og_entries g)\<rparr>
                     else g)
               else if cl_mode r = Snapshot then (Inl SnapshotConflict, g)
               else acquire r g
           | None \<Rightarrow> acquire r g)"

definition accept_revision ::
    "string \<Rightarrow> control_id \<Rightarrow> token \<Rightarrow> u64 \<Rightarrow> bool \<Rightarrow> ownership_registry \<Rightarrow> (ownership_error, revision_outcome) result \<times> ownership_registry" where
  "accept_revision entity owner t revision unchanged g =
     (case fmlookup (og_entries g) entity of
        None \<Rightarrow> (Inl OwnerNotFound, g)
      | Some current \<Rightarrow>
          if ow_owner current \<noteq> owner \<or> ow_token current \<noteq> t then (Inl OwnershipLost, g)
          else if revision < ow_revision current \<or> (revision = ow_revision current \<and> \<not> unchanged) then (Inl StaleRevision, g)
          else if revision = ow_revision current then (Inr Unchanged, g)
          else (Inr RevisionAdvanced, g\<lparr>og_entries := fmupd entity (current\<lparr>ow_revision := revision\<rparr>) (og_entries g)\<rparr>))"

definition release ::
    "string \<Rightarrow> control_id \<Rightarrow> token \<Rightarrow> token \<Rightarrow> ownership_registry \<Rightarrow> (ownership_error, ownership_state) result \<times> ownership_registry" where
  "release entity owner registration t g =
     (case fmlookup (og_entries g) entity of
        None \<Rightarrow> (Inl OwnershipLost, g)
      | Some current \<Rightarrow>
          if ow_owner current \<noteq> owner \<or> ow_registration current \<noteq> registration \<or> ow_token current \<noteq> t
          then (Inl OwnershipLost, g)
          else (Inr current, g\<lparr>og_entries := fmdrop entity (og_entries g)\<rparr>))"

definition owned_entities :: "control_id \<Rightarrow> ownership_registry \<Rightarrow> string fset" where
  "owned_entities owner g = fset_of_list (map ow_entity (filter (\<lambda>s. ow_owner s = owner) (fvals (og_entries g))))"

subsection \<open>Reliable commands\<close>

record 'o session_log =
  lo_completed :: "(token, 'o) fmap"
  lo_order :: "token list"

record 'o reliable_commands =
  rc_maximum :: nat
  rc_sessions :: "(control_id, 'o session_log) fmap"

datatype reliable_error = NoSessionLog control_id | EmptyRequestId

definition reliable_new :: "nat \<Rightarrow> 'o reliable_commands" where
  "reliable_new maximum = \<lparr>rc_maximum = maximum, rc_sessions = fmempty\<rparr>"

definition attach_log :: "control_id \<Rightarrow> 'o reliable_commands \<Rightarrow> 'o reliable_commands" where
  "attach_log i c = (if fm_has (rc_sessions c) i then c
     else c\<lparr>rc_sessions := fmupd i \<lparr>lo_completed = fmempty, lo_order = []\<rparr> (rc_sessions c)\<rparr>)"

definition replay_command :: "control_id \<Rightarrow> token \<Rightarrow> 'o reliable_commands \<Rightarrow> 'o option" where
  "replay_command i request c = Option.bind (fmlookup (rc_sessions c) i) (\<lambda>l. fmlookup (lo_completed l) request)"

function expire :: "nat \<Rightarrow> 'o session_log \<Rightarrow> 'o session_log" where
  "expire maximum l =
     (if maximum < length (lo_order l)
      then expire maximum (l\<lparr>lo_order := tl (lo_order l), lo_completed := fmdrop (hd (lo_order l)) (lo_completed l)\<rparr>)
      else l)"
  by pat_completeness auto
termination
  by (relation "measure (\<lambda>(_, l). length (lo_order l))") auto

declare expire.simps [simp del]

definition log_completed :: "nat \<Rightarrow> token \<Rightarrow> 'o \<Rightarrow> 'o session_log \<Rightarrow> 'o session_log" where
  "log_completed maximum request outcome l =
     (let l = (if fm_has (lo_completed l) request then l else l\<lparr>lo_order := lo_order l @ [request]\<rparr>);
          l = l\<lparr>lo_completed := fmupd request outcome (lo_completed l)\<rparr>
      in expire maximum l)"

definition complete_command ::
    "control_id \<Rightarrow> token \<Rightarrow> 'o \<Rightarrow> 'o reliable_commands \<Rightarrow> (reliable_error, unit) result \<times> 'o reliable_commands" where
  "complete_command i request outcome c =
     (case fmlookup (rc_sessions c) i of
        None \<Rightarrow> (Inl (NoSessionLog i), c)
      | Some l \<Rightarrow>
          if request = [] then (Inl EmptyRequestId, c)
          else (Inr (), c\<lparr>rc_sessions := fmupd i (log_completed (rc_maximum c) request outcome l) (rc_sessions c)\<rparr>))"

definition remove_log :: "control_id \<Rightarrow> 'o reliable_commands \<Rightarrow> 'o reliable_commands" where
  "remove_log i c = c\<lparr>rc_sessions := fmdrop i (rc_sessions c)\<rparr>"

end
