(* ===== verification/Control_Inv.thy ===== *)
theory Control_Inv
  imports Control
begin

text \<open>
  What the registries of the controller keep, whatever is asked of them: sessions and their capabilities,
  ownership and its fencing tokens, and the window of completed commands.
\<close>

text \<open>A state machine whose steps keep an invariant keeps it along every history of well-formed requests.\<close>

locale registry =
  fixes step :: "'r \<Rightarrow> 's \<Rightarrow> 's" and good :: "'r \<Rightarrow> bool" and inv :: "'s \<Rightarrow> bool"
  assumes step_keeps: "inv s \<Longrightarrow> good r \<Longrightarrow> inv (step r s)"
begin

lemma history_keeps: "inv s \<Longrightarrow> list_all good rs \<Longrightarrow> inv (fold step rs s)"
  by (induction rs arbitrary: s) (auto intro: step_keeps)

lemma history_always:
  assumes "\<And>s r. inv s \<Longrightarrow> good r \<Longrightarrow> P s \<Longrightarrow> Q r \<Longrightarrow> P (step r s)"
  shows "inv s \<Longrightarrow> P s \<Longrightarrow> list_all good rs \<Longrightarrow> list_all Q rs \<Longrightarrow> P (fold step rs s)"
  by (induction rs arbitrary: s) (auto intro: assms step_keeps)

end

subsection \<open>Sessions\<close>

datatype session_request =
    OpenAsked open_session
  | RenewAsked control_id token u64 nat
  | AdvanceAsked control_id
  | SetAsked control_id u64
  | ResyncAsked control_id
  | RefreshAsked control_id nat
  | RemoveAsked control_id

fun session_step :: "session_request \<Rightarrow> session_registry \<Rightarrow> session_registry" where
  "session_step (OpenAsked r) g = snd (open_request r g)"
| "session_step (RenewAsked i t v now) g = snd (renew i t v now g)"
| "session_step (AdvanceAsked i) g = advance_desired_revision i g"
| "session_step (SetAsked i v) g = set_desired_revision i v g"
| "session_step (ResyncAsked i) g = mark_resync_required i g"
| "session_step (RefreshAsked i now) g = refresh_lease i now g"
| "session_step (RemoveAsked i) g = snd (remove_session i g)"

text \<open>Credentials come from \<open>credentials_new\<close>, which refuses empty ones.\<close>

fun session_good :: "session_request \<Rightarrow> bool" where
  "session_good (OpenAsked r) = (cd_session_token (op_credentials r) \<noteq> [] \<and> cd_resume_token (op_credentials r) \<noteq> [])"
| "session_good _ = True"

definition sessions_ok :: "session_registry \<Rightarrow> bool" where
  "sessions_ok g \<longleftrightarrow>
     (\<forall>i s. fmlookup (sg_sessions g) i = Some s \<longrightarrow> i < sg_next g \<and> se_session_token s \<noteq> [] \<and> se_resume_token s \<noteq> [] \<and>
        fmlookup (sg_resume_tokens g) (se_resume_token s) = Some i) \<and>
     (\<forall>t i. fmlookup (sg_resume_tokens g) t = Some i \<longrightarrow>
        map_option se_resume_token (fmlookup (sg_sessions g) i) = Some t) \<and>
     (\<forall>i j s t. fmlookup (sg_sessions g) i = Some s \<longrightarrow> fmlookup (sg_sessions g) j = Some t \<longrightarrow>
        se_session_token s = se_session_token t \<longrightarrow> i = j) \<and>
     fcard (fmdom (sg_sessions g)) \<le> sg_maximum g"

lemma sessions_okD:
  assumes "sessions_ok g"
  shows "fmlookup (sg_sessions g) i = Some s \<Longrightarrow> i < sg_next g"
    and "fmlookup (sg_sessions g) i = Some s \<Longrightarrow> fmlookup (sg_resume_tokens g) (se_resume_token s) = Some i"
    and "fmlookup (sg_sessions g) i = Some s \<Longrightarrow> fmlookup (sg_sessions g) j = Some t \<Longrightarrow> se_session_token s = se_session_token t \<Longrightarrow> i = j"
    and "fmlookup (sg_resume_tokens g) t' = Some i \<Longrightarrow> map_option se_resume_token (fmlookup (sg_sessions g) i) = Some t'"
  using assms unfolding sessions_ok_def by blast+

lemma sessions_ok_new: "sessions_ok (sessions_new maximum lease)"
  by (simp add: sessions_ok_def sessions_new_def fcard.rep_eq)

lemma token_exists_iff: "session_token_exists t g \<longleftrightarrow> (\<exists>i s. fmlookup (sg_sessions g) i = Some s \<and> se_session_token s = t)"
  unfolding session_token_exists_def list_ex_iff bex_fvals ..

text \<open>An edit that leaves the capabilities of a session alone leaves the registry well-formed.\<close>

lemma sessions_ok_edit:
  assumes "sessions_ok g" and "\<And>s. se_session_token (f s) = se_session_token s" and "\<And>s. se_resume_token (f s) = se_resume_token s"
  shows "sessions_ok (edit_session i f g)"
  using assms unfolding sessions_ok_def edit_session_def by (auto split: if_splits) metis

lemma sessions_ok_resume:
  assumes "sessions_ok g" and "cd_session_token (op_credentials r) \<noteq> []"
  shows "sessions_ok (snd (resume_session i r g))"
proof (cases "session_token_exists (cd_session_token (op_credentials r)) g \<or> fmlookup (sg_sessions g) i = None")
  case False
  then obtain s where s: "fmlookup (sg_sessions g) i = Some s" by auto
  have fresh: "se_session_token t \<noteq> cd_session_token (op_credentials r)" if "fmlookup (sg_sessions g) j = Some t" for j t
    using False that unfolding token_exists_iff by auto
  have "fmdom (fmupd i x (sg_sessions g)) = fmdom (sg_sessions g)" for x using s by (auto simp: fmlookup_dom_iff)
  moreover have "i < sg_next g" using sessions_okD(1) [OF assms(1) s] .
  moreover have "se_resume_token s = t" if "fmlookup (sg_resume_tokens g) t = Some i" for t
    using sessions_okD(4) [OF assms(1) that] s by simp
  ultimately show ?thesis
    using assms s False fresh unfolding sessions_ok_def resume_session_def by (auto simp: Let_def dest: fresh fresh [OF _, symmetric])
qed (use assms in \<open>auto simp: resume_session_def split: option.splits\<close>)

lemma sessions_ok_create:
  assumes "sessions_ok g" and "cd_session_token (op_credentials r) \<noteq> []" and "cd_resume_token (op_credentials r) \<noteq> []"
  shows "sessions_ok (snd (create_session r g))"
proof (cases "fst (create_session r g)")
  case (Inl e)
  then have "snd (create_session r g) = g" by (auto simp: create_session_def Let_def split: if_splits option.splits)
  then show ?thesis using assms(1) by simp
next
  case (Inr ready)
  then obtain n where n: "checked_add (sg_next g) 1 = Some n" and room: "fcard (fmdom (sg_sessions g)) < sg_maximum g"
    and tok: "\<not> session_token_exists (cd_session_token (op_credentials r)) g"
    and res: "fmlookup (sg_resume_tokens g) (cd_resume_token (op_credentials r)) = None"
    by (auto simp: create_session_def Let_def fmdom_notD split: if_splits option.splits)
  have nxt: "sg_next g < n" "\<And>i. i < sg_next g \<Longrightarrow> i < n"
    using n by (auto simp: checked_add_Some word_less_nat_alt)
  have old: "i < sg_next g" if "fmlookup (sg_sessions g) i = Some s" for i s by (rule sessions_okD(1) [OF assms(1) that])
  then have none: "fmlookup (sg_sessions g) (sg_next g) = None" by (metis not_None_eq order_less_irrefl)
  have fresh: "se_session_token t \<noteq> cd_session_token (op_credentials r)" if "fmlookup (sg_sessions g) j = Some t" for j t
    using tok that unfolding token_exists_iff by auto
  have "fcard (finsert (sg_next g) (fmdom (sg_sessions g))) \<le> sg_maximum g" using room by (simp add: fcard_finsert_if)
  moreover have "fmlookup (sg_resume_tokens g) t \<noteq> Some (sg_next g)" for t
    using sessions_okD(4) [OF assms(1), of t "sg_next g"] none by auto
  ultimately show ?thesis
    using assms n room tok res nxt none unfolding sessions_ok_def create_session_def
    by (auto simp: Let_def dest: fresh fresh [OF _, symmetric] old)
qed

lemma sessions_ok_remove: "sessions_ok g \<Longrightarrow> sessions_ok (snd (remove_session i g))"
proof (cases "fmlookup (sg_sessions g) i")
  case (Some s)
  assume ok: "sessions_ok g"
  have "fcard (fmdom (sg_sessions g) |-| {|i|}) \<le> fcard (fmdom (sg_sessions g))" by (intro fcard_mono) auto
  moreover have "se_resume_token t \<noteq> se_resume_token s" if "fmlookup (sg_sessions g) j = Some t" "j \<noteq> i" for j t
    using sessions_okD(2) [OF ok that(1)] sessions_okD(2) [OF ok Some] that(2) by auto
  moreover have "se_resume_token s = t" if "fmlookup (sg_resume_tokens g) t = Some i" for t
    using sessions_okD(4) [OF ok that] Some by simp
  ultimately show ?thesis
    using ok Some unfolding sessions_ok_def remove_session_def by (auto split: if_splits)
qed (simp add: remove_session_def)

lemma sessions_ok_open:
  "sessions_ok g \<Longrightarrow> session_good (OpenAsked r) \<Longrightarrow> sessions_ok (snd (open_request r g))"
  using sessions_ok_resume sessions_ok_create by (auto simp: open_request_def split: option.split)

lemma sessions_ok_renew: "sessions_ok g \<Longrightarrow> sessions_ok (snd (renew i t v now g))"
  by (auto simp: renew_def intro!: sessions_ok_edit split: option.split)

interpretation sessions: registry session_step session_good sessions_ok
proof
  fix g r
  assume "sessions_ok g" "session_good r"
  then show "sessions_ok (session_step r g)"
    by (cases r) (auto simp: advance_desired_revision_def set_desired_revision_def mark_resync_required_def refresh_lease_def
        simp del: session_good.simps intro: sessions_ok_edit sessions_ok_open sessions_ok_renew sessions_ok_remove)
qed

text \<open>Opening gives exactly one new capability, and takes away exactly the one it replaces.\<close>

lemma open_capability:
  assumes "open_request r g = (Inr ready, g')"
  shows "authorize i t g' \<longleftrightarrow> (if i = sr_session ready then t = sr_session_token ready else authorize i t g)"
    and "sr_session_token ready = cd_session_token (op_credentials r)" and "\<not> session_token_exists (sr_session_token ready) g"
    and "map_option se_expires_at (fmlookup (sg_sessions g') (sr_session ready)) = Some (op_now r + sg_lease g)"
  using assms
  by (auto simp: open_request_def resume_session_def create_session_def authorize_def Let_def split: if_splits option.splits)

lemma open_error: "open_request r g = (Inl e, g') \<Longrightarrow> g' = g"
  by (auto simp: open_request_def resume_session_def create_session_def Let_def split: if_splits option.splits)

lemma in_expired: "i |\<in>| expired_sessions now g \<longleftrightarrow> (\<exists>s. fmlookup (sg_sessions g) i = Some s \<and> se_expires_at s \<le> now)"
  by (force simp: expired_sessions_def fset_of_list_elem in_set_items)

text \<open>The next deadline is the moment the first session expires.\<close>

lemma deadline_iff:
  "next_deadline g = Some t \<longleftrightarrow> t \<in> se_expires_at ` set (fvals (sg_sessions g)) \<and> (\<forall>s \<in> set (fvals (sg_sessions g)). t \<le> se_expires_at s)"
proof (cases "map se_expires_at (fvals (sg_sessions g))")
  case Nil
  then show ?thesis by (simp add: next_deadline_def)
next
  case (Cons u us)
  have "fold min us u = Min (se_expires_at ` set (fvals (sg_sessions g)))"
    using Cons Min.set_eq_fold [of u us] by (metis list.set_map)
  then have "next_deadline g = Some (Min (se_expires_at ` set (fvals (sg_sessions g))))" using Cons by (simp add: next_deadline_def)
  moreover have "se_expires_at ` set (fvals (sg_sessions g)) \<noteq> {}" using Cons by (metis list.set_map list.set_intros(1) empty_iff)
  ultimately show ?thesis by (auto simp: Min_eq_iff)
qed

lemma deadline_expires:
  assumes "next_deadline g = Some t"
  shows "(expired_sessions now g \<noteq> {||}) \<longleftrightarrow> t \<le> now"
proof
  assume "expired_sessions now g \<noteq> {||}"
  then obtain i s where "fmlookup (sg_sessions g) i = Some s" "se_expires_at s \<le> now" using in_expired by (metis ex_fin_conv)
  moreover from this have "s \<in> set (fvals (sg_sessions g))" unfolding in_set_fvals by blast
  ultimately show "t \<le> now" using assms unfolding deadline_iff by (meson order_trans)
next
  assume "t \<le> now"
  then obtain i s where "fmlookup (sg_sessions g) i = Some s" "se_expires_at s \<le> now"
    using assms unfolding deadline_iff image_iff Bex_def in_set_fvals by auto
  then show "expired_sessions now g \<noteq> {||}" using in_expired by fastforce
qed

subsection \<open>Ownership\<close>

datatype ownership_request =
    ClaimAsked claim_request
  | ReviseAsked string control_id token u64 bool
  | ReleaseAsked string control_id token token

fun ownership_step :: "ownership_request \<Rightarrow> ownership_registry \<Rightarrow> ownership_registry" where
  "ownership_step (ClaimAsked r) g = snd (claim r g)"
| "ownership_step (ReviseAsked e w t v u) g = snd (accept_revision e w t v u g)"
| "ownership_step (ReleaseAsked e w r t) g = snd (release e w r t g)"

definition owners_ok :: "ownership_registry \<Rightarrow> bool" where
  "owners_ok g \<longleftrightarrow>
     (\<forall>e s. fmlookup (og_entries g) e = Some s \<longrightarrow> ow_entity s = e \<and> e \<noteq> [] \<and> ow_token s \<noteq> []) \<and>
     (\<forall>e d s t. fmlookup (og_entries g) e = Some s \<longrightarrow> fmlookup (og_entries g) d = Some t \<longrightarrow> ow_token s = ow_token t \<longrightarrow> e = d) \<and>
     fcard (fmdom (og_entries g)) \<le> og_maximum g \<and> (\<forall>w. owned_count w g \<le> og_maximum_per_owner g)"

lemma owned_count_card: "owned_count w g = card {e. \<exists>s. fmlookup (og_entries g) e = Some s \<and> ow_owner s = w}"
proof -
  let ?xs = "filter (\<lambda>p. ow_owner (snd p) = w) (items (og_entries g))"
  have "owned_count w g = length (map fst ?xs)" by (simp add: owned_count_def filter_map o_def)
  also have "\<dots> = card (set (map fst ?xs))"
    by (intro distinct_card [symmetric] distinct_map_filter distinct_fkeys)
  also have "set (map fst ?xs) = {e. \<exists>s. fmlookup (og_entries g) e = Some s \<and> ow_owner s = w}"
    by (auto simp: in_set_items image_iff)
  finally show ?thesis .
qed

lemma owned_finite: "finite {e. \<exists>s. fmlookup (og_entries g) e = Some s \<and> P s}"
  by (rule finite_subset [of _ "fset (fmdom (og_entries g))"]) (auto simp: fmlookup_dom_iff)

lemma owners_ok_new: "owners_ok (ownership_new maximum per_owner)"
  by (simp add: owners_ok_def ownership_new_def owned_count_def items_empty fcard.rep_eq)

lemma owners_okD:
  assumes "owners_ok g"
  shows "fmlookup (og_entries g) e = Some s \<Longrightarrow> ow_entity s = e" and "fmlookup (og_entries g) e = Some s \<Longrightarrow> ow_token s \<noteq> []"
    and "fmlookup (og_entries g) e = Some s \<Longrightarrow> fmlookup (og_entries g) d = Some t \<Longrightarrow> ow_token s = ow_token t \<Longrightarrow> e = d"
  using assms unfolding owners_ok_def by blast+

text \<open>Replacing an entry by one with the same owner and token, as an accepted revision does.\<close>

lemma owners_ok_revise:
  assumes ok: "owners_ok g" and e: "fmlookup (og_entries g) e = Some s"
    and s': "ow_entity s' = ow_entity s" "ow_owner s' = ow_owner s" "ow_token s' = ow_token s"
  shows "owners_ok (g\<lparr>og_entries := fmupd e s' (og_entries g)\<rparr>)"
proof -
  have dom: "fmdom (fmupd e s' (og_entries g)) = fmdom (og_entries g)" using e by (auto simp: fmlookup_dom_iff)
  have "{d. \<exists>t. fmlookup (fmupd e s' (og_entries g)) d = Some t \<and> ow_owner t = w} =
      {d. \<exists>t. fmlookup (og_entries g) d = Some t \<and> ow_owner t = w}" for w
    using e s' by (auto split: if_splits)
  then have "owned_count w (g\<lparr>og_entries := fmupd e s' (og_entries g)\<rparr>) = owned_count w g" for w
    unfolding owned_count_card by simp
  then show ?thesis using ok e s' dom unfolding owners_ok_def by (auto split: if_splits)
qed

lemma owners_ok_acquire:
  assumes ok: "owners_ok g" and ent: "cl_entity r \<noteq> []"
  shows "owners_ok (snd (acquire r g))"
proof (cases "fst (acquire r g)")
  case (Inl x)
  then have "snd (acquire r g) = g" by (auto simp: acquire_def Let_def split: if_splits)
  then show ?thesis using ok by simp
next
  case (Inr x)
  let ?e = "cl_entity r"
  define s' where "s' = \<lparr>ow_entity = ?e, ow_owner = cl_owner r, ow_registration = cl_registration r,
    ow_token = cl_new_token r, ow_revision = cl_revision r\<rparr>"
  let ?g = "g\<lparr>og_entries := fmupd ?e s' (og_entries g)\<rparr>"
  have g': "snd (acquire r g) = ?g" and tok: "cl_new_token r \<noteq> []"
    and fresh: "\<not> list_ex (\<lambda>s. ow_token s = cl_new_token r) (fvals (og_entries g))"
    and room: "fmlookup (og_entries g) ?e = None \<Longrightarrow> fcard (fmdom (og_entries g)) < og_maximum g"
    and own: "(case fmlookup (og_entries g) ?e of None \<Rightarrow> True | Some s \<Rightarrow> ow_owner s \<noteq> cl_owner r) \<Longrightarrow>
      owned_count (cl_owner r) g < og_maximum_per_owner g"
    using Inr by (auto simp: acquire_def Let_def s'_def split: if_splits)
  have free: "ow_token s \<noteq> cl_new_token r" if "fmlookup (og_entries g) d = Some s" for d s
    using fresh that unfolding list_ex_iff bex_fvals by blast
  have card: "fcard (fmdom (og_entries ?g)) \<le> og_maximum ?g"
  proof (cases "fmlookup (og_entries g) ?e")
    case None
    then show ?thesis using room by (simp add: fcard_finsert_if)
  next
    case (Some s)
    then have "finsert ?e (fmdom (og_entries g)) = fmdom (og_entries g)" by (auto simp: fmlookup_dom_iff)
    then show ?thesis using ok by (simp add: owners_ok_def)
  qed
  have count: "owned_count w ?g \<le> og_maximum_per_owner ?g" for w
  proof -
    let ?S = "\<lambda>g. {d. \<exists>t. fmlookup (og_entries g) d = Some t \<and> ow_owner t = w}"
    have old: "card (?S g) \<le> og_maximum_per_owner g" using ok unfolding owners_ok_def owned_count_card by blast
    have sub: "?S ?g \<subseteq> (if w = cl_owner r then insert ?e (?S g) else ?S g)" by (auto simp: s'_def split: if_splits)
    show ?thesis
    proof (cases "w = cl_owner r \<and> ?e \<notin> ?S g")
      case True
      then have "card (?S g) < og_maximum_per_owner g" using own unfolding owned_count_card by (auto split: option.splits)
      moreover have "card (?S ?g) \<le> card (insert ?e (?S g))" using sub True owned_finite by (intro card_mono) auto
      moreover have "card (insert ?e (?S g)) = Suc (card (?S g))" using True owned_finite by (intro card_insert_disjoint) auto
      moreover have "og_maximum_per_owner ?g = og_maximum_per_owner g" by simp
      ultimately show ?thesis unfolding owned_count_card by linarith
    next
      case False
      then have "?S ?g \<subseteq> ?S g" using sub by (auto split: if_splits)
      then have "card (?S ?g) \<le> card (?S g)" using owned_finite by (intro card_mono) auto
      then show ?thesis unfolding owned_count_card using old by simp
    qed
  qed
  have "owners_ok ?g"
    using ok ent tok card count free unfolding owners_ok_def by (auto simp: s'_def dest: free free [OF _, symmetric])
  then show ?thesis unfolding g' .
qed

lemma owners_ok_drop: "owners_ok g \<Longrightarrow> owners_ok (g\<lparr>og_entries := fmdrop e (og_entries g)\<rparr>)"
proof -
  assume ok: "owners_ok g"
  have "fcard (fmdom (og_entries g) |-| {|e|}) \<le> fcard (fmdom (og_entries g))" by (intro fcard_mono) auto
  moreover have "owned_count w (g\<lparr>og_entries := fmdrop e (og_entries g)\<rparr>) \<le> owned_count w g" for w
    unfolding owned_count_card by (intro card_mono owned_finite) (auto split: if_splits)
  ultimately show ?thesis
    using ok unfolding owners_ok_def by (auto split: if_splits intro: order_trans) (meson order_trans)
qed

interpretation owners: registry ownership_step "\<lambda>_. True" owners_ok
proof
  fix g r
  assume ok: "owners_ok g"
  show "owners_ok (ownership_step r g)"
  proof (cases r)
    case (ClaimAsked c)
    then show ?thesis
      using ok owners_ok_acquire owners_ok_revise by (auto simp: claim_def Let_def split: option.split)
  qed (use ok owners_ok_revise owners_ok_drop in \<open>auto simp: accept_revision_def release_def split: option.split\<close>)
qed

text \<open>
  Fencing: a token is in force while an entry carries it, and only a claim that brings it as its new token puts it in
  force.
\<close>

definition in_force :: "token \<Rightarrow> ownership_registry \<Rightarrow> bool" where
  "in_force t g \<longleftrightarrow> list_ex (\<lambda>s. ow_token s = t) (fvals (og_entries g))"

fun brings :: "token \<Rightarrow> ownership_request \<Rightarrow> bool" where
  "brings t (ClaimAsked c) = (cl_new_token c = t)"
| "brings t _ = False"

lemma in_force_iff: "in_force t g \<longleftrightarrow> (\<exists>e s. fmlookup (og_entries g) e = Some s \<and> ow_token s = t)"
  unfolding in_force_def list_ex_iff bex_fvals by blast

lemma in_force_acquire:
  assumes "in_force t (snd (acquire r g))"
  shows "in_force t g \<or> cl_new_token r = t"
  using assms unfolding in_force_iff by (auto simp: acquire_def Let_def split: if_splits)

lemma in_force_step: "in_force t (ownership_step r g) \<Longrightarrow> in_force t g \<or> brings t r"
proof (cases r)
  case (ClaimAsked c)
  assume "in_force t (ownership_step r g)"
  then show ?thesis
    using ClaimAsked in_force_acquire [of t c g]
    by (auto simp: claim_def Let_def in_force_iff split: option.splits if_splits)
qed (auto simp: accept_revision_def release_def in_force_iff split: option.splits if_splits)

lemma not_in_force_history:
  "\<not> in_force t g \<Longrightarrow> list_all (\<lambda>r. \<not> brings t r) rs \<Longrightarrow> \<not> in_force t (fold ownership_step rs g)"
  by (induction rs arbitrary: g) (auto dest: in_force_step)

lemma claim_acquired:
  assumes "claim c g = (Inr (Acquired t p), g')"
  shows "acquire c g = (Inr (Acquired t p), g')"
  using assms by (auto simp: claim_def Let_def split: option.splits if_splits)

lemma acquired_state:
  assumes "acquire c g = (Inr (Acquired t p), g')"
  shows "t = cl_new_token c" and "p = fmlookup (og_entries g) (cl_entity c)" and "\<not> in_force t g"
    and "g' = g\<lparr>og_entries := fmupd (cl_entity c) \<lparr>ow_entity = cl_entity c, ow_owner = cl_owner c,
      ow_registration = cl_registration c, ow_token = t, ow_revision = cl_revision c\<rparr> (og_entries g)\<rparr>"
  using assms by (auto simp: acquire_def Let_def in_force_def split: if_splits)

lemma superseded_not_in_force:
  assumes ok: "owners_ok g" and won: "claim c g = (Inr (Acquired t (Some old)), g')"
  shows "\<not> in_force (ow_token old) g'"
proof
  note st = acquired_state [OF claim_acquired [OF won]]
  assume "in_force (ow_token old) g'"
  then obtain e s where s: "fmlookup (og_entries g') e = Some s" "ow_token s = ow_token old" unfolding in_force_iff by blast
  have old: "fmlookup (og_entries g) (cl_entity c) = Some old" using st(2) by simp
  show False
  proof (cases "e = cl_entity c")
    case True
    then have "ow_token old = t" using s unfolding st(4) by auto
    then show False using st(3) old unfolding in_force_iff by blast
  next
    case False
    then have "fmlookup (og_entries g) e = Some s" using s(1) unfolding st(4) by simp
    then show False using False owners_okD(3) [OF ok _ old] s(2) by blast
  qed
qed

lemma not_in_force_refused:
  assumes "\<not> in_force t g"
  shows "fst (accept_revision e w t v u g) = Inl OwnerNotFound \<or> fst (accept_revision e w t v u g) = Inl OwnershipLost"
    and "fst (release e w n t g) = Inl OwnershipLost"
  using assms unfolding in_force_iff by (auto simp: accept_revision_def release_def split: option.split)

subsection \<open>The window of completed commands\<close>

definition log_ok :: "nat \<Rightarrow> 'o session_log \<Rightarrow> bool" where
  "log_ok maximum l \<longleftrightarrow> distinct (lo_order l) \<and> set (lo_order l) = fset (fmdom (lo_completed l)) \<and> length (lo_order l) \<le> maximum"

lemma expire_keeps_last:
  assumes "distinct (lo_order l)" and "set (lo_order l) = fset (fmdom (lo_completed l))"
  shows "lo_order (expire m l) = drop (length (lo_order l) - m) (lo_order l)"
    and "fmlookup (lo_completed (expire m l)) q =
      (if q \<in> set (drop (length (lo_order l) - m) (lo_order l)) then fmlookup (lo_completed l) q else None)"
  using assms
proof (induction m l rule: expire.induct)
  case (1 m l)
  { case 1
    show ?case
    proof (cases "m < length (lo_order l)")
      case True
      then obtain q qs where q: "lo_order l = q # qs" by (cases "lo_order l") auto
      have "lo_order (expire m l) = drop (length qs - m) qs"
        using "1.IH"(1) [OF True] "1.prems" q True by (subst expire.simps) (auto simp: fmdom_drop)
      then show ?thesis using q True by (simp add: Suc_diff_le less_Suc_eq_le)
    qed (simp add: expire.simps)
  next
    case 2
    show ?case
    proof (cases "m < length (lo_order l)")
      case True
      then obtain p qs where p: "lo_order l = p # qs" by (cases "lo_order l") auto
      have rest: "set qs = fset (fmdom (lo_completed l)) - {p}" using "2.prems" p by auto
      have "fmlookup (lo_completed (expire m l)) q =
          (if q \<in> set (drop (length qs - m) qs) then fmlookup (fmdrop p (lo_completed l)) q else None)"
        using "1.IH"(2) [OF True] "2.prems" rest p True by (subst expire.simps) simp
      moreover have "p \<notin> set (drop (length qs - m) qs)" using "2.prems"(1) p in_set_dropD by fastforce
      ultimately show ?thesis using p True by (auto simp: Suc_diff_le less_Suc_eq_le)
    next
      case False
      then show ?thesis using "2.prems" by (subst expire.simps) (auto simp: fmlookup_dom_iff)
    qed }
qed

lemma log_completed_fresh:
  assumes ok: "log_ok m l" and fresh: "fmlookup (lo_completed l) q = None"
  shows "lo_order (log_completed m q v l) = drop (length (lo_order l) + 1 - m) (lo_order l @ [q])"
    and "fmlookup (lo_completed (log_completed m q v l)) p =
      (if p \<in> set (drop (length (lo_order l) + 1 - m) (lo_order l @ [q])) then fmlookup (fmupd q v (lo_completed l)) p else None)"
proof -
  let ?l = "l\<lparr>lo_order := lo_order l @ [q], lo_completed := fmupd q v (lo_completed l)\<rparr>"
  have q: "q \<notin> set (lo_order l)" using ok fresh by (simp add: log_ok_def fmdom_notI)
  have d: "distinct (lo_order ?l)" "set (lo_order ?l) = fset (fmdom (lo_completed ?l))" using ok q by (auto simp: log_ok_def)
  have l: "log_completed m q v l = expire m ?l" using fresh fmdom_notI [OF fresh] by (simp add: log_completed_def fm_has_def)
  show "lo_order (log_completed m q v l) = drop (length (lo_order l) + 1 - m) (lo_order l @ [q])"
    unfolding l expire_keeps_last(1) [OF d] by simp
  show "fmlookup (lo_completed (log_completed m q v l)) p =
      (if p \<in> set (drop (length (lo_order l) + 1 - m) (lo_order l @ [q])) then fmlookup (fmupd q v (lo_completed l)) p else None)"
    unfolding l expire_keeps_last(2) [OF d] by simp
qed

lemma log_completed_known:
  assumes ok: "log_ok m l" and known: "fmlookup (lo_completed l) q = Some w"
  shows "log_completed m q v l = l\<lparr>lo_completed := fmupd q v (lo_completed l)\<rparr>"
  using ok fmdomI [OF known] by (simp add: log_completed_def fm_has_def expire.simps log_ok_def)

lemma log_ok_completed:
  assumes ok: "log_ok m l"
  shows "log_ok m (log_completed m q v l)"
proof (cases "fmlookup (lo_completed l) q")
  case None
  note f = log_completed_fresh [OF ok None, where v = v]
  have q: "q \<notin> set (lo_order l)" using ok None by (simp add: log_ok_def fmdom_notI)
  have "fset (fmdom (lo_completed (log_completed m q v l))) = set (lo_order (log_completed m q v l))"
  proof (rule set_eqI)
    fix p
    have "p \<in> set (lo_order l @ [q]) \<longleftrightarrow> (\<exists>w. fmlookup (fmupd q v (lo_completed l)) p = Some w)"
      using ok by (auto simp: log_ok_def fmlookup_dom_iff)
    then show "p \<in> fset (fmdom (lo_completed (log_completed m q v l))) \<longleftrightarrow> p \<in> set (lo_order (log_completed m q v l))"
      unfolding fmlookup_dom_iff f by (auto dest: in_set_dropD split: if_splits)
  qed
  moreover have "distinct (drop (length (lo_order l) + 1 - m) (lo_order l @ [q]))"
    using ok q by (intro distinct_drop) (simp add: log_ok_def)
  ultimately show ?thesis unfolding log_ok_def f(1) by simp
next
  case (Some w)
  then show ?thesis using ok fmdomI [OF Some] unfolding log_completed_known [OF ok Some] by (auto simp: log_ok_def)
qed

text \<open>A run of completions on one log, and what it leaves of it.\<close>

definition log_run :: "nat \<Rightarrow> (token \<times> 'o) list \<Rightarrow> 'o session_log \<Rightarrow> 'o session_log" where
  "log_run m = fold (\<lambda>(q, v). log_completed m q v)"

lemma log_run_simps: "log_run m [] l = l" "log_run m ((q, v) # rs) l = log_run m rs (log_completed m q v l)"
  by (simp_all add: log_run_def)

lemma log_ok_run: "log_ok m l \<Longrightarrow> log_ok m (log_run m rs l)"
  unfolding log_run_def by (induction rs arbitrary: l) (auto intro: log_ok_completed)

lemma log_completed_other:
  assumes "log_ok m l" and "p \<noteq> q"
  shows "fmlookup (lo_completed (log_completed m q v l)) p = None \<or>
    fmlookup (lo_completed (log_completed m q v l)) p = fmlookup (lo_completed l) p"
proof (cases "fmlookup (lo_completed l) q")
  case None
  show ?thesis unfolding log_completed_fresh(2) [OF assms(1) None] using assms(2) by simp
next
  case (Some w)
  show ?thesis unfolding log_completed_known [OF assms(1) Some] using assms(2) by simp
qed

lemma log_run_other:
  assumes "log_ok m l" and "p \<notin> fst ` set rs"
  shows "fmlookup (lo_completed (log_run m rs l)) p = None \<or>
    fmlookup (lo_completed (log_run m rs l)) p = fmlookup (lo_completed l) p"
  using assms
proof (induction rs arbitrary: l)
  case (Cons r rs)
  obtain q v where r: "r = (q, v)" by force
  have "p \<noteq> q" using Cons.prems r by simp
  then show ?case
    using Cons.IH [OF log_ok_completed [OF Cons.prems(1)]] Cons.prems log_completed_other [OF Cons.prems(1)]
    unfolding r log_run_simps by (metis image_insert insertCI list.simps(15))
qed (simp add: log_run_simps)

lemma log_run_order:
  assumes "log_ok m l" and "distinct (map fst rs)" and "list_all (\<lambda>q. fmlookup (lo_completed l) q = None) (map fst rs)"
  shows "lo_order (log_run m rs l) = drop (length (lo_order l) + length rs - m) (lo_order l @ map fst rs)"
  using assms
proof (induction rs arbitrary: l)
  case Nil
  then show ?case by (simp add: log_run_simps log_ok_def)
next
  case (Cons r rs)
  obtain q v where r: "r = (q, v)" by force
  have fresh: "fmlookup (lo_completed l) q = None" using Cons.prems r by simp
  let ?l = "log_completed m q v l"
  note f = log_completed_fresh(1) [OF Cons.prems(1) fresh, where v = v]
  have "fmlookup (lo_completed ?l) p = None" if "p \<in> set (map fst rs)" for p
  proof -
    have "p \<noteq> q" "fmlookup (lo_completed l) p = None" using Cons.prems that r by (auto simp: list_all_iff)
    then show ?thesis using log_completed_other [OF Cons.prems(1), of p q v] by simp
  qed
  then have "lo_order (log_run m rs ?l) = drop (length (lo_order ?l) + length rs - m) (lo_order ?l @ map fst rs)"
    using Cons.prems r by (intro Cons.IH log_ok_completed) (auto simp: list_all_iff)
  moreover have "length (lo_order l) \<le> m" using Cons.prems by (simp add: log_ok_def)
  moreover have "drop 1 (lo_order l @ [q]) @ map fst rs = drop 1 (lo_order l @ q # map fst rs)" by (cases "lo_order l") simp_all
  ultimately show ?case
    unfolding r log_run_simps f
    by (cases "length (lo_order l) = m") (simp_all del: drop_append)
qed

text \<open>A result is replayed until \<open>m\<close> newer requests have completed, and then no longer.\<close>

lemma log_window:
  assumes ok: "log_ok m l" and d: "distinct (q # map fst rs)"
    and fresh: "list_all (\<lambda>q. fmlookup (lo_completed l) q = None) (q # map fst rs)"
  shows "fmlookup (lo_completed (log_run m ((q, v) # rs) l)) q = (if length rs < m then Some v else None)"
proof -
  let ?r = "log_run m ((q, v) # rs) l" and ?o = "lo_order l"
  have qo: "q \<notin> set ?o" using ok fresh by (simp add: log_ok_def fmdom_notI)
  have len: "length ?o \<le> m" using ok by (simp add: log_ok_def)
  have "lo_order ?r = drop (length ?o + length ((q, v) # rs) - m) (?o @ map fst ((q, v) # rs))"
    using d fresh by (intro log_run_order [OF ok]) simp_all
  then have order: "lo_order ?r = drop (length ?o + Suc (length rs) - m) (?o @ q # map fst rs)" by simp
  have "fset (fmdom (lo_completed ?r)) = set (lo_order ?r)" using log_ok_run [OF ok] unfolding log_ok_def by blast
  then have dom: "fmlookup (lo_completed ?r) q = None \<longleftrightarrow> q \<notin> set (lo_order ?r)" by (metis fmdom_notD fmdom_notI)
  show ?thesis
  proof (cases "length rs < m")
    case True
    then have "q \<in> set (lo_order ?r)" unfolding order by (simp add: drop_append)
    then have "fmlookup (lo_completed ?r) q = fmlookup (lo_completed (log_completed m q v l)) q"
      using log_run_other [OF log_ok_completed [OF ok, of q v], of q rs] d dom unfolding log_run_simps by auto
    moreover have "fmlookup (lo_completed (log_completed m q v l)) q = Some v"
      using fresh log_completed_fresh(2) [OF ok, of q v q] True len by (simp add: drop_append)
    ultimately show ?thesis using True by simp
  next
    case False
    then have "q \<notin> set (lo_order ?r)" unfolding order using d qo by (auto simp: drop_append drop_Cons' dest: in_set_dropD)
    then show ?thesis using dom False by simp
  qed
qed

datatype 'o command_request =
    AttachAsked control_id
  | CompleteAsked control_id token 'o
  | ForgetAsked control_id

fun command_step :: "'o command_request \<Rightarrow> 'o reliable_commands \<Rightarrow> 'o reliable_commands" where
  "command_step (AttachAsked i) c = attach_log i c"
| "command_step (CompleteAsked i q v) c = snd (complete_command i q v c)"
| "command_step (ForgetAsked i) c = remove_log i c"

definition commands_ok :: "'o reliable_commands \<Rightarrow> bool" where
  "commands_ok c \<longleftrightarrow> (\<forall>i l. fmlookup (rc_sessions c) i = Some l \<longrightarrow> log_ok (rc_maximum c) l)"

interpretation commands: registry command_step "\<lambda>_. True" commands_ok
proof
  fix c :: "'o reliable_commands" and r
  assume ok: "commands_ok c"
  then show "commands_ok (command_step r c)"
    by (cases r) (auto simp: commands_ok_def attach_log_def complete_command_def remove_log_def log_ok_def [where l = "\<lparr>lo_completed = fmempty, lo_order = []\<rparr>"]
        intro: log_ok_completed split: option.split if_splits)
qed

lemma commands_ok_new: "commands_ok (reliable_new maximum)"
  by (simp add: commands_ok_def reliable_new_def)

text \<open>The completions one session sees in a history of the whole registry.\<close>

fun completions :: "control_id \<Rightarrow> 'o command_request list \<Rightarrow> (token \<times> 'o) list" where
  "completions i [] = []"
| "completions i (CompleteAsked j q v # rs) = (if j = i \<and> q \<noteq> [] then (q, v) # completions i rs else completions i rs)"
| "completions i (_ # rs) = completions i rs"

lemma command_history:
  assumes "fmlookup (rc_sessions c) i = Some l" and "ForgetAsked i \<notin> set rs"
  shows "fmlookup (rc_sessions (fold command_step rs c)) i = Some (log_run (rc_maximum c) (completions i rs) l)"
  using assms
proof (induction rs arbitrary: c l)
  case (Cons r rs)
  show ?case
  proof (cases r)
    case (AttachAsked j)
    have "rc_maximum (attach_log j c) = rc_maximum c" "fmlookup (rc_sessions (attach_log j c)) i = Some l"
      using Cons.prems fmdomI [OF Cons.prems(1)] by (auto simp: attach_log_def fm_has_def)
    then show ?thesis using Cons AttachAsked by simp
  next
    case (CompleteAsked j q v)
    then show ?thesis using Cons by (auto simp: complete_command_def log_run_simps split: option.split)
  next
    case (ForgetAsked j)
    then show ?thesis using Cons by (auto simp: remove_log_def)
  qed
qed (simp add: log_run_simps)

end
