(* ===== verification/Props_Control.thy ===== *)
theory Props_Control
  imports Control_Inv
begin

text \<open>What the controller may rely on: session capabilities, fencing of ownership, replay of commands.\<close>

subsection \<open>A small registry of each kind\<close>

definition lab_profile :: profile_ref where
  "lab_profile = \<lparr>pr_id = ''spaces'', pr_version = 1, pr_digest = ''d''\<rparr>"

definition lab_open :: "u8 \<Rightarrow> token \<Rightarrow> nat \<Rightarrow> open_session" where
  "lab_open n resume now = \<lparr>op_controller = ''lab'', op_instance = [1], op_resume_token = resume, op_profile = lab_profile,
     op_credentials = \<lparr>cd_session_token = [n], cd_resume_token = [n, n]\<rparr>, op_now = now\<rparr>"

definition lab_claim :: "control_id \<Rightarrow> u8 \<Rightarrow> claim_request" where
  "lab_claim w n = \<lparr>cl_entity = ''alice'', cl_owner = w, cl_registration = [7], cl_presented = [], cl_revision = 1,
     cl_new_token = [n], cl_mode = Explicit\<rparr>"

subsection \<open>Sessions\<close>

text \<open>
  C26. Whatever is asked of the session registry, each session token opens one session and each resume token names one
  session, no more sessions are open than the maximum, and the next identifier to be handed out is above those in use.
\<close>

theorem session_capabilities_exclusive:
  assumes "list_all session_good rs"
  shows "sessions_ok (fold session_step rs (sessions_new maximum lease))"
  using assms by (intro sessions.history_keeps sessions_ok_new)

theorem session_capabilities_exclusive_witness:
  "sessions_ok (fold session_step [OpenAsked (lab_open 3 [] 0), OpenAsked (lab_open 4 [3, 3] 5), RemoveAsked 1] (sessions_new 2 10))"
  by (rule session_capabilities_exclusive) (simp add: lab_open_def)

text \<open>
  C25. Opening a session, new or resumed, grants exactly the token it returns, which no session had before; the token the
  session had until then is void, and every other session keeps its own.
\<close>

theorem open_replaces_capability:
  assumes "open_request r g = (Inr ready, g')"
  shows "sr_session_token ready = cd_session_token (op_credentials r) \<and> \<not> session_token_exists (sr_session_token ready) g \<and>
    (\<forall>i t. authorize i t g' = (if i = sr_session ready then t = sr_session_token ready else authorize i t g))"
  using open_capability(1-3) [OF assms] by blast

theorem open_replaces_capability_witness:
  "\<exists>ready g'. open_request (lab_open 4 [3, 3] 5) (snd (open_request (lab_open 3 [] 0) (sessions_new 2 10))) = (Inr ready, g') \<and>
    sr_resumed ready \<and> authorize 1 [4] g' \<and> \<not> authorize 1 [3] g'"
proof -
  obtain ready g' where o: "open_request (lab_open 4 [3, 3] 5) (snd (open_request (lab_open 3 [] 0) (sessions_new 2 10))) = (Inr ready, g')"
    and r: "sr_resumed ready" "sr_session ready = 1"
    by (simp add: lab_open_def open_request_def sessions_new_def resumable_def create_session_def resume_session_def session_token_exists_def
        checked_add_def fm_has_def fcard.rep_eq items_upd items_empty)
  have "sr_session_token ready = [4]" using open_replaces_capability [OF o] by (simp add: lab_open_def)
  then have "authorize 1 [4] g' \<and> \<not> authorize 1 [3] g'" using open_replaces_capability [OF o] r by auto
  then show ?thesis using o r by blast
qed

subsection \<open>Ownership\<close>

text \<open>
  C24. Fencing: once an entity has been taken over, the token of its former owner is refused for ever, for revisions and
  releases of every entity, through any sequence of requests that does not hand out the same token anew.
\<close>

theorem superseded_owner_fenced:
  assumes "claim c (fold ownership_step past (ownership_new maximum per_owner)) = (Inr (Acquired t (Some old)), g)"
    and "list_all (\<lambda>r. \<not> brings (ow_token old) r) rs"
  shows "fst (accept_revision e w (ow_token old) v u (fold ownership_step rs g)) \<in> {Inl OwnerNotFound, Inl OwnershipLost} \<and>
    fst (release e w n (ow_token old) (fold ownership_step rs g)) = Inl OwnershipLost"
proof -
  have "owners_ok (fold ownership_step past (ownership_new maximum per_owner))"
    by (intro owners.history_keeps owners_ok_new) (simp add: list.pred_True)
  then have "\<not> in_force (ow_token old) (fold ownership_step rs g)"
    using superseded_not_in_force [OF _ assms(1)] not_in_force_history [OF _ assms(2)] by blast
  then show ?thesis using not_in_force_refused by blast
qed

lemma lab_takeover:
  "claim (lab_claim 2 6) (fold ownership_step [ClaimAsked (lab_claim 1 5)] (ownership_new 4 4)) =
    (Inr (Acquired [6] (Some \<lparr>ow_entity = ''alice'', ow_owner = 1, ow_registration = [7], ow_token = [5], ow_revision = 1\<rparr>)),
     \<lparr>og_maximum = 4, og_maximum_per_owner = 4, og_entries = fmupd ''alice''
        \<lparr>ow_entity = ''alice'', ow_owner = 2, ow_registration = [7], ow_token = [6], ow_revision = 1\<rparr> fmempty\<rparr>)"
  by (simp add: lab_claim_def claim_def acquire_def claim_resumable_def ownership_new_def owned_count_def items_upd items_empty
      fcard.rep_eq)

theorem superseded_owner_fenced_witness:
  "fst (release ''alice'' 1 [7] [5] (fold ownership_step [ReleaseAsked ''alice'' 2 [7] [6]] (snd (claim (lab_claim 2 6)
    (fold ownership_step [ClaimAsked (lab_claim 1 5)] (ownership_new 4 4)))))) = Inl OwnershipLost"
  using superseded_owner_fenced [OF lab_takeover, where rs = "[ReleaseAsked ''alice'' 2 [7] [6]]" and e = "''alice''" and w = 1 and n = "[7]"]
  unfolding lab_takeover by simp

subsection \<open>Commands\<close>

text \<open>
  C27. A completed command is replayed to a session that asks for it again until as many further new commands of that
  session have completed as the log may hold, and then no longer, whatever the other sessions do in between.
\<close>

theorem command_replay_window:
  assumes "fmlookup (rc_sessions c) i = Some l" and "commands_ok c" and "ForgetAsked i \<notin> set rs" and "request \<noteq> []"
    and "distinct (request # map fst (completions i rs))"
    and "list_all (\<lambda>q. replay_command i q c = None) (request # map fst (completions i rs))"
  shows "replay_command i request (fold command_step rs (snd (complete_command i request outcome c))) =
    (if length (completions i rs) < rc_maximum c then Some outcome else None)"
proof -
  have run: "fmlookup (rc_sessions (fold command_step (CompleteAsked i request outcome # rs) c)) i =
      Some (log_run (rc_maximum c) ((request, outcome) # completions i rs) l)"
    using command_history [OF assms(1), of "CompleteAsked i request outcome # rs"] assms(3,4) by simp
  have "log_ok (rc_maximum c) l" using assms(1,2) by (simp add: commands_ok_def)
  moreover have "list_all (\<lambda>q. fmlookup (lo_completed l) q = None) (request # map fst (completions i rs))"
    using assms(1,6) by (simp add: replay_command_def)
  ultimately show ?thesis using run log_window [OF _ assms(5)] by (simp add: replay_command_def)
qed

theorem command_replay_window_witness:
  "\<exists>c. c = fold command_step [AttachAsked 1, AttachAsked 2] (reliable_new 2) \<and>
    replay_command 1 [8] (fold command_step [CompleteAsked 2 [9] False, CompleteAsked 1 [9] False] (snd (complete_command 1 [8] True c))) = Some True \<and>
    replay_command 1 [8] (fold command_step [CompleteAsked 1 [9] False, CompleteAsked 1 [10] False] (snd (complete_command 1 [8] True c))) = None"
proof -
  let ?c = "fold command_step [AttachAsked 1, AttachAsked 2] (reliable_new 2) :: bool reliable_commands"
  have l: "fmlookup (rc_sessions ?c) 1 = Some \<lparr>lo_completed = fmempty, lo_order = []\<rparr>"
    by (simp add: attach_log_def reliable_new_def fm_has_def)
  have max: "rc_maximum ?c = 2" by (simp add: attach_log_def reliable_new_def fm_has_def)
  have ok: "commands_ok ?c" by (intro commands.history_keeps commands_ok_new) simp
  note window = command_replay_window [OF l ok, where request = "[8]" and outcome = True]
  show ?thesis
    using window [of "[CompleteAsked 2 [9] False, CompleteAsked 1 [9] False]"] window [of "[CompleteAsked 1 [9] False, CompleteAsked 1 [10] False]"] l max
    by (simp add: replay_command_def)
qed

end
