(* ===== verification/Peer.thy ===== *)
theory Peer
  imports Limits Crypt_State Routing Queue
begin

text \<open>
  The connections as the voice plane sees them, \<open>runtime/crates/gateway/src/peer.rs\<close>: one record
  per connection and the registry that finds it by connection, by session, by proven address and by host. The
  shared records of the source (\<open>Arc<Peer>\<close>) are kept in \<open>px_heap\<close>, where a connection number
  stands for the reference; a record that is no longer registered stays there, as one that is still referenced does.
  The routing table behind a plane belongs to the shard, so a plane names the shard whose table it reads. Instants
  are nanoseconds, and the floating-point numbers a client reports are carried as their bits.
\<close>

subsection \<open>One connection\<close>

type_synonym ip_address = "u8 list"
type_synonym socket_address = "ip_address \<times> u16"

record shard_plane =
  pl_shard :: shard_id
  pl_table :: "shard_id option"

record client_report =
  re_good :: u32
  re_late :: u32
  re_lost :: u32
  re_resync :: u32
  re_udp_packets :: u32
  re_tcp_packets :: u32
  re_udp_ping_avg :: u32
  re_udp_ping_var :: u32
  re_tcp_ping_avg :: u32
  re_tcp_ping_var :: u32

definition report_none :: client_report where
  "report_none = \<lparr>re_good = 0, re_late = 0, re_lost = 0, re_resync = 0, re_udp_packets = 0, re_tcp_packets = 0,
     re_udp_ping_avg = 0, re_udp_ping_var = 0, re_tcp_ping_avg = 0, re_tcp_ping_var = 0\<rparr>"

text \<open>What waits in the queue of a connection: a control message, or a tunnelled voice packet.\<close>

datatype 'm delivery = Control 'm | UdpTunnel "u8 list"

record 'm peer =
  pe_connection :: connection_id
  pe_session :: session_id
  pe_host :: ip_address
  pe_crypt :: crypt_state
  pe_address :: "socket_address option"
  pe_udp_mode :: bool
  pe_budget :: voice_budget
  pe_text :: text_budget
  pe_cursor :: u64
  pe_queue :: "'m delivery outbound_queue"
  pe_plane :: shard_plane
  pe_online_since :: nat
  pe_reported :: client_report

definition peer_new ::
    "connection_id \<Rightarrow> session_id \<Rightarrow> ip_address \<Rightarrow> crypt_state \<Rightarrow> 'm delivery outbound_queue \<Rightarrow> shard_plane \<Rightarrow> nat \<Rightarrow> 'm peer" where
  "peer_new connection session host crypt queue plane now =
     \<lparr>pe_connection = connection, pe_session = session, pe_host = host, pe_crypt = crypt, pe_address = None,
      pe_udp_mode = True, pe_budget = voice_budget_new now, pe_text = text_budget_new now, pe_cursor = 0,
      pe_queue = queue, pe_plane = plane, pe_online_since = now, pe_reported = report_none\<rparr>"

definition record_report :: "client_report \<Rightarrow> 'm peer \<Rightarrow> 'm peer" where
  "record_report report p = p\<lparr>pe_reported := report\<rparr>"

definition traffic :: "nat \<Rightarrow> 'm peer \<Rightarrow> (nat \<times> nat) \<times> 'm peer" where
  "traffic now p = (let (bytes, budget) = bandwidth now (pe_budget p) in ((bytes, idle now budget), p\<lparr>pe_budget := budget\<rparr>))"

definition record_activity :: "nat \<Rightarrow> 'm peer \<Rightarrow> 'm peer" where
  "record_activity now p = p\<lparr>pe_budget := touch now (pe_budget p)\<rparr>"

definition peer_shard :: "'m peer \<Rightarrow> shard_id" where
  "peer_shard p = pl_shard (pe_plane p)"

text \<open>A plane that is still a placeholder reads an empty table.\<close>

definition peer_routing :: "(shard_id \<Rightarrow> audio_routing) \<Rightarrow> audio_routing \<Rightarrow> 'm peer \<Rightarrow> audio_routing" where
  "peer_routing tables nothing p = (case pl_table (pe_plane p) of None \<Rightarrow> nothing | Some s \<Rightarrow> tables s)"

definition move_to :: "shard_plane \<Rightarrow> 'm peer \<Rightarrow> 'm peer" where
  "move_to plane p = p\<lparr>pe_plane := plane\<rparr>"

definition peer_decrypt :: "u8 list \<Rightarrow> 'm peer \<Rightarrow> u8 list option \<times> 'm peer" where
  "peer_decrypt datagram p = (let (plain, st) = crypt_decrypt datagram (pe_crypt p) in (plain, p\<lparr>pe_crypt := st\<rparr>))"

definition peer_encrypt :: "u8 list \<Rightarrow> 'm peer \<Rightarrow> u8 list option \<times> 'm peer" where
  "peer_encrypt plain p = (let (sealed, st) = crypt_encrypt plain (pe_crypt p) in (sealed, p\<lparr>pe_crypt := st\<rparr>))"

definition crypt_counters :: "'m peer \<Rightarrow> u32 \<times> u32 \<times> u32" where
  "crypt_counters p = (cs_good (pe_crypt p), cs_late (pe_crypt p), cs_lost (pe_crypt p))"

definition allow_voice :: "nat \<Rightarrow> nat \<Rightarrow> 'm peer \<Rightarrow> bool \<times> 'm peer" where
  "allow_voice now bytes p = (let (ok, budget) = voice_allow now bytes (pe_budget p) in (ok, p\<lparr>pe_budget := budget\<rparr>))"

definition allow_text :: "nat \<Rightarrow> 'm peer \<Rightarrow> bool \<times> 'm peer" where
  "allow_text now p = (let (ok, budget) = text_allow now (pe_text p) in (ok, p\<lparr>pe_text := budget\<rparr>))"

definition set_udp_mode :: "bool \<Rightarrow> 'm peer \<Rightarrow> 'm peer" where
  "set_udp_mode on p = p\<lparr>pe_udp_mode := on\<rparr>"

definition destination :: "'m peer \<Rightarrow> socket_address option" where
  "destination p = (if pe_udp_mode p then pe_address p else None)"

definition peer_close :: "'m peer \<Rightarrow> 'm peer" where
  "peer_close p = p\<lparr>pe_queue := mark_fatal (pe_queue p)\<rparr>"

subsection \<open>The registry\<close>

record 'm peers =
  px_heap :: "(connection_id, 'm peer) fmap"
  px_by_connection :: "connection_id fset"
  px_by_session :: "(session_id, connection_id) fmap"
  px_by_address :: "(socket_address, connection_id) fmap"
  px_by_host :: "(ip_address, connection_id list) fmap"

definition peers_new :: "'m peers" where
  "peers_new = \<lparr>px_heap = fmempty, px_by_connection = {||}, px_by_session = fmempty, px_by_address = fmempty, px_by_host = fmempty\<rparr>"

definition edit_peer :: "connection_id \<Rightarrow> ('m peer \<Rightarrow> 'm peer) \<Rightarrow> 'm peers \<Rightarrow> 'm peers" where
  "edit_peer c f px = px\<lparr>px_heap := fm_adjust c f (px_heap px)\<rparr>"

definition insert_peer :: "'m peer \<Rightarrow> 'm peers \<Rightarrow> 'm peers" where
  "insert_peer p px = px\<lparr>px_heap := fmupd (pe_connection p) p (px_heap px),
     px_by_connection := finsert (pe_connection p) (px_by_connection px),
     px_by_session := fmupd (pe_session p) (pe_connection p) (px_by_session px),
     px_by_host := fmupd (pe_host p) (fm_get_or [] (px_by_host px) (pe_host p) @ [pe_connection p]) (px_by_host px)\<rparr>"

definition forget_host :: "ip_address \<Rightarrow> connection_id \<Rightarrow> (ip_address, connection_id list) fmap \<Rightarrow> (ip_address, connection_id list) fmap" where
  "forget_host host c hosts =
     (case fmlookup hosts host of
        None \<Rightarrow> hosts
      | Some cs \<Rightarrow> let cs = filter (\<lambda>other. other \<noteq> c) cs in if cs = [] then fmdrop host hosts else fmupd host cs hosts)"

definition remove_peer :: "connection_id \<Rightarrow> 'm peers \<Rightarrow> 'm peer option \<times> 'm peers" where
  "remove_peer c px =
     (if c |\<notin>| px_by_connection px then (None, px)
      else case fmlookup (px_heap px) c of
             None \<Rightarrow> (None, px)
           | Some p \<Rightarrow>
               (Some p, px\<lparr>px_by_connection := px_by_connection px |-| {|c|},
                  px_by_session := fmdrop (pe_session p) (px_by_session px),
                  px_by_address := (case pe_address p of None \<Rightarrow> px_by_address px | Some a \<Rightarrow> fmdrop a (px_by_address px)),
                  px_by_host := forget_host (pe_host p) c (px_by_host px)\<rparr>))"

definition by_connection :: "'m peers \<Rightarrow> connection_id \<Rightarrow> 'm peer option" where
  "by_connection px c = (if c |\<in>| px_by_connection px then fmlookup (px_heap px) c else None)"

definition by_session :: "'m peers \<Rightarrow> session_id \<Rightarrow> 'm peer option" where
  "by_session px s = Option.bind (fmlookup (px_by_session px) s) (fmlookup (px_heap px))"

definition by_address :: "'m peers \<Rightarrow> socket_address \<Rightarrow> 'm peer option" where
  "by_address px a = Option.bind (fmlookup (px_by_address px) a) (fmlookup (px_heap px))"

definition candidates :: "'m peers \<Rightarrow> ip_address \<Rightarrow> connection_id list" where
  "candidates px host = fm_get_or [] (px_by_host px) host"

definition bind_address :: "socket_address \<Rightarrow> connection_id \<Rightarrow> 'm peers \<Rightarrow> 'm peers" where
  "bind_address a c px =
     (case fmlookup (px_heap px) c of
        None \<Rightarrow> px
      | Some p \<Rightarrow>
          let px = (case pe_address p of
                      Some previous \<Rightarrow> if previous \<noteq> a then px\<lparr>px_by_address := fmdrop previous (px_by_address px)\<rparr> else px
                    | None \<Rightarrow> px);
              px = edit_peer c (\<lambda>p. p\<lparr>pe_address := Some a\<rparr>) px
          in px\<lparr>px_by_address := fmupd a c (px_by_address px)\<rparr>)"

definition on_shard :: "'m peers \<Rightarrow> shard_id \<Rightarrow> connection_id list" where
  "on_shard px s = filter (\<lambda>c. map_option peer_shard (fmlookup (px_heap px) c) = Some s) (sorted_list_of_fset (px_by_connection px))"

definition peers_len :: "'m peers \<Rightarrow> nat" where
  "peers_len px = fcard (px_by_connection px)"

subsection \<open>The indexes agree\<close>

definition peers_ok :: "'m peers \<Rightarrow> bool" where
  "peers_ok px \<longleftrightarrow>
     (\<forall>c p. fmlookup (px_heap px) c = Some p \<longrightarrow> pe_connection p = c) \<and>
     (\<forall>c. c |\<in>| px_by_connection px \<longrightarrow> (\<exists>p. fmlookup (px_heap px) c = Some p \<and> fmlookup (px_by_session px) (pe_session p) = Some c)) \<and>
     (\<forall>s c. fmlookup (px_by_session px) s = Some c \<longrightarrow> c |\<in>| px_by_connection px \<and> map_option pe_session (fmlookup (px_heap px) c) = Some s) \<and>
     (\<forall>a c. fmlookup (px_by_address px) a = Some c \<longrightarrow>
        c |\<in>| px_by_connection px \<and> Option.bind (fmlookup (px_heap px) c) pe_address = Some a) \<and>
     (\<forall>h c. c \<in> set (candidates px h) \<longleftrightarrow> c |\<in>| px_by_connection px \<and> map_option pe_host (fmlookup (px_heap px) c) = Some h)"

lemma peers_okD:
  assumes "peers_ok px"
  shows "fmlookup (px_heap px) c = Some p \<Longrightarrow> pe_connection p = c"
    and "c |\<in>| px_by_connection px \<Longrightarrow> \<exists>p. fmlookup (px_heap px) c = Some p \<and> fmlookup (px_by_session px) (pe_session p) = Some c"
    and "fmlookup (px_by_session px) s = Some c \<Longrightarrow> c |\<in>| px_by_connection px \<and> map_option pe_session (fmlookup (px_heap px) c) = Some s"
    and "fmlookup (px_by_address px) a = Some c \<Longrightarrow> c |\<in>| px_by_connection px \<and> Option.bind (fmlookup (px_heap px) c) pe_address = Some a"
    and "c \<in> set (candidates px h) \<longleftrightarrow> c |\<in>| px_by_connection px \<and> map_option pe_host (fmlookup (px_heap px) c) = Some h"
  using assms unfolding peers_ok_def by blast+

lemma peers_okI:
  assumes "\<And>c p. fmlookup (px_heap px) c = Some p \<Longrightarrow> pe_connection p = c"
    and "\<And>c. c |\<in>| px_by_connection px \<Longrightarrow> \<exists>p. fmlookup (px_heap px) c = Some p \<and> fmlookup (px_by_session px) (pe_session p) = Some c"
    and "\<And>s c. fmlookup (px_by_session px) s = Some c \<Longrightarrow> c |\<in>| px_by_connection px \<and> map_option pe_session (fmlookup (px_heap px) c) = Some s"
    and "\<And>a c. fmlookup (px_by_address px) a = Some c \<Longrightarrow> c |\<in>| px_by_connection px \<and> Option.bind (fmlookup (px_heap px) c) pe_address = Some a"
    and "\<And>h c. c \<in> set (candidates px h) \<longleftrightarrow> c |\<in>| px_by_connection px \<and> map_option pe_host (fmlookup (px_heap px) c) = Some h"
  shows "peers_ok px"
  unfolding peers_ok_def using assms by blast

lemma peers_ok_new: "peers_ok peers_new"
  by (simp add: peers_ok_def peers_new_def candidates_def fm_get_or_def)

text \<open>An edit that leaves the identity and the address of a connection alone leaves the indexes right.\<close>

lemma peers_ok_edit:
  assumes "peers_ok px" and "\<And>p. pe_connection (f p) = pe_connection p" and "\<And>p. pe_session (f p) = pe_session p"
    and "\<And>p. pe_host (f p) = pe_host p" and "\<And>p. pe_address (f p) = pe_address p"
  shows "peers_ok (edit_peer c f px)"
  using assms unfolding peers_ok_def edit_peer_def candidates_def
  by (auto split: if_splits simp: option.map_comp bind_map_option o_def) metis

text \<open>A new connection has a number and a session of its own.\<close>

lemma peers_ok_insert:
  assumes ok: "peers_ok px" and new: "fmlookup (px_heap px) (pe_connection p) = None" and s: "fmlookup (px_by_session px) (pe_session p) = None"
  shows "peers_ok (insert_peer p px)"
proof -
  have gone: "pe_connection p |\<notin>| px_by_connection px" using peers_okD(2) [OF ok] new by fastforce
  have other: "c \<noteq> pe_connection p" if "fmlookup (px_by_session px) t = Some c \<or> fmlookup (px_by_address px) a = Some c" for t a c
    using that gone peers_okD(3,4) [OF ok] by blast
  have cands: "c \<in> set (candidates (insert_peer p px) h) \<longleftrightarrow> c \<in> set (candidates px h) \<or> (h = pe_host p \<and> c = pe_connection p)" for c h
    by (auto simp: candidates_def insert_peer_def fm_get_or_def)
  have "pe_connection p \<notin> set (candidates px h)" for h using gone peers_okD(5) [OF ok] by blast
  then have hosts: "c \<in> set (candidates (insert_peer p px) h) \<longleftrightarrow>
      c |\<in>| px_by_connection (insert_peer p px) \<and> map_option pe_host (fmlookup (px_heap (insert_peer p px)) c) = Some h" for c h
    unfolding cands peers_okD(5) [OF ok] using gone by (auto simp: insert_peer_def)
  have "\<exists>q. fmlookup (px_heap px) c = Some q \<and> pe_session q \<noteq> pe_session p \<and> fmlookup (px_by_session px) (pe_session q) = Some c"
    if "c |\<in>| px_by_connection px" for c
    using peers_okD(2) [OF ok that] s by force
  then show ?thesis
    unfolding peers_ok_def
    using hosts other gone peers_okD(1,3,4) [OF ok] by (auto simp: insert_peer_def) (metis other)+
qed

lemma peers_ok_remove:
  assumes ok: "peers_ok px"
  shows "peers_ok (snd (remove_peer c px))"
proof (cases "c |\<in>| px_by_connection px \<and> fmlookup (px_heap px) c \<noteq> None")
  case True
  then obtain p where p: "fmlookup (px_heap px) c = Some p" and live: "c |\<in>| px_by_connection px" by auto
  let ?r = "snd (remove_peer c px)"
  have r: "px_heap ?r = px_heap px" "px_by_connection ?r = px_by_connection px |-| {|c|}" "px_by_session ?r = fmdrop (pe_session p) (px_by_session px)"
    "px_by_address ?r = (case pe_address p of None \<Rightarrow> px_by_address px | Some a \<Rightarrow> fmdrop a (px_by_address px))"
    "px_by_host ?r = forget_host (pe_host p) c (px_by_host px)"
    using p live by (simp_all add: remove_peer_def)
  have cands: "set (candidates ?r h) = (if h = pe_host p then set (candidates px h) - {c} else set (candidates px h))" for h
    unfolding candidates_def r forget_host_def by (auto simp: fm_get_or_def filter_empty_conv split: option.split)
  have "c \<notin> set (candidates px h)" if "h \<noteq> pe_host p" for h using peers_okD(5) [OF ok, of c h] p that by auto
  then have hosts: "d \<in> set (candidates ?r h) \<longleftrightarrow> d |\<in>| px_by_connection ?r \<and> map_option pe_host (fmlookup (px_heap ?r) d) = Some h" for d h
    unfolding cands r using peers_okD(5) [OF ok, of d h] by auto
  have sess: "fmlookup (px_by_session px) (pe_session p) = Some c" using peers_okD(2) [OF ok live] p by simp
  have own: "fmlookup (px_by_session px) t = Some c \<Longrightarrow> t = pe_session p" for t using peers_okD(3) [OF ok] p by fastforce
  have addr: "fmlookup (px_by_address px) a = Some c \<Longrightarrow> pe_address p = Some a" for a using peers_okD(4) [OF ok] p by fastforce
  have others: "\<exists>q. fmlookup (px_heap px) d = Some q \<and> pe_session q \<noteq> pe_session p \<and> fmlookup (px_by_session px) (pe_session q) = Some d"
    if "d |\<in>| px_by_connection px" "d \<noteq> c" for d
    using peers_okD(2) [OF ok that(1)] sess that(2) by (metis option.inject)
  have sessions: "d |\<in>| px_by_connection ?r \<and> map_option pe_session (fmlookup (px_heap ?r) d) = Some t"
    if "fmlookup (px_by_session ?r) t = Some d" for t d
    using that peers_okD(3) [OF ok, of t d] own unfolding r by (auto split: if_splits)
  have addresses: "d |\<in>| px_by_connection ?r \<and> Option.bind (fmlookup (px_heap ?r) d) pe_address = Some a"
    if "fmlookup (px_by_address ?r) a = Some d" for a d
    using that peers_okD(4) [OF ok, of a d] addr [of a] unfolding r by (auto split: option.splits if_splits)
  have found: "\<exists>q. fmlookup (px_heap ?r) d = Some q \<and> fmlookup (px_by_session ?r) (pe_session q) = Some d"
    if "d |\<in>| px_by_connection ?r" for d
    using that others [of d] unfolding r by auto
  have "fmlookup (px_heap ?r) d = Some q \<Longrightarrow> pe_connection q = d" for d q unfolding r by (rule peers_okD(1) [OF ok])
  then show ?thesis using found sessions addresses hosts by (rule peers_okI)
qed (use ok in \<open>auto simp: remove_peer_def split: option.split\<close>)

lemma peers_ok_bind:
  assumes ok: "peers_ok px" and live: "c |\<in>| px_by_connection px"
  shows "peers_ok (bind_address a c px)"
proof -
  obtain p where p: "fmlookup (px_heap px) c = Some p" using peers_okD(2) [OF ok live] by auto
  let ?r = "bind_address a c px"
  have r: "fmlookup (px_heap ?r) d = (if d = c then Some (p\<lparr>pe_address := Some a\<rparr>) else fmlookup (px_heap px) d)"
    "px_by_connection ?r = px_by_connection px" "px_by_session ?r = px_by_session px" "px_by_host ?r = px_by_host px" for d
    using p by (auto simp: bind_address_def edit_peer_def Let_def split: option.split)
  have adr: "fmlookup (px_by_address ?r) b = (if b = a then Some c else if pe_address p = Some b then None else fmlookup (px_by_address px) b)" for b
    using p by (auto simp: bind_address_def edit_peer_def Let_def split: option.split)
  have addr: "fmlookup (px_by_address px) b = Some c \<Longrightarrow> pe_address p = Some b" for b using peers_okD(4) [OF ok] p by fastforce
  have addresses: "d |\<in>| px_by_connection ?r \<and> Option.bind (fmlookup (px_heap ?r) d) pe_address = Some b"
    if "fmlookup (px_by_address ?r) b = Some d" for b d
    using that peers_okD(4) [OF ok, of b d] addr [of b] live unfolding adr r by (auto split: if_splits)
  have cands: "candidates ?r h = candidates px h" for h by (simp add: candidates_def r)
  have found: "\<exists>q. fmlookup (px_heap ?r) d = Some q \<and> fmlookup (px_by_session ?r) (pe_session q) = Some d"
    if "d |\<in>| px_by_connection ?r" for d
    using peers_okD(2) [OF ok, of d] that p unfolding r by (cases "d = c") auto
  have sessions: "d |\<in>| px_by_connection ?r \<and> map_option pe_session (fmlookup (px_heap ?r) d) = Some t"
    if "fmlookup (px_by_session ?r) t = Some d" for t d
    using peers_okD(3) [OF ok, of t d] that p unfolding r by (cases "d = c") auto
  have hosts: "d \<in> set (candidates ?r h) \<longleftrightarrow> d |\<in>| px_by_connection ?r \<and> map_option pe_host (fmlookup (px_heap ?r) d) = Some h" for d h
    unfolding cands peers_okD(5) [OF ok] r using p by (cases "d = c") auto
  have "fmlookup (px_heap ?r) d = Some q \<Longrightarrow> pe_connection q = d" for d q
    unfolding r using peers_okD(1) [OF ok, of d] p by (cases "d = c") auto
  then show ?thesis using found sessions addresses hosts by (rule peers_okI)
qed

end
