(* ===== verification/Voice.thy ===== *)
theory Voice
  imports Peer Framing
begin

text \<open>
  The voice plane, \<open>runtime/crates/gateway/src/voice.rs\<close>: what one datagram, or one tunnelled packet, makes the
  gateway send. The protobuf codec of the two voice messages is a parameter, the sockets are the list of
  datagrams the caller sends. Metrics and operator logging are left out.
\<close>

subsection \<open>Messages\<close>

datatype audio_header = Target u32 | Context u32

record audio_packet =
  au_header :: "audio_header option"
  au_sender_session :: u32
  au_frame_number :: u64
  au_opus_data :: "u8 list"
  au_positional_data :: "u32 list"
  au_volume_adjustment :: u32
  au_is_terminator :: bool

record ping_packet =
  pg_timestamp :: u64
  pg_request_extended_information :: bool
  pg_server_version_v2 :: u64
  pg_user_count :: u32
  pg_max_user_count :: u32
  pg_max_bandwidth_per_user :: u32

record 'e voice_codec =
  vc_encode_audio :: "audio_packet \<Rightarrow> u8 list"
  vc_encode_ping :: "ping_packet \<Rightarrow> u8 list"
  vc_decode_audio :: "u8 list \<Rightarrow> ('e, audio_packet) result"
  vc_decode_ping :: "u8 list \<Rightarrow> ('e, ping_packet) result"

abbreviation encode_voice :: "'e voice_codec \<Rightarrow> (audio_packet, ping_packet) udp_message \<Rightarrow> u8 list" where
  "encode_voice cod \<equiv> encode_udp (vc_encode_audio cod) (vc_encode_ping cod)"

abbreviation decode_voice :: "'e voice_codec \<Rightarrow> u8 list \<Rightarrow> ('e udp_decode_error, (audio_packet, ping_packet) udp_message) result" where
  "decode_voice cod \<equiv> decode_udp (vc_decode_audio cod) (vc_decode_ping cod)"

record gateway_config =
  gc_welcome_text :: string
  gc_max_bandwidth :: u32
  gc_max_users :: u32
  gc_recording_allowed :: bool
  gc_allow_html :: bool
  gc_message_length :: u32
  gc_version :: "u16 \<times> u16 \<times> u16"

definition config_default :: gateway_config where
  "config_default = \<lparr>gc_welcome_text = [], gc_max_bandwidth = 72000, gc_max_users = 100, gc_recording_allowed = True,
     gc_allow_html = True, gc_message_length = 5000, gc_version = (1, 5, 0)\<rparr>"

definition version_v2 :: "gateway_config \<Rightarrow> u64" where
  "version_v2 cf = (case gc_version cf of (major, minor, patch) \<Rightarrow>
     push_bit 48 (ucast major) OR push_bit 32 (ucast minor) OR push_bit 16 (ucast patch))"

definition LOOPBACK_TARGET :: u32 where "LOOPBACK_TARGET = 31"
definition NORMAL_TARGET :: u32 where "NORMAL_TARGET = 0"
definition NORMAL_CONTEXT :: u32 where "NORMAL_CONTEXT = 0"

type_synonym datagram = "u8 list \<times> socket_address"

text \<open>What the plane reads besides the registry: the codec, the configuration, and the routing table of every shard.\<close>

record 'e voice_plane =
  vp_codec :: "'e voice_codec"
  vp_config :: gateway_config
  vp_tables :: "shard_id \<Rightarrow> audio_routing"

definition no_routes :: audio_routing where
  "no_routes = \<lparr>ro_receivers = fmempty, ro_since = fmempty, ro_silence = silence_default\<rparr>"

definition routing_of :: "'e voice_plane \<Rightarrow> 'm peer \<Rightarrow> audio_routing" where
  "routing_of vp p = peer_routing (vp_tables vp) no_routes p"

subsection \<open>Routing one packet\<close>

definition outgoing :: "audio_packet \<Rightarrow> session_id \<Rightarrow> audio_packet" where
  "outgoing source sender = \<lparr>au_header = Some (Context NORMAL_CONTEXT), au_sender_session = sender,
     au_frame_number = au_frame_number source, au_opus_data = au_opus_data source, au_positional_data = [],
     au_volume_adjustment = 0, au_is_terminator = au_is_terminator source\<rparr>"

definition put_peer :: "'m peer \<Rightarrow> 'm peers \<Rightarrow> 'm peers" where
  "put_peer p = edit_peer (pe_connection p) (\<lambda>_. p)"

definition voice_deliver ::
    "'e voice_plane \<Rightarrow> 'm peer \<Rightarrow> audio_packet \<Rightarrow> session_id \<Rightarrow> datagram list \<times> 'm peers \<Rightarrow> datagram list \<times> 'm peers" where
  "voice_deliver vp receiver audio sender st = (case st of (out, px) \<Rightarrow>
     let plain = encode_voice (vp_codec vp) (UdpAudio (outgoing audio sender)) in
     (case destination receiver of
        Some address \<Rightarrow>
          (case peer_encrypt plain receiver of
             (Some bytes, p) \<Rightarrow> (out @ [(bytes, address)], put_peer p px)
           | (None, p) \<Rightarrow> (out, put_peer p px))
      | None \<Rightarrow>
          (case push_voice (UdpTunnel plain) (pe_queue receiver) of
             (_, queue) \<Rightarrow> (out, put_peer (receiver\<lparr>pe_queue := queue\<rparr>) px))))"

definition speak_to ::
    "'e voice_plane \<Rightarrow> audio_packet \<Rightarrow> session_id \<Rightarrow> u64 \<Rightarrow> session_id \<Rightarrow> datagram list \<times> 'm peers \<Rightarrow> datagram list \<times> 'm peers" where
  "speak_to vp audio session since receiver st =
     (case by_session (snd st) receiver of
        None \<Rightarrow> st
      | Some p \<Rightarrow> if pe_cursor p < since then st else voice_deliver vp p audio session st)"

definition speak :: "'e voice_plane \<Rightarrow> 'm peer \<Rightarrow> audio_packet \<Rightarrow> 'm peers \<Rightarrow> datagram list \<times> 'm peers" where
  "speak vp sender audio px =
     (let routing = routing_of vp sender;
          session = pe_session sender;
          since = (case routing_since routing session of Some v \<Rightarrow> v | None \<Rightarrow> 0)
      in fold (speak_to vp audio session since) (receivers routing session) ([], px))"

definition reflect :: "'e voice_plane \<Rightarrow> 'm peer \<Rightarrow> audio_packet \<Rightarrow> 'm peers \<Rightarrow> datagram list \<times> 'm peers" where
  "reflect vp sender audio px =
     (let session = pe_session sender in
      if \<not> routing_may_speak (routing_of vp sender) session then ([], px)
      else voice_deliver vp sender audio session ([], px))"

definition route_voice :: "'e voice_plane \<Rightarrow> 'm peer \<Rightarrow> audio_packet \<Rightarrow> nat \<Rightarrow> nat \<Rightarrow> 'm peers \<Rightarrow> datagram list \<times> 'm peers" where
  "route_voice vp sender audio now amount px =
     (case allow_voice now amount sender of (allowed, sender) \<Rightarrow>
        let px = put_peer sender px in
        if \<not> allowed then ([], px)
        else case au_header audio of
               Some (Target target) \<Rightarrow>
                 if target = LOOPBACK_TARGET then reflect vp sender audio px
                 else if target = NORMAL_TARGET then speak vp sender audio px
                 else ([], px)
             | _ \<Rightarrow> ([], px))"

definition plane_ping_reply :: "'e voice_plane \<Rightarrow> ping_packet \<Rightarrow> 'm peers \<Rightarrow> u8 list" where
  "plane_ping_reply vp request px = encode_voice (vp_codec vp) (UdpPing \<lparr>pg_timestamp = pg_timestamp request,
     pg_request_extended_information = False, pg_server_version_v2 = version_v2 (vp_config vp),
     pg_user_count = (if peers_len px < 2 ^ 32 then of_nat (peers_len px) else - 1),
     pg_max_user_count = gc_max_users (vp_config vp), pg_max_bandwidth_per_user = gc_max_bandwidth (vp_config vp)\<rparr>)"

subsection \<open>Datagrams\<close>

definition dispatch :: "'e voice_plane \<Rightarrow> 'm peer \<Rightarrow> u8 list \<Rightarrow> socket_address \<Rightarrow> nat \<Rightarrow> 'm peers \<Rightarrow> datagram list \<times> 'm peers" where
  "dispatch vp p plain source now px =
     (if \<not> is_acceptable_size (length plain) then ([], px)
      else case decode_voice (vp_codec vp) plain of
             Inr (UdpPing ping) \<Rightarrow>
               (case peer_encrypt (plane_ping_reply vp ping px) p of
                  (Some bytes, p) \<Rightarrow> ([(bytes, source)], put_peer p px)
                | (None, p) \<Rightarrow> ([], put_peer p px))
           | Inr (UdpAudio audio) \<Rightarrow>
               let p = set_udp_mode True p in route_voice vp p audio now (length plain) (put_peer p px)
           | Inl _ \<Rightarrow> ([], px))"

text \<open>The cold path: the first candidate whose key opens the datagram proves the address.\<close>

fun try_candidates :: "u8 list \<Rightarrow> connection_id list \<Rightarrow> 'm peers \<Rightarrow> (connection_id \<times> u8 list \<times> 'm peers) option" where
  "try_candidates datagram [] px = None"
| "try_candidates datagram (c # cs) px =
     (case fmlookup (px_heap px) c of
        None \<Rightarrow> try_candidates datagram cs px
      | Some p \<Rightarrow>
          (case peer_decrypt datagram p of
             (Some plain, p) \<Rightarrow> Some (c, plain, put_peer p px)
           | (None, p) \<Rightarrow> try_candidates datagram cs (put_peer p px)))"

definition handle_datagram :: "'e voice_plane \<Rightarrow> u8 list \<Rightarrow> socket_address \<Rightarrow> nat \<Rightarrow> 'm peers \<Rightarrow> datagram list \<times> 'm peers" where
  "handle_datagram vp datagram source now px =
     (case by_address px source of
        Some p \<Rightarrow>
          (case peer_decrypt datagram p of
             (Some plain, p) \<Rightarrow> dispatch vp p plain source now (put_peer p px)
           | (None, p) \<Rightarrow> ([], put_peer p px))
      | None \<Rightarrow>
          (case try_candidates datagram (candidates px (fst source)) px of
             Some (c, plain, px) \<Rightarrow>
               let px = bind_address source c px in
               (case fmlookup (px_heap px) c of
                  Some p \<Rightarrow> dispatch vp p plain source now px
                | None \<Rightarrow> ([], px))
           | None \<Rightarrow>
               (case decode_voice (vp_codec vp) datagram of
                  Inr (UdpPing ping) \<Rightarrow> ([(plane_ping_reply vp ping px, source)], px)
                | _ \<Rightarrow> ([], px))))"

text \<open>A packet through the TCP tunnel, \<open>tunnelled\<close> of \<open>connection.rs\<close>.\<close>

definition tunnelled :: "'e voice_plane \<Rightarrow> 'm peer \<Rightarrow> u8 list \<Rightarrow> nat \<Rightarrow> 'm peers \<Rightarrow> datagram list \<times> 'm peers" where
  "tunnelled vp p raw now px =
     (let p = set_udp_mode False p; px = put_peer p px in
      if \<not> is_acceptable_size (length raw) then ([], px)
      else case decode_voice (vp_codec vp) raw of
             Inr (UdpAudio audio) \<Rightarrow> route_voice vp p audio now (length raw) px
           | _ \<Rightarrow> ([], px))"

end
