(* ===== verification/Connection.thy ===== *)
theory Connection
  imports Voice Shard
begin

text \<open>
  One connection's side of the gateway: the handshake messages of \<open>handshake.rs\<close> and what the service loop of
  \<open>connection.rs\<close> does with each control message of the client. A message is answered, forwarded to the
  connection's shard, or refused; replies and forwarded commands are returned as lists, in the order they are
  made. Protobuf messages carry the fields this code reads or sets; a string is its UTF-8 bytes. Operator
  logging is left out.
\<close>

subsection \<open>Messages\<close>

record tcp_ping =
  tp_timestamp :: "u64 option"
  tp_good :: "u32 option"
  tp_late :: "u32 option"
  tp_lost :: "u32 option"
  tp_resync :: "u32 option"
  tp_udp_packets :: "u32 option"
  tp_tcp_packets :: "u32 option"
  tp_udp_ping_avg :: "u32 option"
  tp_udp_ping_var :: "u32 option"
  tp_tcp_ping_avg :: "u32 option"
  tp_tcp_ping_var :: "u32 option"

record user_request =
  ur_target :: "u32 option"
  ur_channel :: "u32 option"
  ur_self_mute :: "bool option"
  ur_self_deaf :: "bool option"

record client_text =
  ct_session :: "u32 list"
  ct_channel :: "u32 list"
  ct_tree :: "u32 list"
  ct_message :: string

text \<open>Everything a client may send, by kind; the kinds no branch looks into carry nothing.\<close>

datatype client_message =
    ClVersion
  | ClUdpTunnel "u8 list"
  | ClAuthenticate "string option" "string option"
  | ClPing tcp_ping
  | ClUserState user_request
  | ClPermissionQuery "u32 option"
  | ClUserStats "u32 option"
  | ClTextMessage client_text
  | ClContextAction string "u32 option" "u32 option"
  | ClCryptSetup
  | ClVoiceTarget
  | ClCodecVersion
  | ClRequestBlob
  | ClChannelState
  | ClChannelRemove
  | ClUserRemove
  | ClAcl
  | ClUnsupported

record packet_stats =
  st_good :: u32
  st_late :: u32
  st_lost :: u32
  st_resync :: u32

record own_statistics =
  os_session :: session_id
  os_from_client :: packet_stats
  os_from_server :: packet_stats
  os_udp_packets :: u32
  os_tcp_packets :: u32
  os_udp_ping_avg :: u32
  os_udp_ping_var :: u32
  os_tcp_ping_avg :: u32
  os_tcp_ping_var :: u32
  os_bandwidth :: nat
  os_onlinesecs :: nat
  os_idlesecs :: nat

datatype refusal = NotAvailable session_id | TextTooLong | NoFormattedText session_id

datatype gateway_reply = PingReply tcp_ping | OwnStats own_statistics | Denied refusal

subsection \<open>The handshake\<close>

record server_version =
  sv_version_v1 :: u32
  sv_version_v2 :: u64
  sv_release :: string
  sv_os :: string

datatype handshake_message =
    HsVersion server_version
  | HsCryptSetup "u8 list" "u8 list" "u8 list"
  | HsCodecVersion i32 i32 bool bool
  | HsServerSync session_id u32 "string option" u64
  | HsServerConfig u32 bool u32 u32 bool
  | HsReject string

definition server_version_message :: "gateway_config \<Rightarrow> handshake_message" where
  "server_version_message cf = (case gc_version cf of (major, minor, patch) \<Rightarrow>
     HsVersion \<lparr>sv_version_v1 = push_bit 16 (ucast major) OR push_bit 8 (ucast minor) OR ucast (min patch 0xFF),
       sv_version_v2 = version_v2 cf,
       sv_release = ''Mumble Server Runtime '' @ decimal (unat major) @ ''.'' @ decimal (unat minor) @ ''.'' @ decimal (unat patch),
       sv_os = ''Mumble Server Runtime''\<rparr>)"

definition handshake_prelude :: "u8 list \<Rightarrow> u8 list \<Rightarrow> u8 list \<Rightarrow> handshake_message list" where
  "handshake_prelude key client_nonce server_nonce = [HsCryptSetup key client_nonce server_nonce, HsCodecVersion 0 0 False True]"

definition handshake_completion :: "gateway_config \<Rightarrow> session_id \<Rightarrow> handshake_message list" where
  "handshake_completion cf session =
     [HsServerSync session (gc_max_bandwidth cf) (if gc_welcome_text cf = [] then None else Some (gc_welcome_text cf)) (ucast PERM_DEFAULT),
      HsServerConfig (gc_max_bandwidth cf) (gc_allow_html cf) (gc_message_length cf) (gc_max_users cf) (gc_recording_allowed cf)]"

definition handshake_reject :: "string \<Rightarrow> handshake_message" where
  "handshake_reject reason = HsReject reason"

subsection \<open>Text\<close>

text \<open>\<open>chars().count()\<close>: a byte of the form \<open>10xxxxxx\<close> continues a character.\<close>

definition char_count :: "string \<Rightarrow> nat" where
  "char_count s = length (filter (\<lambda>c. \<not> (128 \<le> (of_char c :: nat) \<and> (of_char c :: nat) < 192)) s)"

text \<open>\<open>trim().is_empty()\<close>: nothing but white space, as Unicode has it.\<close>

fun blank_bytes :: "nat list \<Rightarrow> bool" where
  "blank_bytes [] = True"
| "blank_bytes (a # bs) =
     (if 9 \<le> a \<and> a \<le> 13 \<or> a = 32 then blank_bytes bs
      else case bs of
             b # cs \<Rightarrow>
               if a = 0xC2 \<and> (b = 0x85 \<or> b = 0xA0) then blank_bytes cs
               else (case cs of
                       c # ds \<Rightarrow>
                         (a = 0xE1 \<and> b = 0x9A \<and> c = 0x80
                          \<or> a = 0xE2 \<and> b = 0x80 \<and> (0x80 \<le> c \<and> c \<le> 0x8A \<or> c = 0xA8 \<or> c = 0xA9 \<or> c = 0xAF)
                          \<or> a = 0xE2 \<and> b = 0x81 \<and> c = 0x9F
                          \<or> a = 0xE3 \<and> b = 0x80 \<and> c = 0x80) \<and> blank_bytes ds
                     | [] \<Rightarrow> False)
           | [] \<Rightarrow> False)"

definition is_blank :: "string \<Rightarrow> bool" where
  "is_blank s = blank_bytes (map of_char s)"

definition single_target :: "client_text \<Rightarrow> text_target option" where
  "single_target t =
     (case (ct_session t, ct_channel t, ct_tree t) of
        ([session], [], []) \<Rightarrow> Some (TTSession session)
      | ([], [channel], []) \<Rightarrow> Some (TTChannel channel)
      | ([], [], [tree]) \<Rightarrow> Some (TTTree tree)
      | _ \<Rightarrow> None)"

subsection \<open>The service loop\<close>

text \<open>What one message leads to: replies, commands for the connection's shard, and the connection afterwards.\<close>

type_synonym 'm handled = "gateway_reply list \<times> (shard_id \<times> shard_command) list \<times> 'm peer"

definition permission_denied_reply :: "'m peer \<Rightarrow> gateway_reply" where
  "permission_denied_reply p = Denied (NotAvailable (pe_session p))"

definition forward :: "shard_command \<Rightarrow> 'm peer \<Rightarrow> 'm handled" where
  "forward cmd p = ([], [(peer_shard p, cmd)], p)"

definition deny :: "'m peer \<Rightarrow> 'm handled" where
  "deny p = ([permission_denied_reply p], [], p)"

definition self_state :: "user_request \<Rightarrow> bool option \<times> bool option" where
  "self_state r =
     (let mute = ur_self_mute r; deaf = ur_self_deaf r;
          mute = (if deaf = Some True then Some True else mute);
          deaf = (if mute = Some False then Some False else deaf)
      in (mute, deaf))"

definition inbound_user_state :: "user_request \<Rightarrow> 'm peer \<Rightarrow> 'm handled" where
  "inbound_user_state r p =
     (if (case ur_target r of None \<Rightarrow> False | Some session \<Rightarrow> session \<noteq> pe_session p) then deny p
      else let moves = (case ur_channel r of Some channel \<Rightarrow> [(peer_shard p, Requested (pe_connection p) channel)] | None \<Rightarrow> []);
               (mute, deaf) = self_state r;
               flags = (if mute \<noteq> None \<or> deaf \<noteq> None then [(peer_shard p, AskedSelfState (pe_connection p) mute deaf)] else [])
           in if moves @ flags \<noteq> [] then ([], moves @ flags, p) else deny p)"

definition inbound_text :: "gateway_config \<Rightarrow> nat \<Rightarrow> client_text \<Rightarrow> 'm peer \<Rightarrow> 'm handled" where
  "inbound_text cf now t p =
     (case allow_text now p of (allowed, p) \<Rightarrow>
        if \<not> allowed then ([], [], p)
        else if is_blank (ct_message t) then ([], [], p)
        else let len = (if char_count (ct_message t) < 2 ^ 32 then of_nat (char_count (ct_message t)) else - 1 :: u32) in
          if 0 < gc_message_length cf \<and> gc_message_length cf < len then ([Denied TextTooLong], [], p)
          else if \<not> gc_allow_html cf \<and> CHR ''<'' \<in> set (ct_message t) then ([Denied (NoFormattedText (pe_session p))], [], p)
          else case single_target t of
                 None \<Rightarrow> deny p
               | Some target \<Rightarrow> forward (Wrote (pe_connection p) target (ct_message t)) p)"

definition whole_seconds :: "nat \<Rightarrow> nat" where
  "whole_seconds ns = min (ns div 10 ^ 9) U32_MAX"

definition own_stats :: "nat \<Rightarrow> 'm peer \<Rightarrow> own_statistics \<times> 'm peer" where
  "own_stats now p =
     (let (good, late, lost) = crypt_counters p;
          r = pe_reported p;
          ((bytes, still), p) = traffic now p
      in (\<lparr>os_session = pe_session p,
           os_from_client = \<lparr>st_good = good, st_late = late, st_lost = lost, st_resync = 0\<rparr>,
           os_from_server = \<lparr>st_good = re_good r, st_late = re_late r, st_lost = re_lost r, st_resync = re_resync r\<rparr>,
           os_udp_packets = re_udp_packets r, os_tcp_packets = re_tcp_packets r,
           os_udp_ping_avg = re_udp_ping_avg r, os_udp_ping_var = re_udp_ping_var r,
           os_tcp_ping_avg = re_tcp_ping_avg r, os_tcp_ping_var = re_tcp_ping_var r,
           os_bandwidth = bytes, os_onlinesecs = whole_seconds (now - pe_online_since p), os_idlesecs = whole_seconds still\<rparr>, p))"

definition inbound_user_stats :: "nat \<Rightarrow> u32 option \<Rightarrow> 'm peer \<Rightarrow> 'm handled" where
  "inbound_user_stats now asked p =
     (let target = (case asked of Some s \<Rightarrow> s | None \<Rightarrow> pe_session p) in
      if target = pe_session p then (case own_stats now p of (stats, p) \<Rightarrow> ([OwnStats stats], [], p))
      else forward (QueriedUserStats (pe_connection p) target) p)"

fun unidles :: "client_message \<Rightarrow> bool" where
  "unidles (ClPing _) = False"
| "unidles ClCryptSetup = False"
| "unidles ClVoiceTarget = False"
| "unidles (ClPermissionQuery _) = False"
| "unidles ClCodecVersion = False"
| "unidles (ClUserStats _) = False"
| "unidles ClRequestBlob = False"
| "unidles _ = True"

definition or_zero :: "u32 option \<Rightarrow> u32" where
  "or_zero x = (case x of Some v \<Rightarrow> v | None \<Rightarrow> 0)"

definition reported :: "tcp_ping \<Rightarrow> client_report" where
  "reported g = \<lparr>re_good = or_zero (tp_good g), re_late = or_zero (tp_late g), re_lost = or_zero (tp_lost g),
     re_resync = or_zero (tp_resync g), re_udp_packets = or_zero (tp_udp_packets g), re_tcp_packets = or_zero (tp_tcp_packets g),
     re_udp_ping_avg = or_zero (tp_udp_ping_avg g), re_udp_ping_var = or_zero (tp_udp_ping_var g),
     re_tcp_ping_avg = or_zero (tp_tcp_ping_avg g), re_tcp_ping_var = or_zero (tp_tcp_ping_var g)\<rparr>"

definition ping_answer :: "tcp_ping \<Rightarrow> 'm peer \<Rightarrow> tcp_ping" where
  "ping_answer g p = (case crypt_counters p of (good, late, lost) \<Rightarrow>
     \<lparr>tp_timestamp = tp_timestamp g, tp_good = Some good, tp_late = Some late, tp_lost = Some lost, tp_resync = Some 0,
      tp_udp_packets = None, tp_tcp_packets = None, tp_udp_ping_avg = None, tp_udp_ping_var = None,
      tp_tcp_ping_avg = None, tp_tcp_ping_var = None\<rparr>)"

definition inbound :: "gateway_config \<Rightarrow> nat \<Rightarrow> client_message \<Rightarrow> 'm peer \<Rightarrow> 'm handled" where
  "inbound cf now message p =
     (let p = (if unidles message then record_activity now p else p) in
      case message of
        ClPing g \<Rightarrow> let p = record_report (reported g) p in ([PingReply (ping_answer g p)], [], p)
      | ClUserState r \<Rightarrow> inbound_user_state r p
      | ClPermissionQuery (Some channel) \<Rightarrow> forward (QueriedPermissions (pe_connection p) channel) p
      | ClPermissionQuery None \<Rightarrow> deny p
      | ClUserStats asked \<Rightarrow> inbound_user_stats now asked p
      | ClTextMessage t \<Rightarrow> inbound_text cf now t p
      | ClContextAction act session channel \<Rightarrow> forward (Invoked (pe_connection p) act session channel) p
      | _ \<Rightarrow> deny p)"

end
