(* ===== verification/Runtime.thy ===== *)
theory Runtime
  imports Connection
begin

text \<open>
  The runtime around the shards, \<open>runtime/crates/gateway/src/runtime.rs\<close>: the directory of shards, the supervisor's
  mailbox, and the one operation that touches two shards, migration. A shard is known here by its mailbox; a handle
  outlives its directory entry, and sending through it fails once the task is gone. The queue and the cursor cell of
  a connection travel to a shard by reference, so a message that attaches a connection names it. \<open>migrate\<close> waits
  once, for the view the source hands over: it is a first part and, with the answer, a second. The second half
  models \<open>serve\<close> of \<open>connection.rs\<close>, which takes one connection from its authentication to its removal.
\<close>

subsection \<open>State\<close>

datatype mail =
    MailAttach connection_id shard_view bool
  | MailDetach connection_id string "shard_id option"
  | MailCommand shard_command

datatype runtime_command = MoveConnection connection_id shard_id | DestroyShard shard_id string

datatype attach_error = NoSuchShard shard_id | Unreachable shard_id

record shard_entry =
  en_box :: "mail list"
  en_gone :: bool

record 'm runtime =
  rt_ids :: id_allocator
  rt_peers :: "'m peers"
  rt_tasks :: "(shard_id, shard_entry) fmap"
  rt_shards :: "shard_id fset"
  rt_next_shard :: u64
  rt_next_connection :: u64
  rt_commands :: "runtime_command list"

definition RUNTIME_MAILBOX_DEPTH :: nat where "RUNTIME_MAILBOX_DEPTH = 256"

definition runtime_start :: "'m runtime" where
  "runtime_start = \<lparr>rt_ids = allocator_new, rt_peers = peers_new, rt_tasks = fmempty, rt_shards = {||},
     rt_next_shard = 1, rt_next_connection = 1, rt_commands = []\<rparr>"

definition take_connection :: "'m runtime \<Rightarrow> connection_id \<times> 'm runtime" where
  "take_connection rt = (rt_next_connection rt, rt\<lparr>rt_next_connection := rt_next_connection rt + 1\<rparr>)"

definition session_for :: "connection_id \<Rightarrow> 'm runtime \<Rightarrow> (exhausted, session_id) result \<times> 'm runtime" where
  "session_for c rt = (case alloc_session (Connection c) (rt_ids rt) of (r, ids) \<Rightarrow> (r, rt\<lparr>rt_ids := ids\<rparr>))"

definition create_shard :: "'m runtime \<Rightarrow> shard_id \<times> 'm runtime" where
  "create_shard rt =
     (let i = rt_next_shard rt in
      (i, rt\<lparr>rt_next_shard := i + 1, rt_tasks := fmupd i \<lparr>en_box = [], en_gone = False\<rparr> (rt_tasks rt),
             rt_shards := finsert i (rt_shards rt)\<rparr>))"

definition ask_runtime :: "runtime_command \<Rightarrow> 'm runtime \<Rightarrow> 'm runtime" where
  "ask_runtime cmd rt = (if length (rt_commands rt) < RUNTIME_MAILBOX_DEPTH then rt\<lparr>rt_commands := rt_commands rt @ [cmd]\<rparr> else rt)"

definition move_connection :: "connection_id \<Rightarrow> shard_id \<Rightarrow> 'm runtime \<Rightarrow> 'm runtime" where
  "move_connection c target rt = ask_runtime (MoveConnection c target) rt"

definition destroy_shard :: "shard_id \<Rightarrow> string \<Rightarrow> 'm runtime \<Rightarrow> 'm runtime" where
  "destroy_shard s reason rt = ask_runtime (DestroyShard s reason) rt"

text \<open>\<open>ShardHandle::send\<close>: refused when the mailbox is full or its task is gone.\<close>

definition handle_send :: "shard_id \<Rightarrow> mail \<Rightarrow> 'm runtime \<Rightarrow> bool \<times> 'm runtime" where
  "handle_send s m rt =
     (case fmlookup (rt_tasks rt) s of
        None \<Rightarrow> (False, rt)
      | Some e \<Rightarrow>
          if en_gone e \<or> MAILBOX_DEPTH \<le> length (en_box e) then (False, rt)
          else (True, rt\<lparr>rt_tasks := fmupd s (e\<lparr>en_box := en_box e @ [m]\<rparr>) (rt_tasks rt)\<rparr>))"

definition on_peer :: "connection_id \<Rightarrow> ('m peer \<Rightarrow> 'm peer) \<Rightarrow> 'm runtime \<Rightarrow> 'm runtime" where
  "on_peer c f rt = rt\<lparr>rt_peers := edit_peer c f (rt_peers rt)\<rparr>"

definition plane_of :: "shard_id \<Rightarrow> shard_plane" where
  "plane_of s = \<lparr>pl_shard = s, pl_table = Some s\<rparr>"

definition runtime_attach :: "connection_id \<Rightarrow> shard_id \<Rightarrow> 'm runtime \<Rightarrow> (attach_error, unit) result \<times> 'm runtime" where
  "runtime_attach c s rt =
     (if s |\<notin>| rt_shards rt then (Inl (NoSuchShard s), rt)
      else let rt = on_peer c (move_to (plane_of s)) rt in
        (case handle_send s (MailAttach c empty_view True) rt of
           (True, rt) \<Rightarrow> (Inr (), rt)
         | (False, rt) \<Rightarrow> (Inl (Unreachable s), rt)))"

definition runtime_detach :: "connection_id \<Rightarrow> shard_id \<Rightarrow> string \<Rightarrow> 'm runtime \<Rightarrow> 'm runtime" where
  "runtime_detach c s reason rt = (if s |\<notin>| rt_shards rt then rt else snd (handle_send s (MailDetach c reason None) rt))"

definition runtime_send :: "shard_id \<Rightarrow> shard_command \<Rightarrow> 'm runtime \<Rightarrow> (attach_error, unit) result \<times> 'm runtime" where
  "runtime_send s cmd rt =
     (if s |\<notin>| rt_shards rt then (Inl (NoSuchShard s), rt)
      else case handle_send s (MailCommand cmd) rt of (True, rt) \<Rightarrow> (Inr (), rt) | (False, rt) \<Rightarrow> (Inl (Unreachable s), rt))"

record shard_status =
  ss_shard :: shard_id
  ss_connections :: nat
  ss_worst_lag :: u64

definition worst_lag :: "u64 list \<Rightarrow> u64" where
  "worst_lag cursors = (if cursors = [] then 0 else saturating_sub (Max (set cursors)) (Min (set cursors)))"

definition status :: "'m runtime \<Rightarrow> shard_status list" where
  "status rt = map (\<lambda>s. let cs = on_shard (rt_peers rt) s in
     \<lparr>ss_shard = s, ss_connections = length cs,
      ss_worst_lag = worst_lag (filter_map (\<lambda>c. map_option pe_cursor (fmlookup (px_heap (rt_peers rt)) c)) cs)\<rparr>)
     (sorted_list_of_fset (rt_shards rt))"

subsection \<open>The supervisor\<close>

datatype migration = MigrationOver | AwaitingView

definition migrate_begin :: "connection_id \<Rightarrow> shard_id \<Rightarrow> 'm runtime \<Rightarrow> migration \<times> 'm runtime" where
  "migrate_begin c target rt =
     (case by_connection (rt_peers rt) c of
        None \<Rightarrow> (MigrationOver, rt)
      | Some p \<Rightarrow>
          if peer_shard p = target then (MigrationOver, rt)
          else if target |\<notin>| rt_shards rt then (MigrationOver, rt)
          else if peer_shard p |\<notin>| rt_shards rt then (MigrationOver, on_peer c peer_close rt)
          else case handle_send (peer_shard p) (MailDetach c (''moving to ShardId('' @ decimal (unat target) @ '')'') (Some target)) rt of
                 (True, rt) \<Rightarrow> (AwaitingView, rt)
               | (False, rt) \<Rightarrow> (MigrationOver, on_peer c peer_close rt))"

definition migrate_finish :: "connection_id \<Rightarrow> shard_id \<Rightarrow> shard_view option \<Rightarrow> 'm runtime \<Rightarrow> 'm runtime" where
  "migrate_finish c target handed rt =
     (case handed of
        None \<Rightarrow> on_peer c peer_close rt
      | Some held \<Rightarrow>
          (case handle_send target (MailAttach c held False) (on_peer c (move_to (plane_of target)) rt) of
             (True, rt) \<Rightarrow> rt
           | (False, rt) \<Rightarrow> on_peer c peer_close rt))"

definition destroy :: "shard_id \<Rightarrow> 'm runtime \<Rightarrow> 'm runtime" where
  "destroy s rt =
     (let rt = fold (\<lambda>c. on_peer c peer_close) (on_shard (rt_peers rt) s) rt
      in if s |\<in>| rt_shards rt
         then rt\<lparr>rt_shards := rt_shards rt |-| {|s|}, rt_tasks := fm_adjust s (\<lambda>e. e\<lparr>en_gone := True\<rparr>) (rt_tasks rt)\<rparr>
         else rt)"

subsection \<open>Serving one connection\<close>

datatype route_decision = RouteAttach shard_id | RouteReject string

record connection_identity =
  ci_name :: string
  ci_certificate_hash :: "string option"
  ci_credential :: "string option"

text \<open>
  What the world answers while a connection is set up: whether each write succeeds, the messages the client sends
  before it authenticates, the router's verdict, the key material (absent when the random source fails), whether the
  first view came in time and what had been queued with it, and whether the service loop ended cleanly.
\<close>

record 'q arrival =
  av_writes :: "nat \<Rightarrow> bool"
  av_messages :: "client_message list"
  av_host :: ip_address
  av_certificate :: "string option"
  av_route :: "connection_id \<Rightarrow> connection_identity \<Rightarrow> route_decision"
  av_crypt :: "(u8 list \<times> u8 list \<times> u8 list) option"
  av_cipher :: "u8 list \<Rightarrow> cipher"
  av_first_view :: "'q list option"
  av_service :: bool
  av_now :: nat

fun wait_for_authenticate :: "client_message list \<Rightarrow> (string option \<times> string option) option" where
  "wait_for_authenticate [] = None"
| "wait_for_authenticate (ClAuthenticate name password # _) = Some (name, password)"
| "wait_for_authenticate (_ # ms) = wait_for_authenticate ms"

text \<open>The first \<open>n\<close> characters of a text.\<close>

fun take_chars :: "nat \<Rightarrow> string \<Rightarrow> string" where
  "take_chars n [] = []"
| "take_chars n (c # cs) =
     (if 128 \<le> (of_char c :: nat) \<and> (of_char c :: nat) < 192 then c # take_chars n cs
      else case n of 0 \<Rightarrow> [] | Suc k \<Rightarrow> c # take_chars k cs)"

datatype 'q written = WroteHandshake handshake_message | WroteQueued 'q

text \<open>Write a list of messages from write number \<open>k\<close> on, up to the first that fails.\<close>

fun write_messages :: "(nat \<Rightarrow> bool) \<Rightarrow> nat \<Rightarrow> 'w list \<Rightarrow> 'w list \<times> bool" where
  "write_messages ok k [] = ([], True)"
| "write_messages ok k (m # ms) = (if ok k then (case write_messages ok (Suc k) ms of (ws, fine) \<Rightarrow> (m # ws, fine)) else ([], False))"

definition handshake_tail ::
    "gateway_config \<Rightarrow> 'q arrival \<Rightarrow> (u8 list \<times> u8 list \<times> u8 list) \<Rightarrow> connection_id \<Rightarrow> session_id \<Rightarrow> shard_id \<Rightarrow> 'm runtime \<Rightarrow> 'q written list \<times> bool \<times> 'm runtime" where
  "handshake_tail cf av keys c session s rt =
     (case keys of (key, server_nonce, client_nonce) \<Rightarrow>
        let prelude = map WroteHandshake (handshake_prelude key client_nonce server_nonce) in
        (case write_messages (av_writes av) 1 prelude of
           (ws, False) \<Rightarrow> (ws, False, rt)
         | (ws, True) \<Rightarrow>
             (case runtime_attach c s rt of
                (Inl _, rt) \<Rightarrow> (ws, False, rt)
              | (Inr _, rt) \<Rightarrow>
                  (case av_first_view av of
                     None \<Rightarrow> (ws, False, rt)
                   | Some queued \<Rightarrow>
                       let rest = map WroteQueued queued @ map WroteHandshake (handshake_completion cf session) in
                       (case write_messages (av_writes av) (1 + length prelude) rest of
                          (vs, fine) \<Rightarrow> (ws @ vs, fine \<and> av_service av, rt))))))"

text \<open>From registration to removal: whatever fails in between, the connection is unregistered and its shard told.\<close>

definition serve_registered :: "gateway_config \<Rightarrow> 'q arrival \<Rightarrow> connection_id \<Rightarrow> session_id \<Rightarrow> shard_id \<Rightarrow> 'm runtime \<Rightarrow> 'q written list \<times> bool \<times> 'm runtime" where
  "serve_registered cf av c session s rt =
     (case av_crypt av of
        None \<Rightarrow> ([], False, rt)
      | Some (key, server_nonce, client_nonce) \<Rightarrow>
          let p = peer_new c session (av_host av) (crypt_new (av_cipher av key) server_nonce client_nonce) queue_new
                    \<lparr>pl_shard = s, pl_table = None\<rparr> (av_now av);
              rt = rt\<lparr>rt_peers := insert_peer p (rt_peers rt)\<rparr>;
              (ws, fine, rt) = handshake_tail cf av (key, server_nonce, client_nonce) c session s rt;
              rt = rt\<lparr>rt_peers := snd (remove_peer c (rt_peers rt))\<rparr>;
              final = (case fmlookup (px_heap (rt_peers rt)) c of Some p \<Rightarrow> peer_shard p | None \<Rightarrow> s)
          in (ws, fine, runtime_detach c final ''connection closed'' rt))"

definition serve_rejected :: "string \<Rightarrow> 'q arrival \<Rightarrow> 'm runtime \<Rightarrow> 'q written list \<times> bool \<times> 'm runtime" where
  "serve_rejected reason av rt =
     (if av_writes av 1 then ([WroteHandshake (handshake_reject reason)], True, rt) else ([], False, rt))"

definition serve_authenticated :: "gateway_config \<Rightarrow> 'q arrival \<Rightarrow> string option \<Rightarrow> string option \<Rightarrow> 'm runtime \<Rightarrow> 'q written list \<times> bool \<times> 'm runtime" where
  "serve_authenticated cf av name password rt =
     (let identity = \<lparr>ci_name = take_chars 64 (case name of Some n \<Rightarrow> n | None \<Rightarrow> ''Guest''),
            ci_certificate_hash = av_certificate av, ci_credential = password\<rparr>
      in if unat (gc_max_users cf) \<le> peers_len (rt_peers rt) then serve_rejected ''the server is full'' av rt
         else let (c, rt) = take_connection rt in
           (case session_for c rt of
              (Inl _, rt) \<Rightarrow> ([], False, rt)
            | (Inr session, rt) \<Rightarrow>
                (case av_route av c identity of
                   RouteReject reason \<Rightarrow> serve_rejected reason av rt
                 | RouteAttach s \<Rightarrow> serve_registered cf av c session s rt)))"

definition serve_connection :: "gateway_config \<Rightarrow> 'q arrival \<Rightarrow> 'm runtime \<Rightarrow> 'q written list \<times> bool \<times> 'm runtime" where
  "serve_connection cf av rt =
     (if \<not> av_writes av 0 then ([], False, rt)
      else let greeting = [WroteHandshake (server_version_message cf)] in
        (case wait_for_authenticate (av_messages av) of
           None \<Rightarrow> (greeting, True, rt)
         | Some (name, password) \<Rightarrow>
             let (ws, fine, rt) = serve_authenticated cf av name password rt in (greeting @ ws, fine, rt)))"

end
