(* ===== verification/Voice_Safe.thy ===== *)
theory Voice_Safe
  imports Voice
begin

text \<open>
  Who a voice packet reaches: exactly the connections the routing table lists, each with its own key and at the
  address it has proven, and nobody else's record is touched.
\<close>

subsection \<open>Records and indexes\<close>

lemma put_peer_simps [simp]:
  "px_by_connection (put_peer p px) = px_by_connection px" "px_by_session (put_peer p px) = px_by_session px"
  "px_by_address (put_peer p px) = px_by_address px" "px_by_host (put_peer p px) = px_by_host px"
  "candidates (put_peer p px) h = candidates px h" "peers_len (put_peer p px) = peers_len px"
  by (simp_all add: put_peer_def edit_peer_def candidates_def peers_len_def)

lemma put_peer_heap:
  "fmlookup (px_heap (put_peer p px)) c =
    (if c = pe_connection p \<and> fmlookup (px_heap px) c \<noteq> None then Some p else fmlookup (px_heap px) c)"
  by (auto simp: put_peer_def edit_peer_def)

text \<open>What a record is found by stays the same through every operation of the voice plane but \<open>bind_address\<close>.\<close>

definition same_identity :: "'m peer \<Rightarrow> 'm peer \<Rightarrow> bool" where
  "same_identity p q \<longleftrightarrow> pe_connection q = pe_connection p \<and> pe_session q = pe_session p \<and> pe_host q = pe_host p \<and>
     pe_address q = pe_address p \<and> pe_cursor q = pe_cursor p \<and> pe_plane q = pe_plane p"

lemma same_identity_refl [simp]: "same_identity p p"
  by (simp add: same_identity_def)

lemma same_identity_trans: "same_identity p q \<Longrightarrow> same_identity q r \<Longrightarrow> same_identity p r"
  by (simp add: same_identity_def)

lemma identity_kept [simp]:
  "same_identity p (p\<lparr>pe_crypt := st\<rparr>)" "same_identity p (p\<lparr>pe_queue := q\<rparr>)" "same_identity p (p\<lparr>pe_budget := b\<rparr>)"
  "same_identity p (set_udp_mode on p)"
  by (simp_all add: same_identity_def set_udp_mode_def)

lemma identity_crypt:
  "same_identity p (snd (peer_encrypt m p))" "same_identity p (snd (peer_decrypt m p))" "same_identity p (snd (allow_voice now n p))"
  by (simp_all add: peer_encrypt_def peer_decrypt_def allow_voice_def case_prod_beta Let_def)

lemma peers_ok_put:
  assumes ok: "peers_ok px" and p: "fmlookup (px_heap px) (pe_connection p) = Some p" and q: "same_identity p q"
  shows "peers_ok (put_peer q px)"
proof -
  have c: "pe_connection q = pe_connection p" using q by (simp add: same_identity_def)
  have heap: "map_option f (fmlookup (px_heap (put_peer q px)) d) = map_option f (fmlookup (px_heap px) d)" if "f q = f p" for f :: "'a peer \<Rightarrow> 'x" and d
    using p c that by (simp add: put_peer_heap)
  have adr: "Option.bind (fmlookup (px_heap (put_peer q px)) d) pe_address = Option.bind (fmlookup (px_heap px) d) pe_address" for d
    using p q by (simp add: put_peer_heap same_identity_def)
  have key: "fmlookup (px_heap (put_peer q px)) d = Some r \<Longrightarrow> pe_connection r = d" for d r
    using peers_okD(1) [OF ok, of d r] c by (auto simp: put_peer_heap split: if_splits)
  have found: "\<exists>r. fmlookup (px_heap (put_peer q px)) d = Some r \<and> fmlookup (px_by_session px) (pe_session r) = Some d"
    if "d |\<in>| px_by_connection px" for d
    using peers_okD(2) [OF ok that] p q by (auto simp: put_peer_heap same_identity_def)
  have "pe_session q = pe_session p" "pe_host q = pe_host p" using q by (simp_all add: same_identity_def)
  then show ?thesis
    using peers_okD(3-5) [OF ok] key found by (intro peers_okI) (simp_all only: put_peer_simps adr heap)
qed

lemma by_sessionD:
  assumes "peers_ok px" and "by_session px s = Some p"
  shows "fmlookup (px_heap px) (pe_connection p) = Some p" and "pe_session p = s" and "pe_connection p |\<in>| px_by_connection px"
    and "fmlookup (px_by_session px) s = Some (pe_connection p)"
proof -
  obtain c where c: "fmlookup (px_by_session px) s = Some c" "fmlookup (px_heap px) c = Some p"
    using assms(2) by (auto simp: by_session_def bind_eq_Some_conv)
  have "pe_connection p = c" using peers_okD(1) [OF assms(1) c(2)] .
  then show "fmlookup (px_heap px) (pe_connection p) = Some p" "pe_session p = s" "pe_connection p |\<in>| px_by_connection px"
    "fmlookup (px_by_session px) s = Some (pe_connection p)"
    using c peers_okD(3) [OF assms(1) c(1)] by auto
qed

lemma by_session_put:
  assumes "peers_ok px" and "fmlookup (px_heap px) (pe_connection p) = Some p" and "same_identity p q" and "s \<noteq> pe_session p"
  shows "by_session (put_peer q px) s = by_session px s"
proof (cases "fmlookup (px_by_session px) s")
  case (Some c)
  have "map_option pe_session (fmlookup (px_heap px) c) = Some s" using peers_okD(3) [OF assms(1) Some] by blast
  then have "c \<noteq> pe_connection q" using assms(2-4) by (auto simp: same_identity_def)
  then show ?thesis using Some by (simp add: by_session_def put_peer_heap)
qed (simp add: by_session_def)

subsection \<open>Delivery to one receiver\<close>

text \<open>What a packet does to one receiver: the datagram it is sent, and its record afterwards.\<close>

definition voice_effect :: "'e voice_plane \<Rightarrow> audio_packet \<Rightarrow> session_id \<Rightarrow> 'm peer \<Rightarrow> datagram option \<times> 'm peer" where
  "voice_effect vp audio sender p =
     (let plain = encode_voice (vp_codec vp) (UdpAudio (outgoing audio sender)) in
      case destination p of
        Some address \<Rightarrow> map_prod (map_option (\<lambda>bytes. (bytes, address))) id (peer_encrypt plain p)
      | None \<Rightarrow> (None, p\<lparr>pe_queue := snd (push_voice (UdpTunnel plain) (pe_queue p))\<rparr>))"

lemma voice_deliver_effect:
  "voice_deliver vp p audio sender (out, px) =
    (out @ (case fst (voice_effect vp audio sender p) of None \<Rightarrow> [] | Some d \<Rightarrow> [d]), put_peer (snd (voice_effect vp audio sender p)) px)"
  by (auto simp: voice_deliver_def voice_effect_def Let_def split: option.split prod.split)

lemma identity_effect: "same_identity p (snd (voice_effect vp audio sender p))"
  using identity_crypt(1) [of p] by (simp add: voice_effect_def Let_def split: option.split)

text \<open>The receivers a packet gets through to.\<close>

definition reached :: "'m peers \<Rightarrow> u64 \<Rightarrow> session_id list \<Rightarrow> 'm peer set" where
  "reached px since rs = {p. \<exists>s \<in> set rs. by_session px s = Some p \<and> since \<le> pe_cursor p}"

lemma reached_Cons:
  "reached px since (r # rs) = (case by_session px r of Some p \<Rightarrow> (if since \<le> pe_cursor p then {p} else {}) | None \<Rightarrow> {}) \<union> reached px since rs"
  by (auto simp: reached_def split: option.split)

abbreviation voice_sent :: "'e voice_plane \<Rightarrow> audio_packet \<Rightarrow> session_id \<Rightarrow> 'm peer set \<Rightarrow> datagram set" where
  "voice_sent vp audio session P \<equiv> {d. \<exists>p \<in> P. fst (voice_effect vp audio session p) = Some d}"

abbreviation voice_after :: "'e voice_plane \<Rightarrow> audio_packet \<Rightarrow> session_id \<Rightarrow> 'm peer set \<Rightarrow> 'm peers \<Rightarrow> connection_id \<Rightarrow> 'm peer option" where
  "voice_after vp audio session P px c \<equiv>
     (if c \<in> pe_connection ` P then map_option (\<lambda>p. snd (voice_effect vp audio session p)) (fmlookup (px_heap px) c)
      else fmlookup (px_heap px) c)"

lemma speak_exact:
  assumes "peers_ok px" and "distinct rs" and "fold (speak_to vp audio session since) rs (out, px) = (out', px')"
  shows "set out' = set out \<union> voice_sent vp audio session (reached px since rs) \<and>
    (\<forall>c. fmlookup (px_heap px') c = voice_after vp audio session (reached px since rs) px c) \<and>
    peers_ok px' \<and> px_by_connection px' = px_by_connection px"
  using assms
proof (induction rs arbitrary: out px)
  case Nil
  then show ?case by (simp add: reached_def)
next
  case (Cons r rs)
  note ok = Cons.prems(1) and dist = Cons.prems(2) and run = Cons.prems(3)
  show ?case
  proof (cases "\<exists>p. by_session px r = Some p \<and> since \<le> pe_cursor p")
    case False
    then have "speak_to vp audio session since r (out, px) = (out, px)" by (auto simp: speak_to_def split: option.split)
    moreover have "reached px since (r # rs) = reached px since rs" using False by (auto simp: reached_Cons split: option.split)
    ultimately show ?thesis using Cons.IH [OF ok, of out] dist run by simp
  next
    case True
    then obtain p where p: "by_session px r = Some p" "since \<le> pe_cursor p" by blast
    note pp = by_sessionD [OF ok p(1)]
    let ?e = "voice_effect vp audio session p"
    let ?px = "put_peer (snd ?e) px" and ?out = "out @ (case fst ?e of None \<Rightarrow> [] | Some d \<Rightarrow> [d])"
    have step: "speak_to vp audio session since r (out, px) = (?out, ?px)"
      using p by (simp add: speak_to_def voice_deliver_effect)
    have ok': "peers_ok ?px" by (rule peers_ok_put [OF ok pp(1) identity_effect])
    have same: "by_session ?px s = by_session px s" if "s \<in> set rs" for s
      using that dist pp(2) by (intro by_session_put [OF ok pp(1) identity_effect]) auto
    then have rest: "reached ?px since rs = reached px since rs" by (simp add: reached_def)
    have away: "pe_connection p \<notin> pe_connection ` reached px since rs"
    proof
      assume "pe_connection p \<in> pe_connection ` reached px since rs"
      then obtain s q where q: "s \<in> set rs" "by_session px s = Some q" "pe_connection q = pe_connection p" by (auto simp: reached_def)
      have "q = p" using by_sessionD(1) [OF ok q(2)] pp(1) unfolding q(3) by (metis option.inject)
      then show False using by_sessionD(2) [OF ok q(2)] pp(2) q(1) dist by auto
    qed
    have all: "reached px since (r # rs) = insert p (reached px since rs)" using p by (simp add: reached_Cons)
    have conn: "pe_connection (snd ?e) = pe_connection p" using identity_effect [of p vp audio session] by (simp add: same_identity_def)
    have "fold (speak_to vp audio session since) rs (?out, ?px) = (out', px')" using run step by simp
    note ih = Cons.IH [OF ok' _ this, unfolded rest]
    have heap: "fmlookup (px_heap ?px) c = (if c = pe_connection p then Some (snd ?e) else fmlookup (px_heap px) c)" for c
      using pp(1) by (simp add: put_peer_heap conn)
    have "set ?out = set out \<union> voice_sent vp audio session {p}" by (auto split: option.split)
    then have "set out' = set out \<union> voice_sent vp audio session (reached px since (r # rs))" unfolding all using ih dist by auto
    moreover have "fmlookup (px_heap px') c = voice_after vp audio session (reached px since (r # rs)) px c" for c
      using ih dist away pp(1) unfolding all heap by (cases "c = pe_connection p") simp_all
    ultimately show ?thesis using ih dist by simp
  qed
qed

subsection \<open>Whole packets\<close>

lemma put_peer_same: "fmlookup (px_heap px) (pe_connection p) = Some p \<Longrightarrow> put_peer p px = px"
  unfolding put_peer_def edit_peer_def
  by (intro peers.equality fmap_ext) auto

lemma put_peer_put: "pe_connection q = pe_connection p \<Longrightarrow> put_peer q (put_peer p px) = put_peer q px"
  unfolding put_peer_def edit_peer_def
  by (intro peers.equality fmap_ext) (auto simp: option.map_comp o_def)

text \<open>Every routing table lists a receiver once, as the compiled ones do.\<close>

definition tables_ok :: "'e voice_plane \<Rightarrow> bool" where
  "tables_ok vp \<longleftrightarrow> (\<forall>t s. distinct (receivers (vp_tables vp t) s))"

lemma routes_distinct: "tables_ok vp \<Longrightarrow> distinct (receivers (routing_of vp p) s)"
  by (cases "pl_table (pe_plane p)")
    (simp_all add: tables_ok_def routing_of_def peer_routing_def, simp add: no_routes_def receivers_def fm_get_or_def)

lemma identity_routing: "same_identity p q \<Longrightarrow> routing_of vp q = routing_of vp p \<and> pe_session q = pe_session p \<and> pe_connection q = pe_connection p"
  by (simp add: same_identity_def routing_of_def peer_routing_def)

text \<open>
  The reach of a packet from one connection: which records may differ afterwards, and where datagrams may go.
\<close>

definition hearers :: "'e voice_plane \<Rightarrow> 'm peer \<Rightarrow> 'm peers \<Rightarrow> connection_id set" where
  "hearers vp p px = {c. \<exists>s \<in> set (receivers (routing_of vp p) (pe_session p)). fmlookup (px_by_session px) s = Some c}"

definition proven :: "'m peers \<Rightarrow> socket_address \<Rightarrow> bool" where
  "proven px a \<longleftrightarrow> (\<exists>c p. c |\<in>| px_by_connection px \<and> fmlookup (px_heap px) c = Some p \<and> pe_address p = Some a)"

definition contained :: "'e voice_plane \<Rightarrow> 'm peer \<Rightarrow> 'm peers \<Rightarrow> datagram list \<times> 'm peers \<Rightarrow> bool" where
  "contained vp p px r \<longleftrightarrow> peers_ok (snd r) \<and> px_by_connection (snd r) = px_by_connection px \<and>
     (\<forall>c. fmlookup (px_heap (snd r)) c \<noteq> fmlookup (px_heap px) c \<longrightarrow> c = pe_connection p \<or> c \<in> hearers vp p px) \<and>
     (\<forall>d \<in> set (fst r). proven px (snd d))"

lemma effect_address: "fst (voice_effect vp audio s p) = Some d \<Longrightarrow> pe_address p = Some (snd d)"
  by (auto simp: voice_effect_def Let_def destination_def split: option.splits if_splits)

lemma speak_contained:
  assumes "peers_ok px" and "tables_ok vp"
  shows "contained vp p px (speak vp p audio px)"
proof -
  let ?rs = "receivers (routing_of vp p) (pe_session p)"
  define since where "since = (case routing_since (routing_of vp p) (pe_session p) of Some v \<Rightarrow> v | None \<Rightarrow> 0)"
  obtain out px' where run: "fold (speak_to vp audio (pe_session p) since) ?rs ([], px) = (out, px')" by fastforce
  note ex = speak_exact [OF assms(1) routes_distinct [OF assms(2)] run]
  have res: "speak vp p audio px = (out, px')" using run by (simp add: speak_def Let_def since_def)
  have "pe_connection ` reached px since ?rs \<subseteq> hearers vp p px"
    using by_sessionD(4) [OF assms(1)] unfolding reached_def hearers_def by blast
  moreover have "proven px (snd d)" if q: "q \<in> reached px since ?rs" and d: "fst (voice_effect vp audio (pe_session p) q) = Some d" for q d
  proof -
    obtain s where "by_session px s = Some q" using q by (auto simp: reached_def)
    then show ?thesis using by_sessionD(1,3) [OF assms(1)] effect_address [OF d] unfolding proven_def by blast
  qed
  moreover have "c \<in> pe_connection ` reached px since ?rs" if "fmlookup (px_heap px') c \<noteq> fmlookup (px_heap px) c" for c
    using ex that by (cases "c \<in> pe_connection ` reached px since ?rs") simp_all
  ultimately show ?thesis using ex unfolding contained_def res fst_conv snd_conv by auto
qed

lemma reflect_contained:
  assumes "peers_ok px" and "fmlookup (px_heap px) (pe_connection p) = Some p" and "pe_connection p |\<in>| px_by_connection px"
  shows "contained vp p px (reflect vp p audio px)"
proof -
  have "peers_ok (put_peer (snd (voice_effect vp audio (pe_session p) p)) px)" by (rule peers_ok_put [OF assms(1,2) identity_effect])
  moreover have "pe_connection (snd (voice_effect vp audio (pe_session p) p)) = pe_connection p"
    using identity_effect [of p vp audio "pe_session p"] by (simp add: same_identity_def)
  moreover have "proven px (snd d)" if "fst (voice_effect vp audio (pe_session p) p) = Some d" for d
    using effect_address [OF that] assms(2,3) unfolding proven_def by blast
  ultimately show ?thesis
    using assms(1) unfolding contained_def reflect_def Let_def voice_deliver_effect
    by (cases "fst (voice_effect vp audio (pe_session p) p)") (simp_all add: put_peer_heap)
qed

text \<open>A packet is contained whatever was done to the record of its sender before.\<close>

lemma contained_put:
  assumes "contained vp q (put_peer q px) r" and "same_identity p q" and "fmlookup (px_heap px) (pe_connection p) = Some p"
  shows "contained vp p px r"
proof -
  note i = identity_routing [OF assms(2), of vp]
  have "hearers vp q (put_peer q px) = hearers vp p px" using i by (simp add: hearers_def)
  moreover have "proven px a" if "proven (put_peer q px) a" for a
    using that assms(2,3) by (auto simp: proven_def put_peer_heap same_identity_def split: if_splits)
  ultimately show ?thesis
    using assms(1) i unfolding contained_def by (auto simp: put_peer_heap split: if_splits)
qed

lemma contained_still: "peers_ok px \<Longrightarrow> contained vp p px ([], px)"
  by (simp add: contained_def)

lemma put_identity:
  assumes "peers_ok px" and "fmlookup (px_heap px) (pe_connection p) = Some p" and "same_identity p q"
  shows "peers_ok (put_peer q px)" and "fmlookup (px_heap (put_peer q px)) (pe_connection q) = Some q"
  using peers_ok_put [OF assms] assms(2,3) by (auto simp: put_peer_heap same_identity_def)

lemma route_contained:
  assumes "peers_ok px" and "fmlookup (px_heap px) (pe_connection p) = Some p" and "pe_connection p |\<in>| px_by_connection px" and "tables_ok vp"
  shows "contained vp p px (route_voice vp p audio now n px)"
proof -
  obtain ok q where q: "allow_voice now n p = (ok, q)" by fastforce
  then have i: "same_identity p q" using identity_crypt(3) [of p now n] by simp
  note pq = put_identity [OF assms(1,2) i]
  have live: "pe_connection q |\<in>| px_by_connection (put_peer q px)" using assms(3) i by (simp add: same_identity_def)
  have "contained vp q (put_peer q px) (route_voice vp p audio now n px)"
    using contained_still [OF pq(1)] reflect_contained [OF pq live] speak_contained [OF pq(1) assms(4)]
    by (auto simp: route_voice_def q Let_def split: option.split audio_header.split)
  then show ?thesis by (rule contained_put [OF _ i assms(2)])
qed

lemma dispatch_contained:
  assumes "peers_ok px" and "fmlookup (px_heap px) (pe_connection p) = Some p" and "pe_connection p |\<in>| px_by_connection px" and "tables_ok vp"
    and "pe_address p = Some source"
  shows "contained vp p px (dispatch vp p plain source now px)"
proof (cases "is_acceptable_size (length plain)")
  case True
  show ?thesis
  proof (cases "decode_voice (vp_codec vp) plain")
    case (Inr m)
    show ?thesis
    proof (cases m)
      case (UdpAudio audio)
      let ?q = "set_udp_mode True p"
      have i: "same_identity p ?q" by simp
      note pq = put_identity [OF assms(1,2) i]
      have "contained vp ?q (put_peer ?q px) (route_voice vp ?q audio now (length plain) (put_peer ?q px))"
        using assms(3) by (intro route_contained pq assms(4)) (simp add: set_udp_mode_def)
      then show ?thesis using True Inr UdpAudio contained_put [OF _ i assms(2)] by (simp add: dispatch_def Let_def)
    next
      case (UdpPing ping)
      obtain sealed q where q: "peer_encrypt (plane_ping_reply vp ping px) p = (sealed, q)" by fastforce
      then have i: "same_identity p q" using identity_crypt(1) [of p] by (metis snd_conv)
      note pq = put_identity [OF assms(1,2) i]
      have "proven px source" using assms(2,3,5) unfolding proven_def by blast
      then show ?thesis
        using True Inr UdpPing q pq(1) i unfolding contained_def
        by (auto simp: dispatch_def put_peer_heap same_identity_def split: option.split)
    qed
  qed (simp add: dispatch_def True contained_still assms(1))
qed (simp add: dispatch_def contained_still assms(1))

subsection \<open>Datagrams\<close>

text \<open>A datagram that does not open leaves the connection it was tried on as it was.\<close>

lemma decrypt_failure: "peer_decrypt dg p = (None, q) \<Longrightarrow> q = p"
  by (auto simp: peer_decrypt_def crypt_decrypt_def Let_def split: if_splits option.splits prod.splits)

lemma try_candidates_found:
  assumes "peers_ok px" and "try_candidates dg cs px = Some (c, plain, px')"
  obtains p q where "c \<in> set cs" "fmlookup (px_heap px) c = Some p" "peer_decrypt dg p = (Some plain, q)" "px' = put_peer q px"
  using assms
proof (induction cs)
  case (Cons d cs)
  show ?case
  proof (cases "fmlookup (px_heap px) d")
    case None
    then show ?thesis using Cons by auto
  next
    case (Some p)
    obtain r q where r: "peer_decrypt dg p = (r, q)" by fastforce
    show ?thesis
    proof (cases r)
      case None
      then have "put_peer q px = px" using r decrypt_failure Some peers_okD(1) [OF assms(1) Some] by (intro put_peer_same) auto
      then show ?thesis using Cons Some r None by auto
    next
      case (Some m)
      then show ?thesis using Cons.prems(1) [of p q] Cons.prems(3) \<open>fmlookup (px_heap px) d = Some p\<close> r by auto
    qed
  qed
qed simp

lemma try_candidates_none:
  assumes "peers_ok px" and "try_candidates dg cs px = None" and "c \<in> set cs" and "fmlookup (px_heap px) c = Some p"
  shows "fst (peer_decrypt dg p) = None"
  using assms
proof (induction cs)
  case (Cons d cs)
  show ?case
  proof (cases "fmlookup (px_heap px) d")
    case None
    then show ?thesis using Cons by (cases "c = d") auto
  next
    case (Some r)
    obtain m q where q: "peer_decrypt dg r = (m, q)" by fastforce
    then have m: "m = None" using Cons.prems(2) Some by (auto split: option.splits)
    then have "put_peer q px = px" using q decrypt_failure Some peers_okD(1) [OF assms(1) Some] by (intro put_peer_same) auto
    then show ?thesis using Cons Some q m by (cases "c = d") auto
  qed
qed simp

lemma bind_heap:
  assumes "fmlookup (px_heap px) c = Some p"
  shows "fmlookup (px_heap (bind_address a c px)) d = (if d = c then Some (p\<lparr>pe_address := Some a\<rparr>) else fmlookup (px_heap px) d)"
    and "px_by_connection (bind_address a c px) = px_by_connection px" and "px_by_session (bind_address a c px) = px_by_session px"
  using assms by (auto simp: bind_address_def edit_peer_def Let_def split: option.split)

text \<open>
  What a datagram may do: nothing, or what a packet of the registered connection whose key opened it may do. Replies
  go to where the datagram came from.
\<close>

definition opened_by :: "u8 list \<Rightarrow> 'm peers \<Rightarrow> 'm peer \<Rightarrow> bool" where
  "opened_by dg px p \<longleftrightarrow> pe_connection p |\<in>| px_by_connection px \<and> fmlookup (px_heap px) (pe_connection p) = Some p \<and>
     fst (peer_decrypt dg p) \<noteq> None"

lemma hot_path:
  assumes "peers_ok px" and "tables_ok vp" and "by_address px source = Some p" and "peer_decrypt dg p = (Some plain, q)"
  shows "opened_by dg px p" and "contained vp p px (dispatch vp q plain source now (put_peer q px))"
proof -
  obtain c where c: "fmlookup (px_by_address px) source = Some c" "fmlookup (px_heap px) c = Some p"
    using assms(3) by (auto simp: by_address_def bind_eq_Some_conv)
  have conn: "pe_connection p = c" using peers_okD(1) [OF assms(1) c(2)] .
  have live: "c |\<in>| px_by_connection px" and adr: "pe_address p = Some source" using peers_okD(4) [OF assms(1) c(1)] c(2) by auto
  have i: "same_identity p q" using identity_crypt(2) [of p dg] assms(4) by simp
  have p: "fmlookup (px_heap px) (pe_connection p) = Some p" using c(2) conn by simp
  show "opened_by dg px p" using live p conn assms(4) by (simp add: opened_by_def)
  note pq = put_identity [OF assms(1) p i]
  have "contained vp q (put_peer q px) (dispatch vp q plain source now (put_peer q px))"
    using live conn adr i by (intro dispatch_contained pq assms(2)) (auto simp: same_identity_def)
  then show "contained vp p px (dispatch vp q plain source now (put_peer q px))" by (rule contained_put [OF _ i p])
qed

lemma cold_path:
  assumes "peers_ok px" and "tables_ok vp" and "try_candidates dg (candidates px (fst source)) px = Some (c, plain, px1)"
  obtains p q where "opened_by dg px p" "fmlookup (px_heap (bind_address source c px1)) c = Some q"
    "peers_ok (snd (dispatch vp q plain source now (bind_address source c px1)))"
    "\<And>d. fmlookup (px_heap (snd (dispatch vp q plain source now (bind_address source c px1)))) d \<noteq> fmlookup (px_heap px) d \<Longrightarrow>
      d = pe_connection p \<or> d \<in> hearers vp p px"
    "\<And>d. d \<in> set (fst (dispatch vp q plain source now (bind_address source c px1))) \<Longrightarrow> snd d = source \<or> proven px (snd d)"
proof -
  obtain p q where c: "c \<in> set (candidates px (fst source))" and p: "fmlookup (px_heap px) c = Some p"
    and q: "peer_decrypt dg p = (Some plain, q)" and px1: "px1 = put_peer q px"
    by (rule try_candidates_found [OF assms(1,3)])
  have conn: "pe_connection p = c" using peers_okD(1) [OF assms(1) p] .
  have live: "c |\<in>| px_by_connection px" using c peers_okD(5) [OF assms(1)] by blast
  have i: "same_identity p q" using identity_crypt(2) [of p dg] q by simp
  note pq = put_identity [OF assms(1) _ i, unfolded conn, OF p]
  let ?px = "bind_address source c px1" and ?q = "q\<lparr>pe_address := Some source\<rparr>"
  have qc: "pe_connection q = c" using i conn by (simp add: same_identity_def)
  have q1: "fmlookup (px_heap px1) c = Some q" using pq(2) unfolding px1 qc .
  note b = bind_heap [OF q1, of source]
  have ok: "peers_ok ?px" using live unfolding px1 by (intro peers_ok_bind pq(1)) simp
  have con: "contained vp ?q ?px (dispatch vp ?q plain source now ?px)"
    using live qc b by (intro dispatch_contained ok assms(2)) (auto simp: px1)
  have same: "hearers vp ?q ?px = hearers vp p px" "pe_connection ?q = pe_connection p"
    using i b(3) by (simp_all add: hearers_def routing_of_def peer_routing_def same_identity_def px1)
  have heap: "fmlookup (px_heap ?px) d = fmlookup (px_heap px) d" if "d \<noteq> c" for d
    using that b(1) qc by (simp add: px1 put_peer_heap)
  have "a = source \<or> proven px a" if pr: "proven ?px a" for a
  proof -
    obtain d r where r: "d |\<in>| px_by_connection ?px" "fmlookup (px_heap ?px) d = Some r" "pe_address r = Some a"
      using pr unfolding proven_def by blast
    show ?thesis
    proof (cases "d = c")
      case True
      then show ?thesis using r b(1) by auto
    next
      case False
      then show ?thesis using r heap b(2) unfolding proven_def px1 by auto
    qed
  qed
  then show ?thesis
    using con same heap conn live p q b(1)
    by (intro that [of p ?q]) (auto simp: contained_def opened_by_def, metis)
qed

end
