(* ===== verification/Gateway_Inv.thy ===== *)
theory Gateway_Inv
  imports Runtime Voice_Safe "HOL-Library.Sublist"
begin

text \<open>
  What the gateway keeps: requests go out in the connection's own name, a connection that ends leaves no trace in
  the registry, whatever cut it short, and a migration never leaves a connection between two shards.
\<close>

subsection \<open>Requests\<close>

fun command_connection :: "shard_command \<Rightarrow> connection_id" where
  "command_connection (Attach c _ _ _ _) = c"
| "command_connection (Detach c _ _) = c"
| "command_connection (Drained c) = c"
| "command_connection (Requested c _) = c"
| "command_connection (AskedSelfState c _ _) = c"
| "command_connection (QueriedPermissions c _) = c"
| "command_connection (QueriedUserStats c _) = c"
| "command_connection (Invoked c _ _ _) = c"
| "command_connection (Wrote c _ _) = c"

fun is_request :: "shard_command \<Rightarrow> bool" where
  "is_request (Attach _ _ _ _ _) = False"
| "is_request (Detach _ _ _) = False"
| "is_request (Drained _) = False"
| "is_request _ = True"

lemma allow_text_keeps: "allow_text now p = (ok, q) \<Longrightarrow> pe_connection q = pe_connection p \<and> pe_plane q = pe_plane p \<and> pe_session q = pe_session p"
  by (auto simp: allow_text_def Let_def split: prod.splits)

lemma inbound_text_forwards:
  assumes "(s, cmd) \<in> set (fst (snd (inbound_text cf now t p)))"
  shows "s = peer_shard p \<and> (\<exists>target. cmd = Wrote (pe_connection p) target (ct_message t) \<and> single_target t = Some target) \<and> fst (allow_text now p)"
  using assms allow_text_keeps [of now p]
  by (auto simp: inbound_text_def deny_def forward_def Let_def peer_shard_def split: prod.splits if_splits option.splits)

lemma inbound_forwards:
  assumes "(s, cmd) \<in> set (fst (snd (inbound cf now m p)))"
  shows "s = peer_shard p \<and> command_connection cmd = pe_connection p \<and> is_request cmd"
proof -
  define q where "q = (if unidles m then record_activity now p else p)"
  have q: "pe_connection q = pe_connection p" "peer_shard q = peer_shard p" by (simp_all add: q_def record_activity_def peer_shard_def)
  show ?thesis
  proof (cases m)
    case (ClUserState r)
    then have "(s, cmd) \<in> set (fst (snd (inbound_user_state r q)))" using assms by (simp add: inbound_def Let_def q_def)
    then show ?thesis
      using q by (auto simp: inbound_user_state_def deny_def Let_def split: if_splits option.splits prod.splits)
  next
    case (ClTextMessage t)
    then have "(s, cmd) \<in> set (fst (snd (inbound_text cf now t q)))" using assms by (simp add: inbound_def Let_def q_def)
    from inbound_text_forwards [OF this] show ?thesis using q by auto
  next
    case (ClUserStats a)
    then have "(s, cmd) \<in> set (fst (snd (inbound_user_stats now a q)))" using assms by (simp add: inbound_def Let_def q_def)
    then show ?thesis
      using q by (auto simp: inbound_user_stats_def forward_def Let_def split: if_splits option.splits prod.splits)
  qed (use assms q in \<open>auto simp: inbound_def forward_def deny_def Let_def q_def split: option.splits\<close>)
qed

lemma single_target_iff:
  "single_target t = Some target \<longleftrightarrow>
     map TTSession (ct_session t) @ map TTChannel (ct_channel t) @ map TTTree (ct_tree t) = [target]"
  by (auto simp: single_target_def append_eq_Cons_conv split: list.splits)

text \<open>Deafened implies muted, unmuted implies undeafened, and asking twice asks nothing new.\<close>

lemma self_state_coherent:
  assumes "self_state r = (mute, deaf)"
  shows "deaf = Some True \<Longrightarrow> mute = Some True" and "mute = Some False \<Longrightarrow> deaf = Some False"
    and "self_state (r\<lparr>ur_self_mute := mute, ur_self_deaf := deaf\<rparr>) = (mute, deaf)"
    and "mute = None \<Longrightarrow> ur_self_mute r = None" and "deaf = None \<Longrightarrow> ur_self_deaf r = None"
  using assms by (auto simp: self_state_def Let_def split: if_splits)

subsection \<open>One connection from beginning to end\<close>

definition runtime_ok :: "'m runtime \<Rightarrow> bool" where
  "runtime_ok rt \<longleftrightarrow> peers_ok (rt_peers rt) \<and> alloc_inv (rt_ids rt) \<and>
     (\<forall>c p. fmlookup (px_heap (rt_peers rt)) c = Some p \<longrightarrow>
        c < rt_next_connection rt \<and> allocated_session (rt_ids rt) (Connection c) = Some (pe_session p))"

lemma runtime_ok_start: "runtime_ok runtime_start"
  by (simp add: runtime_ok_def runtime_start_def peers_ok_new alloc_inv_new) (simp add: peers_new_def)

lemma handle_send_keeps:
  assumes "handle_send s m rt = (r, rt')"
  shows "rt_peers rt' = rt_peers rt \<and> rt_ids rt' = rt_ids rt \<and> rt_next_connection rt' = rt_next_connection rt \<and> rt_shards rt' = rt_shards rt"
  using assms by (auto simp: handle_send_def split: option.splits if_splits)

lemma runtime_detach_keeps:
  "rt_peers (runtime_detach c s r rt) = rt_peers rt \<and> rt_ids (runtime_detach c s r rt) = rt_ids rt \<and>
    rt_next_connection (runtime_detach c s r rt) = rt_next_connection rt"
  using handle_send_keeps [of s "MailDetach c r None" rt] by (cases "handle_send s (MailDetach c r None) rt") (simp add: runtime_detach_def)

lemma handshake_tail_keeps:
  assumes "handshake_tail cf av keys c session s rt = (ws, fine, rt')"
  shows "rt_ids rt' = rt_ids rt \<and> rt_next_connection rt' = rt_next_connection rt \<and>
    (rt_peers rt' = rt_peers rt \<or> rt_peers rt' = edit_peer c (move_to (plane_of s)) (rt_peers rt))"
proof -
  have "rt_ids r' = rt_ids rt \<and> rt_next_connection r' = rt_next_connection rt \<and>
      (rt_peers r' = rt_peers rt \<or> rt_peers r' = edit_peer c (move_to (plane_of s)) (rt_peers rt))"
    if "runtime_attach c s rt = (x, r')" for x r'
    using that handle_send_keeps [of s "MailAttach c empty_view True" "on_peer c (move_to (plane_of s)) rt"]
    by (auto simp: runtime_attach_def on_peer_def Let_def split: if_splits prod.splits bool.splits)
  then show ?thesis
    using assms by (auto simp: handshake_tail_def Let_def split: prod.splits bool.splits sum.splits option.splits)
qed

text \<open>Insertion of a fresh connection and its removal, with its plane moved in between.\<close>

lemma insert_remove:
  assumes ok: "peers_ok px" and p: "fmlookup (px_heap px) (pe_connection p) = None" "fmlookup (px_by_session px) (pe_session p) = None"
    and px': "px' = insert_peer p px \<or> px' = edit_peer (pe_connection p) (move_to plane) (insert_peer p px)"
  shows "peers_ok (snd (remove_peer (pe_connection p) px'))"
    and "px_by_connection (snd (remove_peer (pe_connection p) px')) = px_by_connection px"
    and "fmlookup (px_heap (snd (remove_peer (pe_connection p) px'))) d = Some q \<Longrightarrow>
      fmlookup (px_heap px) d = Some q \<or> d = pe_connection p \<and> pe_session q = pe_session p"
proof -
  let ?c = "pe_connection p"
  have "peers_ok (insert_peer p px)" by (rule peers_ok_insert [OF ok p])
  then have "peers_ok px'" using px' peers_ok_edit [of "insert_peer p px" "move_to plane" ?c] by (auto simp: move_to_def)
  then show "peers_ok (snd (remove_peer ?c px'))" by (rule peers_ok_remove)
  have "?c |\<notin>| px_by_connection px" using peers_okD(2) [OF ok] p(1) by fastforce
  then show "px_by_connection (snd (remove_peer ?c px')) = px_by_connection px"
    using px' by (auto simp: remove_peer_def insert_peer_def edit_peer_def)
  show "fmlookup (px_heap (snd (remove_peer ?c px'))) d = Some q \<Longrightarrow>
      fmlookup (px_heap px) d = Some q \<or> d = pe_connection p \<and> pe_session q = pe_session p"
    using px' by (auto simp: remove_peer_def insert_peer_def edit_peer_def move_to_def split: if_splits option.splits)
qed

lemma serve_registered_keeps:
  fixes rt :: "'m runtime"
  assumes ok: "runtime_ok rt" and c: "fmlookup (px_heap (rt_peers rt)) c = None" "c < rt_next_connection rt"
    and s: "allocated_session (rt_ids rt) (Connection c) = Some session"
    and run: "serve_registered cf av c session sh rt = (ws, fine, rt')"
  shows "runtime_ok rt' \<and> px_by_connection (rt_peers rt') = px_by_connection (rt_peers rt)"
proof (cases "av_crypt av")
  case None
  then show ?thesis using run ok by (simp add: serve_registered_def)
next
  case (Some k)
  obtain key sn cn where k: "k = (key, sn, cn)" by (cases k) auto
  define p :: "'m peer" where "p = peer_new c session (av_host av) (crypt_new (av_cipher av key) sn cn) queue_new \<lparr>pl_shard = sh, pl_table = None\<rparr> (av_now av)"
  obtain vs ok1 rt1 where t: "handshake_tail cf av (key, sn, cn) c session sh (rt\<lparr>rt_peers := insert_peer p (rt_peers rt)\<rparr>) = (vs, ok1, rt1)"
    by (metis prod.exhaust)
  note keeps = handshake_tail_keeps [OF t]
  have pc: "pe_connection p = c" "pe_session p = session" by (simp_all add: p_def peer_new_def)
  have pok: "peers_ok (rt_peers rt)" and al: "alloc_inv (rt_ids rt)" using ok by (simp_all add: runtime_ok_def)
  have heap: "d < rt_next_connection rt \<and> allocated_session (rt_ids rt) (Connection d) = Some (pe_session q)"
    if "fmlookup (px_heap (rt_peers rt)) d = Some q" for d q
    using ok that unfolding runtime_ok_def by blast
  have fresh: "fmlookup (px_by_session (rt_peers rt)) session = None"
  proof (rule ccontr)
    assume "fmlookup (px_by_session (rt_peers rt)) session \<noteq> None"
    then obtain d q where d: "fmlookup (px_heap (rt_peers rt)) d = Some q" "pe_session q = session"
      using peers_okD(3) [OF pok, of session] by auto
    then have "Connection d = Connection c" using sessions.look_inj [OF al] heap s by metis
    then show False using d c(1) by simp
  qed
  have "rt_peers rt1 = insert_peer p (rt_peers rt) \<or> rt_peers rt1 = edit_peer (pe_connection p) (move_to (plane_of sh)) (insert_peer p (rt_peers rt))"
    using keeps pc by simp
  note ir = insert_remove [OF pok _ _ this, unfolded pc, OF c(1) fresh]
  have "rt_peers rt' = snd (remove_peer c (rt_peers rt1)) \<and> rt_ids rt' = rt_ids rt \<and> rt_next_connection rt' = rt_next_connection rt"
    using run t keeps by (auto simp: serve_registered_def Some k p_def [symmetric] Let_def runtime_detach_keeps)
  then show ?thesis unfolding runtime_ok_def using ir al heap c(2) s by metis
qed

lemma take_and_allocate:
  assumes ok: "runtime_ok rt" and wrap: "rt_next_connection rt \<noteq> - 1" and take: "take_connection rt = (c, rt1)"
    and ses: "session_for c rt1 = (r, rt2)"
  shows "runtime_ok rt2" and "rt_peers rt2 = rt_peers rt" and "fmlookup (px_heap (rt_peers rt2)) c = None" and "c < rt_next_connection rt2"
    and "r = Inr session \<Longrightarrow> allocated_session (rt_ids rt2) (Connection c) = Some session"
proof -
  have c: "c = rt_next_connection rt" "rt1 = rt\<lparr>rt_next_connection := rt_next_connection rt + 1\<rparr>"
    using take by (auto simp: take_connection_def)
  obtain ids where a: "alloc_session (Connection c) (rt_ids rt) = (r, ids)" and rt2: "rt2 = rt1\<lparr>rt_ids := ids\<rparr>"
    using ses c by (auto simp: session_for_def split: prod.splits)
  have nxt: "rt_next_connection rt < rt_next_connection rt + 1"
    using wrap unatSuc [of "rt_next_connection rt"] by (simp add: word_less_nat_alt add.commute eq_neg_iff_add_eq_0)
  have al: "alloc_inv (rt_ids rt)" and pok: "peers_ok (rt_peers rt)" using ok by (simp_all add: runtime_ok_def)
  have heap: "d < rt_next_connection rt \<and> allocated_session (rt_ids rt) (Connection d) = Some (pe_session q)"
    if "fmlookup (px_heap (rt_peers rt)) d = Some q" for d q
    using ok that unfolding runtime_ok_def by blast
  have kept: "allocated_session ids (Connection d) = Some i" if "allocated_session (rt_ids rt) (Connection d) = Some i" for d i
    using sessions.look_stable [OF al that, of "Connection c"] a by simp
  have "alloc_inv ids" using alloc_inv_session [OF al, of "Connection c"] a by simp
  moreover have "d < rt_next_connection rt + 1" if "d < rt_next_connection rt" for d using that nxt by (rule order.strict_trans)
  ultimately show "runtime_ok rt2" unfolding runtime_ok_def rt2 c(2) using pok heap kept by auto
  show "rt_peers rt2 = rt_peers rt" "c < rt_next_connection rt2" using nxt by (simp_all add: rt2 c)
  show "fmlookup (px_heap (rt_peers rt2)) c = None"
    using heap [of c] c(1) by (cases "fmlookup (px_heap (rt_peers rt)) c") (auto simp: rt2 c(2))
  show "r = Inr session \<Longrightarrow> allocated_session (rt_ids rt2) (Connection c) = Some session"
    using sessions.look_after [OF al] a by (simp add: rt2)
qed

lemma serve_keeps:
  assumes ok: "runtime_ok rt" and wrap: "rt_next_connection rt \<noteq> - 1" and run: "serve_connection cf av rt = (ws, fine, rt')"
  shows "runtime_ok rt' \<and> px_by_connection (rt_peers rt') = px_by_connection (rt_peers rt)"
proof -
  have auth: "runtime_ok r' \<and> px_by_connection (rt_peers r') = px_by_connection (rt_peers rt)"
    if "serve_authenticated cf av name password rt = (vs, f, r')" for name password vs f r'
  proof (cases "unat (gc_max_users cf) \<le> peers_len (rt_peers rt)")
    case True
    then show ?thesis using that ok by (auto simp: serve_authenticated_def serve_rejected_def Let_def split: if_splits)
  next
    case False
    obtain c rt1 where t: "take_connection rt = (c, rt1)" by fastforce
    obtain r rt2 where s: "session_for c rt1 = (r, rt2)" by fastforce
    note ta = take_and_allocate [OF ok wrap t s]
    show ?thesis
    proof (cases r)
      case (Inl e)
      then show ?thesis using that ta(1,2) False t s by (auto simp: serve_authenticated_def Let_def)
    next
      case (Inr session)
      show ?thesis
      proof (cases "\<exists>reason. r' = snd (snd (serve_rejected reason av rt2))")
        case True
        then show ?thesis using ta(1,2) by (auto simp: serve_rejected_def split: if_splits)
      next
        case no: False
        have "\<exists>sh. serve_registered cf av c session sh rt2 = (vs, f, r')"
          using that False t s Inr no by (auto simp: serve_authenticated_def Let_def split: route_decision.splits) (metis snd_conv)
        then show ?thesis using serve_registered_keeps [OF ta(1,3,4) ta(5) [OF Inr]] ta(2) by metis
      qed
    qed
  qed
  show ?thesis
    using run ok auth by (auto simp: serve_connection_def Let_def split: if_splits option.splits prod.splits)
qed

text \<open>What is written, up to the message that completes the handshake.\<close>

lemma write_messages_prefix:
  assumes "write_messages ok k ms = (ws, fine)"
  shows "prefix ws ms" and "fine \<Longrightarrow> ws = ms"
  using assms by (induction ms arbitrary: k ws) (auto split: if_splits prod.splits)

lemma sync_position:
  assumes "prefix us (map WroteQueued queued @ map WroteHandshake (handshake_completion cf ses))"
    and "WroteHandshake (HsServerSync session b w m) \<in> set us"
  shows "\<exists>rest. us = map WroteQueued queued @ WroteHandshake (HsServerSync session b w m) # rest"
proof -
  have "\<not> prefix us (map WroteQueued queued)" using assms(2) set_mono_prefix by fastforce
  then show ?thesis using assms by (auto simp: prefix_append handshake_completion_def prefix_Cons)
qed

lemma handshake_tail_order:
  fixes av :: "'q arrival"
  assumes t: "handshake_tail cf av (key, sn, cn) c ses sh rt = (vs, fine, rt')"
    and sync: "WroteHandshake (HsServerSync session b w m) \<in> set vs"
  shows "\<exists>queued rest. av_first_view av = Some queued \<and>
    vs = map WroteHandshake (handshake_prelude key cn sn) @ map WroteQueued queued @ WroteHandshake (HsServerSync session b w m) # rest"
proof -
  let ?sync = "WroteHandshake (HsServerSync session b w m)"
  let ?pre = "map WroteHandshake (handshake_prelude key cn sn) :: 'q written list"
  let ?tail = "\<lambda>queued. map WroteQueued queued @ map WroteHandshake (handshake_completion cf ses)"
  have no: "?sync \<notin> set xs" if "prefix xs ?pre" for xs
    using set_mono_prefix [OF that] by (auto simp: handshake_prelude_def)
  obtain xs ok where w1: "write_messages (av_writes av) 1 ?pre = (xs, ok)" by fastforce
  have ok: ok
  proof (rule ccontr)
    assume "\<not> ok"
    then have "vs = xs" using t w1 by (simp add: handshake_tail_def)
    then show False using no sync write_messages_prefix(1) [OF w1] by simp
  qed
  then have xs: "xs = ?pre" using write_messages_prefix(2) w1 by auto
  obtain queued where q: "av_first_view av = Some queued" and vs: "vs = ?pre @ fst (write_messages (av_writes av) (1 + length ?pre) (?tail queued))"
    using t w1 ok xs sync no [of ?pre] by (auto simp: handshake_tail_def Let_def split: prod.splits sum.splits option.splits)
  define us where "us = fst (write_messages (av_writes av) (1 + length ?pre) (?tail queued))"
  have "prefix us (?tail queued)" unfolding us_def by (metis prod.collapse write_messages_prefix(1))
  moreover have "?sync \<in> set us" using sync no [of ?pre] unfolding vs us_def by simp
  ultimately show ?thesis using sync_position q unfolding vs us_def [symmetric] by fastforce
qed

lemma handshake_order:
  fixes rt :: "'m runtime"
  assumes "serve_connection cf av rt = (ws, fine, rt')" and "WroteHandshake (HsServerSync session b w m) \<in> set ws"
  shows "\<exists>key server_nonce client_nonce queued rest. av_first_view av = Some queued \<and>
    ws = map WroteHandshake (server_version_message cf # handshake_prelude key client_nonce server_nonce) @ map WroteQueued queued @
      WroteHandshake (HsServerSync session b w m) # rest"
proof -
  let ?sync = "WroteHandshake (HsServerSync session b w m)"
  have version: "?sync \<noteq> WroteHandshake (server_version_message cf)" by (simp add: server_version_message_def split: prod.split)
  obtain name password vs r' where a: "serve_authenticated cf av name password rt = (vs, fine, r')"
    and ws: "ws = WroteHandshake (server_version_message cf) # vs" and sync: "?sync \<in> set vs"
    using assms version by (auto simp: serve_connection_def Let_def split: if_splits option.splits prod.splits)
  obtain c ses sh rt1 where reg: "serve_registered cf av c ses sh rt1 = (vs, fine, r')"
    using a sync by (auto simp: serve_authenticated_def serve_rejected_def handshake_reject_def Let_def
        split: if_splits prod.splits sum.splits route_decision.splits)
  obtain key sn cn and rt3 rt4 :: "'m runtime" where t: "handshake_tail cf av (key, sn, cn) c ses sh rt3 = (vs, fine, rt4)"
    using reg sync by (auto simp: serve_registered_def Let_def split: option.splits prod.splits)
  show ?thesis using handshake_tail_order [OF t sync] ws by fastforce
qed

subsection \<open>Migration\<close>

text \<open>
  A migration that runs to its end has closed the connection, or moved it and handed its view to the destination.
\<close>

lemma migration_settles:
  assumes p: "fmlookup (px_heap (rt_peers rt)) c = Some p" and run: "migrate_finish c target handed rt = rt'"
  obtains (closed) q where "fmlookup (px_heap (rt_peers rt')) c = Some q" "qu_must_close (pe_queue q)"
  | (moved) q held e where "fmlookup (px_heap (rt_peers rt')) c = Some q" "peer_shard q = target" "pl_table (pe_plane q) = Some target"
      "handed = Some held" "fmlookup (rt_tasks rt') target = Some e" "last (en_box e) = MailAttach c held False" "en_box e \<noteq> []" "\<not> en_gone e"
proof (cases handed)
  case None
  then show ?thesis using closed p run by (auto simp: migrate_finish_def on_peer_def edit_peer_def peer_close_def mark_fatal_def)
next
  case (Some held)
  obtain r rt1 where h: "handle_send target (MailAttach c held False) (on_peer c (move_to (plane_of target)) rt) = (r, rt1)" by fastforce
  have p1: "fmlookup (px_heap (rt_peers rt1)) c = Some (move_to (plane_of target) p)"
    using handle_send_keeps [OF h] p by (simp add: on_peer_def edit_peer_def)
  show ?thesis
  proof (cases r)
    case True
    then have "rt' = rt1" using run Some h by (simp add: migrate_finish_def)
    moreover obtain e where "fmlookup (rt_tasks rt1) target = Some e" "last (en_box e) = MailAttach c held False" "en_box e \<noteq> []" "\<not> en_gone e"
      using h True by (auto simp: handle_send_def split: option.splits if_splits)
    ultimately show ?thesis using moved p1 Some by (auto simp: move_to_def plane_of_def peer_shard_def)
  next
    case False
    then show ?thesis
      using closed run Some h p1 by (auto simp: migrate_finish_def on_peer_def edit_peer_def peer_close_def mark_fatal_def)
  qed
qed

lemma close_all:
  "fmlookup (px_heap (rt_peers (fold (\<lambda>c. on_peer c peer_close) cs rt))) c =
    (if c \<in> set cs then map_option peer_close (fmlookup (px_heap (rt_peers rt)) c) else fmlookup (px_heap (rt_peers rt)) c)"
proof (induction cs arbitrary: rt)
  case (Cons d cs)
  have "peer_close (peer_close p) = peer_close p" for p :: "'a peer" by (simp add: peer_close_def mark_fatal_def)
  then show ?case unfolding fold_Cons o_def Cons by (auto simp: on_peer_def edit_peer_def option.map_comp o_def)
qed simp

text \<open>A destroyed shard leaves no connection behind that is not told to close.\<close>

lemma destroy_closes:
  assumes "peers_ok (rt_peers rt)" and "c |\<in>| px_by_connection (rt_peers rt)" and "fmlookup (px_heap (rt_peers rt)) c = Some p" and "peer_shard p = s"
  shows "\<exists>q. fmlookup (px_heap (rt_peers (destroy s rt))) c = Some q \<and> qu_must_close (pe_queue q)" and "s |\<notin>| rt_shards (destroy s rt)"
proof -
  have "c \<in> set (on_shard (rt_peers rt) s)" using assms(2-4) by (simp add: on_shard_def)
  then show "\<exists>q. fmlookup (px_heap (rt_peers (destroy s rt))) c = Some q \<and> qu_must_close (pe_queue q)"
    using assms(3) by (simp add: destroy_def Let_def close_all peer_close_def mark_fatal_def)
  show "s |\<notin>| rt_shards (destroy s rt)" by (simp add: destroy_def Let_def)
qed

end
