(* ===== verification/Props_Gateway.thy ===== *)
theory Props_Gateway
  imports Gateway_Inv
begin

text \<open>What the gateway promises to a connected client, and what a stranger can make it do.\<close>

subsection \<open>A small gateway\<close>

definition lab_cipher :: cipher where
  "lab_cipher = \<lparr>ci_encrypt = id, ci_decrypt = id\<rparr>"

definition lab_peer :: "u64 \<Rightarrow> u32 \<Rightarrow> unit peer" where
  "lab_peer c s = peer_new c s ([127, 0, 0, 1]) (crypt_new lab_cipher (replicate 16 0) (replicate 16 0)) queue_new
     \<lparr>pl_shard = 1, pl_table = Some 1\<rparr> 0"

definition lab_peers :: "unit peers" where
  "lab_peers = insert_peer (lab_peer 2 12) (insert_peer (lab_peer 1 11) peers_new)"

definition lab_audio :: audio_packet where
  "lab_audio = \<lparr>au_header = Some (Target 0), au_sender_session = 0, au_frame_number = 1, au_opus_data = [9],
     au_positional_data = [], au_volume_adjustment = 0, au_is_terminator = False\<rparr>"

definition lab_codec :: "unit voice_codec" where
  "lab_codec = \<lparr>vc_encode_audio = au_opus_data, vc_encode_ping = (\<lambda>_. []), vc_decode_audio = (\<lambda>bs. Inr (lab_audio\<lparr>au_opus_data := bs\<rparr>)),
     vc_decode_ping = (\<lambda>_. Inl ())\<rparr>"

definition lab_relation :: audio_relation where
  "lab_relation = audio_domain 5 [1, 2] relation_default"

definition lab_sessions :: "(connection_id, session_id) fmap" where
  "lab_sessions = fmupd 1 11 (fmupd 2 12 fmempty)"

definition lab_plane :: "unit voice_plane" where
  "lab_plane = \<lparr>vp_codec = lab_codec, vp_config = config_default,
     vp_tables = (\<lambda>_. compile lab_relation lab_sessions fmempty silence_default)\<rparr>"


lemma lab_peers_ok: "peers_ok lab_peers"
  unfolding lab_peers_def
  by (intro peers_ok_insert peers_ok_new) (simp_all add: lab_peer_def peer_new_def insert_peer_def peers_new_def Let_def)

lemma lab_tables_ok: "tables_ok lab_plane"
  using compile_sorted by (simp add: tables_ok_def lab_plane_def strict_sorted_iff)

subsection \<open>Voice\<close>

text \<open>
  C17. One datagram, whatever its bytes and wherever it comes from, leaves the registry well formed and either changes
  nothing and is answered to its source only, or was opened with the key of a registered connection. Then only that
  connection and those its routing table lists as its receivers change, and every datagram sent goes back to the
  source or to an address a registered connection has proven.
\<close>

theorem datagram_contained:
  assumes "peers_ok px" and "tables_ok vp" and "handle_datagram vp dg source now px = (out, px')"
  shows "peers_ok px' \<and>
    (px' = px \<and> (\<forall>d \<in> set out. snd d = source) \<or>
     (\<exists>p. opened_by dg px p \<and>
        (\<forall>c. fmlookup (px_heap px') c \<noteq> fmlookup (px_heap px) c \<longrightarrow> c = pe_connection p \<or> c \<in> hearers vp p px) \<and>
        (\<forall>d \<in> set out. snd d = source \<or> proven px (snd d))))"
proof (cases "by_address px source")
  case (Some p)
  obtain r q where d: "peer_decrypt dg p = (r, q)" by fastforce
  show ?thesis
  proof (cases r)
    case None
    then have "q = p" using d decrypt_failure by blast
    moreover have "fmlookup (px_heap px) (pe_connection p) = Some p"
      using Some peers_okD(1) [OF assms(1)] by (auto simp: by_address_def bind_eq_Some_conv)
    ultimately show ?thesis using assms d None Some by (simp add: handle_datagram_def put_peer_same)
  next
    case r: (Some plain)
    then have e: "dispatch vp q plain source now (put_peer q px) = (out, px')" using assms(3) d Some by (simp add: handle_datagram_def)
    have "contained vp p px (out, px')" using hot_path(2) [OF assms(1,2) Some d [unfolded r], of now] unfolding e .
    then have "peers_ok px'" and "\<forall>c. fmlookup (px_heap px') c \<noteq> fmlookup (px_heap px) c \<longrightarrow> c = pe_connection p \<or> c \<in> hearers vp p px"
      and "\<forall>d \<in> set out. proven px (snd d)" by (simp_all add: contained_def)
    then show ?thesis using hot_path(1) [OF assms(1,2) Some d [unfolded r]] by blast
  qed
next
  case None
  show ?thesis
  proof (cases "try_candidates dg (candidates px (fst source)) px")
    case n: None
    then show ?thesis
      using assms None by (auto simp: handle_datagram_def split: sum.splits udp_message.splits)
  next
    case (Some t)
    obtain c plain px1 where t: "t = (c, plain, px1)" by (cases t)
    obtain p q where p: "opened_by dg px p" and q: "fmlookup (px_heap (bind_address source c px1)) c = Some q"
      and r: "peers_ok (snd (dispatch vp q plain source now (bind_address source c px1)))"
        "\<And>d. fmlookup (px_heap (snd (dispatch vp q plain source now (bind_address source c px1)))) d \<noteq> fmlookup (px_heap px) d \<Longrightarrow>
          d = pe_connection p \<or> d \<in> hearers vp p px"
        "\<And>d. d \<in> set (fst (dispatch vp q plain source now (bind_address source c px1))) \<Longrightarrow> snd d = source \<or> proven px (snd d)"
      using cold_path [OF assms(1,2) Some [unfolded t]] by blast
    have e: "dispatch vp q plain source now (bind_address source c px1) = (out, px')"
      using assms(3) None Some t q by (simp add: handle_datagram_def)
    show ?thesis using p r unfolding e fst_conv snd_conv by blast
  qed
qed

theorem datagram_contained_witness:
  "peers_ok (snd (handle_datagram lab_plane [1, 2, 3, 4, 5, 6] ([127, 0, 0, 1], 9) 5 lab_peers))"
proof -
  obtain out px' where r: "handle_datagram lab_plane [1, 2, 3, 4, 5, 6] ([127, 0, 0, 1], 9) 5 lab_peers = (out, px')" by fastforce
  show ?thesis using datagram_contained [OF lab_peers_ok lab_tables_ok r] r by simp
qed

text \<open>
  Who is meant to hear \<open>p\<close>: the relation, the silence and the progress of each receiver's own view decide.
\<close>

definition audience ::
    "audio_relation \<Rightarrow> (connection_id, session_id) fmap \<Rightarrow> (session_id, u64) fmap \<Rightarrow> silence \<Rightarrow> 'm peers \<Rightarrow> session_id \<Rightarrow> 'm peer set" where
  "audience rel so since si px s = {q. \<exists>c d. hears rel c d \<and> fmlookup so c = Some s \<and> fmlookup so d = Some (pe_session q) \<and>
     may_speak si s \<and> may_hear si (pe_session q) \<and> by_session px (pe_session q) = Some q \<and>
     (case fmlookup since s of Some v \<Rightarrow> v | None \<Rightarrow> 0) \<le> pe_cursor q}"

text \<open>
  C18. A spoken packet reaches exactly the registered connections that the audio relation lets hear its speaker, that
  are not deafened while the speaker is not muted, and that have got far enough in their own view: each of them gets
  one copy, sealed for it or queued for it, under the speaker's session, and nobody else's state moves.
\<close>

theorem voice_reaches_exactly_hearers:
  assumes "peers_ok px" and "routing_of vp p = compile rel so since si" and "one_session_each so" and "speak vp p audio px = (out, px')"
  shows "set out = voice_sent vp audio (pe_session p) (audience rel so since si px (pe_session p)) \<and>
    (\<forall>c. fmlookup (px_heap px') c = voice_after vp audio (pe_session p) (audience rel so since si px (pe_session p)) px c)"
proof -
  let ?rs = "receivers (compile rel so since si) (pe_session p)"
  define oldest where "oldest = (case fmlookup since (pe_session p) of Some v \<Rightarrow> v | None \<Rightarrow> 0)"
  have run: "fold (speak_to vp audio (pe_session p) oldest) ?rs ([], px) = (out, px')"
    using assms(4) by (simp add: speak_def assms(2) Let_def oldest_def routing_since_def) (simp add: compile_def)
  have "by_session px s = Some q \<Longrightarrow> pe_session q = s" for s q using by_sessionD(2) [OF assms(1)] .
  then have "reached px oldest ?rs = audience rel so since si px (pe_session p)"
    unfolding reached_def audience_def Bex_def compile_receivers [OF assms(3)] oldest_def by blast
  then show ?thesis using speak_exact [OF assms(1) _ run] compile_sorted [of rel so since si] by (simp add: strict_sorted_iff)
qed

theorem voice_reaches_exactly_hearers_witness:
  "lab_peer 2 12 \<in> audience lab_relation lab_sessions fmempty silence_default lab_peers 11 \<and>
    fmlookup (px_heap (snd (speak lab_plane (lab_peer 1 11) lab_audio lab_peers))) 2 =
      Some (snd (voice_effect lab_plane lab_audio 11 (lab_peer 2 12)))"
proof -
  have hear: "lab_peer 2 12 \<in> audience lab_relation lab_sessions fmempty silence_default lab_peers 11"
    by (auto simp: audience_def hears_def lab_relation_def lab_sessions_def audio_domain_def relation_default_def fm_get_or_def silence_default_def
        may_speak_def may_hear_def by_session_def lab_peers_def lab_peer_def peer_new_def insert_peer_def peers_new_def Let_def fset_of_list_elem) (rule exI [of _ 1], simp)
  obtain out px' where r: "speak lab_plane (lab_peer 1 11) lab_audio lab_peers = (out, px')" by fastforce
  have one: "one_session_each lab_sessions" by (auto simp: one_session_each_def lab_sessions_def split: if_splits)
  have "routing_of lab_plane (lab_peer 1 11) = compile lab_relation lab_sessions fmempty silence_default"
    by (simp add: routing_of_def peer_routing_def lab_plane_def lab_peer_def peer_new_def)
  from voice_reaches_exactly_hearers [OF lab_peers_ok this one r]
  have after: "fmlookup (px_heap px') 2 = voice_after lab_plane lab_audio 11 (audience lab_relation lab_sessions fmempty silence_default lab_peers 11) lab_peers 2"
    by (simp add: lab_peer_def peer_new_def)
  have "2 \<in> pe_connection ` audience lab_relation lab_sessions fmempty silence_default lab_peers 11"
    using hear by (rule rev_image_eqI) (simp add: lab_peer_def peer_new_def)
  then show ?thesis using hear after r by (simp add: lab_peers_def lab_peer_def peer_new_def insert_peer_def peers_new_def Let_def)
qed

subsection \<open>Requests\<close>

text \<open>
  C23. Whatever a client sends after its handshake, every command the gateway forwards is a request, names the
  client's own connection, and goes to the shard the connection is on.
\<close>

theorem forwarded_in_own_name:
  assumes "(s, cmd) \<in> set (fst (snd (inbound cf now m p)))"
  shows "s = peer_shard p \<and> command_connection cmd = pe_connection p \<and> is_request cmd"
  using assms by (rule inbound_forwards)

theorem forwarded_in_own_name_witness:
  "(1, Requested 2 7) \<in> set (fst (snd (inbound config_default 5 (ClUserState \<lparr>ur_target = None, ur_channel = Some 7, ur_self_mute = None, ur_self_deaf = None\<rparr>) (lab_peer 2 12)))) \<and>
    peer_shard (lab_peer 2 12) = 1"
proof -
  have in_set: "(1, Requested 2 7) \<in> set (fst (snd (inbound config_default 5 (ClUserState \<lparr>ur_target = None, ur_channel = Some 7, ur_self_mute = None, ur_self_deaf = None\<rparr>) (lab_peer 2 12))))"
    by (simp add: inbound_def inbound_user_state_def self_state_def record_activity_def peer_shard_def lab_peer_def peer_new_def Let_def)
  then show ?thesis using forwarded_in_own_name [OF in_set] by simp
qed

subsection \<open>One connection from beginning to end\<close>

definition lab_arrival :: "unit arrival" where
  "lab_arrival = \<lparr>av_writes = (\<lambda>k. True), av_messages = [ClVersion, ClAuthenticate (Some ''bob'') None], av_host = [127, 0, 0, 1],
     av_certificate = None, av_route = (\<lambda>_ _. RouteAttach 1), av_crypt = Some (replicate 16 1, replicate 16 2, replicate 16 3),
     av_cipher = (\<lambda>_. lab_cipher), av_first_view = Some [()], av_service = True, av_now = 5\<rparr>"

definition lab_runtime :: "unit runtime" where
  "lab_runtime = snd (create_shard runtime_start)"




text \<open>
  C20. A client that is told it is synchronised has been sent, before that and in this order, the version, the keys,
  the codec and the whole of its first view.
\<close>

theorem sync_follows_first_view:
  assumes "serve_connection cf av rt = (ws, fine, rt')" and "WroteHandshake (HsServerSync session b w m) \<in> set ws"
  shows "\<exists>key server_nonce client_nonce queued rest. av_first_view av = Some queued \<and>
    ws = map WroteHandshake (server_version_message cf # handshake_prelude key client_nonce server_nonce) @ map WroteQueued queued @
      WroteHandshake (HsServerSync session b w m) # rest"
  using assms by (rule handshake_order)

lemma lab_tail:
  assumes "fmlookup (rt_tasks rt) 1 = Some \<lparr>en_box = [], en_gone = False\<rparr>" and "1 |\<in>| rt_shards rt"
  shows "WroteHandshake (HsServerSync 1 72000 None (ucast PERM_DEFAULT)) \<in> set (fst (handshake_tail config_default lab_arrival keys 1 1 1 rt))"
proof -
  have "\<exists>r. runtime_attach 1 1 rt = (Inr (), r)"
    using assms by (simp add: runtime_attach_def handle_send_def on_peer_def MAILBOX_DEPTH_def Let_def)
  then show ?thesis
    by (cases keys) (auto simp: handshake_tail_def handshake_prelude_def handshake_completion_def config_default_def lab_arrival_def Let_def)
qed

lemma lab_registered:
  assumes "fmlookup (rt_tasks rt) 1 = Some \<lparr>en_box = [], en_gone = False\<rparr>" and "1 |\<in>| rt_shards rt"
  shows "WroteHandshake (HsServerSync 1 72000 None (ucast PERM_DEFAULT)) \<in> set (fst (serve_registered config_default lab_arrival 1 1 1 rt))"
proof -
  have k: "av_crypt lab_arrival = Some (replicate 16 1, replicate 16 2, replicate 16 3)" by (simp add: lab_arrival_def)
  define rt2 where "rt2 = rt\<lparr>rt_peers := insert_peer (peer_new 1 1 (av_host lab_arrival) (crypt_new (av_cipher lab_arrival (replicate 16 1)) (replicate 16 2) (replicate 16 3))
    queue_new \<lparr>pl_shard = 1, pl_table = None\<rparr> (av_now lab_arrival)) (rt_peers rt)\<rparr>"
  obtain ws fine r where t: "handshake_tail config_default lab_arrival (replicate 16 1, replicate 16 2, replicate 16 3) 1 1 1 rt2 = (ws, fine, r)"
    by (metis prod.exhaust)
  have "fst (serve_registered config_default lab_arrival 1 1 1 rt) = ws"
    unfolding serve_registered_def k option.case prod.case Let_def rt2_def [symmetric] t by simp
  then show ?thesis using lab_tail [of rt2 "(replicate 16 1, replicate 16 2, replicate 16 3)"] assms t by (simp add: rt2_def)
qed

lemma lab_served: "WroteHandshake (HsServerSync 1 72000 None (ucast PERM_DEFAULT)) \<in> set (fst (serve_connection config_default lab_arrival lab_runtime))"
proof -
  let ?rt = "lab_runtime\<lparr>rt_next_connection := 2, rt_ids := snd (alloc_session (Connection 1) (rt_ids lab_runtime))\<rparr>"
  have "serve_authenticated config_default lab_arrival (Some ''bob'') None lab_runtime = serve_registered config_default lab_arrival 1 1 1 ?rt"
    by (simp add: serve_authenticated_def lab_runtime_def create_shard_def runtime_start_def config_default_def take_connection_def session_for_def
        alloc_session_def allocator_new_def peers_len_def peers_new_def fcard.rep_eq lab_arrival_def Let_def)
  moreover have "serve_connection config_default lab_arrival lab_runtime =
      (case serve_authenticated config_default lab_arrival (Some ''bob'') None lab_runtime of (ws, r) \<Rightarrow> (WroteHandshake (server_version_message config_default) # ws, r))"
    by (simp add: serve_connection_def lab_arrival_def Let_def split: prod.split)
  moreover have "WroteHandshake (HsServerSync 1 72000 None (ucast PERM_DEFAULT)) \<in> set (fst (serve_registered config_default lab_arrival 1 1 1 ?rt))"
    by (rule lab_registered) (simp_all add: lab_runtime_def create_shard_def runtime_start_def Let_def)
  ultimately show ?thesis by (cases "serve_registered config_default lab_arrival 1 1 1 ?rt") simp
qed

theorem sync_follows_first_view_witness:
  "\<exists>key server_nonce client_nonce rest. fst (serve_connection config_default lab_arrival lab_runtime) =
    map WroteHandshake (server_version_message config_default # handshake_prelude key client_nonce server_nonce) @
      WroteQueued () # WroteHandshake (HsServerSync 1 72000 None (ucast PERM_DEFAULT)) # rest"
proof -
  obtain ws fine rt' where r: "serve_connection config_default lab_arrival lab_runtime = (ws, fine, rt')" by (metis prod.exhaust)
  have "WroteHandshake (HsServerSync 1 72000 None (ucast PERM_DEFAULT)) \<in> set ws" using r lab_served by simp
  from sync_follows_first_view [OF r this] obtain key sn cn queued rest where "av_first_view lab_arrival = Some queued"
    and "ws = map WroteHandshake (server_version_message config_default # handshake_prelude key cn sn) @ map WroteQueued queued @
      WroteHandshake (HsServerSync 1 72000 None (ucast PERM_DEFAULT)) # rest" by blast
  moreover from this(1) have "map WroteQueued queued = [WroteQueued ()]" by (auto simp: lab_arrival_def)
  ultimately show ?thesis unfolding r fst_conv by (metis append_Cons append_Nil)
qed

subsection \<open>Shards\<close>

text \<open>
  C21. A migration that has heard from the source shard leaves the connection either told to close, or on its new shard,
  routed by that shard's table, with the view it held as the last mail of a shard that still runs.
\<close>

theorem migration_never_strands:
  assumes "fmlookup (px_heap (rt_peers rt)) c = Some p"
  shows "\<exists>q. fmlookup (px_heap (rt_peers (migrate_finish c target handed rt))) c = Some q \<and>
    (qu_must_close (pe_queue q) \<or>
     peer_shard q = target \<and> pl_table (pe_plane q) = Some target \<and>
     (\<exists>held e. handed = Some held \<and> fmlookup (rt_tasks (migrate_finish c target handed rt)) target = Some e \<and>
        en_box e \<noteq> [] \<and> last (en_box e) = MailAttach c held False \<and> \<not> en_gone e))"
  using assms by (rule migration_settles [OF _ refl]) blast+

theorem migration_never_strands_witness:
  "\<exists>q. fmlookup (px_heap (rt_peers (migrate_finish 2 9 (Some empty_view) (lab_runtime\<lparr>rt_peers := lab_peers\<rparr>)))) 2 = Some q \<and> qu_must_close (pe_queue q)"
proof -
  have p: "fmlookup (px_heap (rt_peers (lab_runtime\<lparr>rt_peers := lab_peers\<rparr>))) 2 = Some (lab_peer 2 12)"
    by (simp add: lab_peers_def lab_peer_def peer_new_def insert_peer_def peers_new_def Let_def)
  have "fmlookup (rt_tasks (migrate_finish 2 9 (Some empty_view) (lab_runtime\<lparr>rt_peers := lab_peers\<rparr>))) 9 = None"
    by (simp add: migrate_finish_def handle_send_def on_peer_def lab_runtime_def create_shard_def runtime_start_def Let_def)
  then show ?thesis using migration_never_strands [OF p, of 9 "Some empty_view"] by auto
qed

text \<open>
  C22. After a shard has been destroyed it is no longer in the directory and every connection that was registered on it
  is told to close.
\<close>

theorem destroy_leaves_nobody:
  assumes "peers_ok (rt_peers rt)" and "c |\<in>| px_by_connection (rt_peers rt)" and "fmlookup (px_heap (rt_peers rt)) c = Some p" and "peer_shard p = s"
  shows "(\<exists>q. fmlookup (px_heap (rt_peers (destroy s rt))) c = Some q \<and> qu_must_close (pe_queue q)) \<and> s |\<notin>| rt_shards (destroy s rt)"
  using destroy_closes [OF assms] by blast

theorem destroy_leaves_nobody_witness:
  "1 |\<in>| rt_shards (lab_runtime\<lparr>rt_peers := lab_peers\<rparr>) \<and> 1 |\<notin>| rt_shards (destroy 1 (lab_runtime\<lparr>rt_peers := lab_peers\<rparr>)) \<and>
    (\<exists>q. fmlookup (px_heap (rt_peers (destroy 1 (lab_runtime\<lparr>rt_peers := lab_peers\<rparr>)))) 2 = Some q \<and> qu_must_close (pe_queue q))"
proof -
  have p: "fmlookup (px_heap (rt_peers (lab_runtime\<lparr>rt_peers := lab_peers\<rparr>))) 2 = Some (lab_peer 2 12)" "peer_shard (lab_peer 2 12) = 1"
    "2 |\<in>| px_by_connection (rt_peers (lab_runtime\<lparr>rt_peers := lab_peers\<rparr>))"
    by (simp_all add: lab_peers_def lab_peer_def peer_new_def insert_peer_def peers_new_def peer_shard_def Let_def)
  have ok: "peers_ok (rt_peers (lab_runtime\<lparr>rt_peers := lab_peers\<rparr>))" using lab_peers_ok by simp
  show ?thesis
    using destroy_leaves_nobody [OF ok p(3,1,2)] by (simp add: lab_runtime_def create_shard_def runtime_start_def Let_def)
qed

end
