(* ===== verification/Spec2Isabelle.thy ===== *)
theory Spec2Isabelle
  imports Props_Core Props_Wire Props_Shard Props_Control Props_Gateway
begin

text \<open>
  A verification development for the Mumble server runtime.

  \<^bold>\<open>The program.\<close> The repository holds a server for the Mumble voice protocol, most of it in Rust. A \<^emph>\<open>shard\<close>
  (\<open>runtime/crates/shard\<close>) renders what an application, its \<^emph>\<open>flavor\<close>, declares into a view of channels and users, and
  sends every connection the messages that lead from the view it holds to the one it should hold, filtered by what
  it may see and with a private overlay laid over it. The \<^emph>\<open>gateway\<close> (\<open>runtime/crates/gateway\<close>) accepts connections, runs
  their handshake, forwards their requests to their shard and routes voice by the table the shard compiled. Below
  both lie the wire formats (\<open>runtime/crates/protocol\<close>) and the voice cipher (\<open>runtime/crates/crypto\<close>). The \<^emph>\<open>arena\<close>
  (\<open>runtime/reference/arena\<close>) is the reference application. Outside the runtime, a \<^emph>\<open>controller\<close> keeps sessions,
  ownership of entities and the log of completed commands (\<open>control/coordination\<close>).

  \<^bold>\<open>How it is modelled.\<close> Every component is a group of HOL functions in the order of its source file, declared at the
  top level of its theory. A struct is a record whose fields carry a short prefix, an enum is a datatype, an integer
  keeps its width as a word, an instant is a natural number of nanoseconds, a \<open>BTreeMap\<close> is a finite map that is walked
  in key order, a \<open>HashMap\<close> is a finite map whose walks the code does not depend on, a \<open>String\<close> is its UTF-8 bytes, a
  \<open>Result\<close> is a sum with the error on the left. State that the source mutates is passed and returned; records that
  the source shares by reference (\<open>Arc<Peer>\<close>) live in an explicit heap. Tasks are step relations, and what a task
  waits for is an argument or a nondeterministic step.

  \<^bold>\<open>The theories.\<close>
  \<^item> \<open>Prelude\<close>: integers, results, finite maps in key order, list lemmas. \<open>Ids\<close> (\<open>ids.rs\<close>): the allocator; channels and
    sessions are two interpretations of the locale \<open>id_supply\<close>. \<open>Scope\<close> (\<open>scope.rs\<close>): packed scopes and their meaning as
    paths. \<open>View\<close> (\<open>view.rs\<close>): views, overlays, restriction and composition.
  \<^item> \<open>Plan\<close>, \<open>Plan_Order\<close> (\<open>plan.rs\<close>): differences of views and their order. \<open>Compose\<close> (\<open>compose.rs\<close>): filter, splice, collapse.
    \<open>Reply\<close>, \<open>Emit\<close> (\<open>reply.rs\<close>, \<open>emit.rs\<close>): messages. \<open>Client\<close>, \<open>Client_Run\<close>: the strict client of
    \<open>tests/support/model.rs\<close>, used as the specification of every transition. \<open>Transition\<close>, \<open>Refinement\<close>: a composed
    transition is accepted by the strict client message by message and reaches the expected view.
  \<^item> \<open>Journal\<close>, \<open>Queue\<close>, \<open>Routing\<close> (\<open>journal.rs\<close>, \<open>queue.rs\<close>, \<open>routing.rs\<close>): the history of deltas, the bounded output queue, the
    audio relation and its table.
  \<^item> \<open>Build\<close>, \<open>Build_Check\<close>, \<open>Build_Run\<close>, \<open>Render\<close> (\<open>build.rs\<close>): the builder, its closing checks, and that any sequence of
    builder calls gives a well-formed view. \<open>Shard\<close> (\<open>shard.rs\<close>): commands and the reconcile turn. \<open>Shard_Inv\<close>,
    \<open>Shard_Turn\<close>, \<open>Shard_Client\<close>, \<open>Shard_Text\<close>: its invariant, the contract of a flavor (locale \<open>flavor\<close>), what a turn means to a
    client, what a text may name. \<open>Driver\<close>: the task \<open>run_with_reports\<close> as a step relation.
  \<^item> \<open>Arena\<close>, \<open>Arena_Flavor\<close>, \<open>Arena_Apart\<close> (\<open>directory.rs\<close>, \<open>lobby.rs\<close>, \<open>arena.rs\<close>): the two flavors, both interpretations of
    \<open>flavor\<close>, and the privacy of teams.
  \<^item> \<open>Framing\<close> (\<open>framing.rs\<close>, \<open>control.rs\<close>, \<open>udp.rs\<close>, the frame reader of \<open>connection.rs\<close>), \<open>Ocb2\<close>, \<open>Crypt_State\<close> (\<open>ocb2.rs\<close>),
    \<open>Limits\<close> (\<open>limits.rs\<close>; the two budgets interpret \<open>token_bucket\<close>).
  \<^item> \<open>Peer\<close> (\<open>peer.rs\<close>), \<open>Voice\<close> (\<open>voice.rs\<close>, \<open>config.rs\<close>), \<open>Voice_Safe\<close>: the registry of connections, one datagram, and whom it can
    reach. \<open>Connection\<close> (\<open>handshake.rs\<close>, \<open>connection.rs\<close>), \<open>Runtime\<close> (\<open>runtime.rs\<close>, \<open>router.rs\<close>, \<open>serve\<close> of \<open>connection.rs\<close>),
    \<open>Gateway_Inv\<close>: one connection from its first byte to its removal, migration and destruction of shards.
  \<^item> \<open>Control\<close>, \<open>Control_Inv\<close> (\<open>mumble_controller_core.rs\<close>, \<open>ownership.rs\<close>, \<open>reliable.rs\<close>): three registries, each an
    interpretation of the locale \<open>registry\<close>, which lifts an invariant of single requests to histories.
  \<^item> \<open>Samples\<close>, \<open>Samples_Shard\<close>, \<open>Samples_Arena\<close>: concrete values the witnesses compute with. \<open>Props_Core\<close>, \<open>Props_Wire\<close>,
    \<open>Props_Shard\<close>, \<open>Props_Control\<close>, \<open>Props_Gateway\<close> and this theory: the properties, each with the number it has in the
    manifest.

  \<^bold>\<open>What is shown.\<close> The central property is C1: the one plan shared by all connections, filtered for one of them and
  merged with its private part, never confuses a client. The properties of the shard lift it to whole turns, to every
  state the driving task can reach, and to the flavors; those of the render show that what is accepted is well formed
  and that nobody hears whom it is not shown. On the wire, streams of frames and of voice packets read back as they
  were written and replays are refused. For the gateway, a stranger's datagram changes nothing, a packet reaches
  exactly its audience, and a connection leaves no trace. For the controller, capabilities are exclusive and a
  superseded owner is fenced off.

  \<^bold>\<open>Bounds and fuel.\<close> Every function of the model is total. The walk \<open>descends_from\<close> of the shard has no bound in the
  source: it is a \<open>partial_function\<close>, a result is proved for trees, and that it does not end is proved for a cycle. The
  loops of the planner (\<open>order_creations\<close>, \<open>order_removals\<close>) and of the cipher end because each round consumes an element
  or a block. Capacities (queue, journal, mailboxes, log of commands) are the constants of the source. Counters that
  can wrap are words; where a property needs that one has not wrapped yet, it says so.

  \<^bold>\<open>Not modelled.\<close> Sockets, TLS and the accept loop (\<open>serve.rs\<close>, \<open>tls.rs\<close>), metrics and operator logging: input and output
  whose effect on the modelled state is an argument here. The block cipher, the protobuf codec, the random source and
  the tokio channels are other packages and parameters of the model. The host that connects controllers to the runtime
  (\<open>implementations/spaces/host\<close>, \<open>control/runtime-adapter\<close>), the Java clients, the command-line tools under
  \<open>runtime/tools\<close> and the load generators are programs of their own and are left out.
\<close>



end
